(* ===== verification/Prelude.thy ===== *)
theory Prelude
  imports Main "HOL-Library.Word" "HOL-Library.Signed_Division"
begin

text \<open>
  What every component of the model shares: names for the machine integers of the Rust
  source, the two clocks the source reads (\<open>chrono::Utc::now()\<close> and
  \<open>SystemTime::now()\<close>, both instants counted in nanoseconds since the Unix epoch),
  reachability for the step relations with the locale that turns a step-wise invariant into
  an invariant of every reachable state, and small lemmas on words and lists.
\<close>

named_theorems frame_simps \<open>components of the state that an operation leaves alone\<close>

section \<open>Machine integers\<close>

type_synonym u16 = "16 word"
type_synonym u32 = "32 word"
type_synonym u64 = "64 word"
type_synonym usize = "64 word"

text \<open>
  The signed types share the words of their width and are read with \<^term>\<open>sint\<close>; Rust's
  \<open>+\<close> and \<open>-\<close> on them wrap in the release profile the image is built with.
\<close>

type_synonym i32 = "32 word"
type_synonym i64 = "64 word"

text \<open>Rust's \<open>u64::saturating_sub\<close>, and \<open>Ord::max\<close> on \<open>i64\<close>.\<close>

definition saturating_sub :: "u64 \<Rightarrow> u64 \<Rightarrow> u64" where
  "saturating_sub a b = (if a < b then 0 else a - b)"

definition max_i64 :: "i64 \<Rightarrow> i64 \<Rightarrow> i64" where
  "max_i64 a b = (if sint b < sint a then a else b)"

lemma unat_saturating_sub: "unat (saturating_sub a b) = unat a - unat b"
  by (simp add: saturating_sub_def unat_sub word_less_nat_alt word_le_nat_alt not_less)

lemma sint_max_i64: "sint (max_i64 a b) = max (sint a) (sint b)"
  by (simp add: max_i64_def)

lemma sint_word_of_int_64:
  assumes "- (2 ^ 63) \<le> x" and "x < 2 ^ 63"
  shows "sint (word_of_int x :: i64) = x"
  using assms by (simp add: int_word_sint)

lemma sint_minus_64:
  assumes "- (2 ^ 63) \<le> sint a - sint b" and "sint a - sint b < 2 ^ 63"
  shows "sint (a - b :: i64) = sint a - sint b"
  using assms by (simp add: signed_take_bit_int_eq_self sint_word_ariths)

text \<open>A difference above the range wraps to a negative number.\<close>

lemma sint_minus_64_wrap:
  assumes "2 ^ 63 \<le> sint a - sint b" and "sint a - sint b < 2 ^ 64"
  shows "sint (a - b :: i64) = sint a - sint b - 2 ^ 64"
proof -
  have "a - b = word_of_int (sint a - sint b)" by (simp add: wi_hom_sub [symmetric])
  then have "sint (a - b) = (sint a - sint b + 2 ^ 63) mod 2 ^ 64 - 2 ^ 63"
    using int_word_sint [of "sint a - sint b", where 'a = 64] by simp
  moreover have "(sint a - sint b + 2 ^ 63) mod 2 ^ 64 = sint a - sint b + 2 ^ 63 - 2 ^ 64"
    using assms by (subst mod_pos_geq) simp_all
  ultimately show ?thesis by simp
qed

lemma uint_word_of_int_64: "uint (word_of_int k :: u64) = k mod 2 ^ 64"
  by (simp add: uint_word_of_int)

text \<open>The cast \<open>as u64\<close> of a non-negative signed value keeps the value.\<close>

lemma unat_of_nonneg_i64:
  assumes "0 \<le> sint (a :: i64)"
  shows "int (unat a) = sint a"
proof -
  have "sint a < 2 ^ 63" using sint_less [of a] by simp
  then have "sint a mod 2 ^ 64 = sint a" using assms by simp
  then show ?thesis using uint_word_of_int_64 [of "sint a"] by simp
qed

lemma unat_scast_i32:
  assumes "0 \<le> sint (a :: i32)"
  shows "int (unat (scast a :: u64)) = sint a"
proof -
  have "sint a < 2 ^ 31" using sint_less [of a] by simp
  then have "sint a mod 2 ^ 64 = sint a" using assms by simp
  moreover have "scast a = (word_of_int (sint a) :: u64)" by simp
  ultimately show ?thesis using uint_word_of_int_64 [of "sint a"] by simp
qed

lemma unat_word_of_int_nonneg:
  assumes "0 \<le> k" and "k < 2 ^ 64"
  shows "unat (word_of_int k :: u64) = nat k"
  using assms by (simp add: unat_eq_nat_uint uint_word_of_int_64)

section \<open>Clocks\<close>

text \<open>
  An instant is a number of nanoseconds since the Unix epoch. chrono's
  \<open>TimeDelta::num_seconds\<close> truncates towards zero and \<open>DateTime::timestamp\<close>
  rounds towards minus infinity; \<open>SystemTime::now().duration_since(UNIX_EPOCH).unwrap()\<close>
  panics before the epoch, which is \<^term>\<open>None\<close> here.
\<close>

type_synonym instant = int

abbreviation nanos_per_sec :: int where
  "nanos_per_sec \<equiv> 1000000000"

definition num_seconds :: "int \<Rightarrow> i64" where
  "num_seconds d = word_of_int (d sdiv nanos_per_sec)"

definition timestamp :: "instant \<Rightarrow> i64" where
  "timestamp t = word_of_int (t div nanos_per_sec)"

definition unix_secs :: "instant \<Rightarrow> u64 option" where
  "unix_secs t = (if t < 0 then None else Some (word_of_int (t div nanos_per_sec)))"

text \<open>
  chrono's \<open>DateTime<Utc>\<close> holds years -262143 to 262142 only, less than \<open>2 ^ 43\<close>
  seconds on either side of the epoch.
\<close>

definition datetime_ok :: "instant \<Rightarrow> bool" where
  "datetime_ok t \<longleftrightarrow> - (2 ^ 43 * nanos_per_sec) \<le> t \<and> t \<le> 2 ^ 43 * nanos_per_sec"

lemma sdiv_nanos:
  "(d :: int) sdiv nanos_per_sec
     = (if 0 \<le> d then d div nanos_per_sec else - ((- d) div nanos_per_sec))"
  by (simp add: signed_divide_int_def sgn_if)

lemma sint_num_seconds:
  assumes "datetime_ok a" and "datetime_ok b"
  shows "sint (num_seconds (a - b)) = (a - b) sdiv nanos_per_sec"
  unfolding num_seconds_def
  by (rule sint_word_of_int_64) (use assms in \<open>auto simp: datetime_ok_def sdiv_nanos\<close>)

lemma sint_timestamp:
  assumes "datetime_ok t"
  shows "sint (timestamp t) = t div nanos_per_sec"
  unfolding timestamp_def
  by (rule sint_word_of_int_64) (use assms in \<open>auto simp: datetime_ok_def\<close>)

lemma unix_secs_Some: "0 \<le> t \<Longrightarrow> \<exists>n. unix_secs t = Some n"
  by (simp add: unix_secs_def)

lemma unat_unix_secs:
  assumes "unix_secs t = Some n" and "t < 2 ^ 64 * nanos_per_sec"
  shows "int (unat n) = t div nanos_per_sec"
  using assms by (auto simp: unix_secs_def uint_word_of_int_64 split: if_splits)

section \<open>Step relations and their invariants\<close>

inductive reach :: "('s \<Rightarrow> bool) \<Rightarrow> ('s \<Rightarrow> 's \<Rightarrow> bool) \<Rightarrow> 's \<Rightarrow> bool" for init step where
  reach_init: "init s \<Longrightarrow> reach init step s"
| reach_step: "reach init step s \<Longrightarrow> step s t \<Longrightarrow> reach init step t"

lemma reach_start: "reach (\<lambda>s. s = a) step a"
  by (rule reach_init) simp

locale invariant_system =
  fixes init :: "'s \<Rightarrow> bool"
    and step :: "'s \<Rightarrow> 's \<Rightarrow> bool"
    and inv :: "'s \<Rightarrow> bool"
  assumes init_inv: "init s \<Longrightarrow> inv s"
    and step_inv: "inv s \<Longrightarrow> step s t \<Longrightarrow> inv t"
begin

lemma reach_inv: "reach init step s \<Longrightarrow> inv s"
  by (induction rule: reach.induct) (auto intro: init_inv step_inv)

lemma steps_inv: "step\<^sup>*\<^sup>* s t \<Longrightarrow> inv s \<Longrightarrow> inv t"
  by (induction rule: rtranclp_induct) (auto intro: step_inv)

end

lemma reach_steps:
  assumes "reach init step s" and "step\<^sup>*\<^sup>* s t"
  shows "reach init step t"
  using assms(2,1) by (induction rule: rtranclp_induct) (auto intro: reach_step)

end
