(* ===== verification/Rust_Strings.thy ===== *)
theory Rust_Strings
  imports Prelude
begin

text \<open>
  The operations of Rust's \<open>str\<close> and integer types that the operator uses. A Rust
  string is its UTF-8 bytes, a \<^typ>\<open>string\<close> here: \<open>Display\<close> and
  \<open>FromStr\<close> of the unsigned integers, \<open>eq_ignore_ascii_case\<close>, \<open>join\<close>, and
  the test \<open>s.trim().is_empty()\<close>. The lemmas show that printing and parsing an
  unsigned integer are inverse and that parsing accepts exactly the decimal numerals that
  fit the width.
\<close>

section \<open>Printing unsigned integers\<close>

definition digit_char :: "nat \<Rightarrow> char" where
  "digit_char d = char_of (48 + d)"

fun show_nat :: "nat \<Rightarrow> string" where
  "show_nat n = (if n < 10 then [digit_char n]
                 else show_nat (n div 10) @ [digit_char (n mod 10)])"

declare show_nat.simps [simp del]

definition show_uint :: "'a::len word \<Rightarrow> string" where
  "show_uint w = show_nat (unat w)"

definition to_digit :: "char \<Rightarrow> nat option" where
  "to_digit c = (let n = of_char c in if 48 \<le> n \<and> n \<le> 57 then Some (n - 48) else None)"

lemma to_digit_char [simp]: "d < 10 \<Longrightarrow> to_digit (digit_char d) = Some d"
  by (simp add: to_digit_def digit_char_def)

lemma to_digit_less: "to_digit c = Some d \<Longrightarrow> d < 10"
  by (auto simp: to_digit_def Let_def split: if_splits)

lemma show_nat_nonempty [simp]: "show_nat n \<noteq> []"
  by (subst show_nat.simps) simp

lemma show_nat_digits: "c \<in> set (show_nat n) \<Longrightarrow> to_digit c \<noteq> None"
proof (induction n rule: show_nat.induct)
  case (1 n)
  then show ?case
    by (subst (asm) show_nat.simps) (auto split: if_splits)
qed

lemma show_nat_no_char: "to_digit c = None \<Longrightarrow> c \<notin> set (show_nat n)"
  using show_nat_digits by blast

section \<open>Parsing unsigned integers\<close>

text \<open>
  \<open>from_str_radix(10)\<close> of the unsigned types: one leading \<open>+\<close> is accepted, a
  lone sign is not, every other character must be a digit, and the accumulation
  \<open>checked_mul(10)\<close>, \<open>checked_add(digit)\<close> refuses a value that does not fit. Only
  whether it succeeds matters to the source (\<open>.ok()\<close>), so the error is \<^term>\<open>None\<close>.
\<close>

definition checked_mul :: "'a::len word \<Rightarrow> 'a word \<Rightarrow> 'a word option" where
  "checked_mul a b = (if unat a * unat b < 2 ^ LENGTH('a) then Some (a * b) else None)"

definition checked_add :: "'a::len word \<Rightarrow> 'a word \<Rightarrow> 'a word option" where
  "checked_add a b = (if unat a + unat b < 2 ^ LENGTH('a) then Some (a + b) else None)"

fun parse_digits :: "'a::len word \<Rightarrow> string \<Rightarrow> 'a word option" where
  "parse_digits r [] = Some r"
| "parse_digits r (c # cs) =
     (case to_digit c of
        None \<Rightarrow> None
      | Some d \<Rightarrow>
          (case checked_mul r 10 of
             None \<Rightarrow> None
           | Some m \<Rightarrow>
               (case checked_add m (of_nat d) of
                  None \<Rightarrow> None
                | Some r' \<Rightarrow> parse_digits r' cs)))"

fun parse_uint :: "string \<Rightarrow> 'a::len word option" where
  "parse_uint [] = None"
| "parse_uint (c # cs) =
     (if c = CHR ''+'' then (if cs = [] then None else parse_digits 0 cs)
      else parse_digits 0 (c # cs))"

text \<open>The value a numeral denotes, with no bound.\<close>

fun decimal_value :: "nat \<Rightarrow> string \<Rightarrow> nat option" where
  "decimal_value acc [] = Some acc"
| "decimal_value acc (c # cs) =
     (case to_digit c of None \<Rightarrow> None | Some d \<Rightarrow> decimal_value (acc * 10 + d) cs)"

lemma decimal_value_ge: "decimal_value acc cs = Some n \<Longrightarrow> acc \<le> n"
proof (induction cs arbitrary: acc)
  case (Cons c cs)
  then show ?case by (fastforce split: option.splits)
qed simp

lemma decimal_value_append:
  "decimal_value acc (xs @ ys)
     = (case decimal_value acc xs of None \<Rightarrow> None | Some n \<Rightarrow> decimal_value n ys)"
  by (induction xs arbitrary: acc) (auto split: option.splits)

lemma decimal_value_show: "decimal_value 0 (show_nat n) = Some n"
proof (induction n rule: show_nat.induct)
  case (1 n)
  then show ?case
    by (subst show_nat.simps) (auto simp: decimal_value_append split: option.splits)
qed

lemma unat_checked_mul:
  "checked_mul a b = Some c \<Longrightarrow> unat c = unat a * unat b"
  by (auto simp: checked_mul_def unat_word_ariths split: if_splits)

lemma unat_checked_add:
  "checked_add a b = Some c \<Longrightarrow> unat c = unat a + unat b"
  by (auto simp: checked_add_def unat_word_ariths split: if_splits)

lemma take_bit_ten:
  assumes "4 \<le> LENGTH('a::len)"
  shows "take_bit LENGTH('a) (10 :: nat) = 10"
proof -
  have "(2::nat) ^ 4 \<le> 2 ^ LENGTH('a)" using assms by (rule power_increasing) simp
  then show ?thesis by (simp add: take_bit_nat_eq_self)
qed

lemma unat_of_nat_digit:
  assumes "4 \<le> LENGTH('a::len)" and "d < 10"
  shows "unat (of_nat d :: 'a word) = d"
proof -
  have "(2::nat) ^ 4 \<le> 2 ^ LENGTH('a)" using assms(1) by (rule power_increasing) simp
  then show ?thesis using assms(2) by (simp add: unat_of_nat take_bit_nat_eq_self)
qed

text \<open>
  Parsing accepts exactly the digit strings whose value fits the width, and returns that
  value: the checked accumulation refuses a numeral as soon as a prefix is too large, which
  is sound because a longer numeral is never smaller.
\<close>

lemma parse_digits_spec:
  assumes len: "4 \<le> LENGTH('a::len)"
  shows "parse_digits (r :: 'a word) cs
     = (case decimal_value (unat r) cs of
          None \<Rightarrow> None
        | Some n \<Rightarrow> if n < 2 ^ LENGTH('a) then Some (of_nat n) else None)"
proof (induction cs arbitrary: r)
  case Nil
  show ?case using unsigned_less [of r] by simp
next
  case (Cons c cs)
  show ?case
  proof (cases "to_digit c")
    case None
    then show ?thesis by simp
  next
    case (Some d)
    then have d: "d < 10" by (rule to_digit_less)
    note u = take_bit_ten [OF len] unat_of_nat_digit [OF len d]
    show ?thesis
    proof (cases "unat r * 10 + d < 2 ^ LENGTH('a)")
      case True
      then have "checked_mul r 10 = Some (r * 10)" by (simp add: checked_mul_def u)
      moreover from this have "unat (r * 10) = unat r * 10" using u by (auto dest: unat_checked_mul)
      moreover from this have "checked_add (r * 10) (of_nat d) = Some (r * 10 + of_nat d)"
        using True by (simp add: checked_add_def u)
      moreover from this have "unat (r * 10 + of_nat d) = unat r * 10 + d"
        using u \<open>unat (r * 10) = unat r * 10\<close> by (auto dest: unat_checked_add)
      ultimately show ?thesis using Some Cons.IH [of "r * 10 + of_nat d"] by simp
    next
      case False
      then have "parse_digits r (c # cs) = None"
        using Some u by (cases "checked_mul r 10")
          (auto dest: unat_checked_mul simp: checked_add_def)
      moreover have "n \<ge> 2 ^ LENGTH('a)" if "decimal_value (unat r) (c # cs) = Some n" for n
        using decimal_value_ge [of "unat r * 10 + d" cs n] that Some False by simp
      ultimately show ?thesis by (auto split: option.split)
    qed
  qed
qed

lemma parse_uint_show_nat:
  assumes len: "4 \<le> LENGTH('a::len)"
  shows "parse_uint (show_nat n) = (if n < 2 ^ LENGTH('a) then Some (of_nat n :: 'a word) else None)"
proof -
  obtain c cs where s: "show_nat n = c # cs" by (cases "show_nat n") simp_all
  have "to_digit c \<noteq> None" using show_nat_digits [of c n] s by simp
  then have "c \<noteq> CHR ''+''" by (auto simp: to_digit_def)
  then have "parse_uint (show_nat n) = (parse_digits 0 (show_nat n) :: 'a word option)"
    using s by simp
  then show ?thesis by (simp add: parse_digits_spec [OF len] decimal_value_show)
qed

lemma parse_show_uint:
  assumes "4 \<le> LENGTH('a::len)"
  shows "parse_uint (show_uint (w :: 'a word)) = Some w"
  using unsigned_less [of w] by (simp add: show_uint_def parse_uint_show_nat [OF assms])

lemma show_uint_inject:
  fixes a b :: "'a::len word"
  assumes "4 \<le> LENGTH('a)"
  shows "show_uint a = show_uint b \<longleftrightarrow> a = b"
  using parse_show_uint [OF assms] by (metis option.inject)

section \<open>Other string operations\<close>

text \<open>\<open>[String]::join(sep)\<close>.\<close>

fun join :: "string \<Rightarrow> string list \<Rightarrow> string" where
  "join sep [] = []"
| "join sep [s] = s"
| "join sep (s # t # ss) = s @ sep @ join sep (t # ss)"

text \<open>\<open>str::eq_ignore_ascii_case\<close>.\<close>

definition to_ascii_lowercase :: "char \<Rightarrow> char" where
  "to_ascii_lowercase c =
     (let n = of_char c :: nat in if 65 \<le> n \<and> n \<le> 90 then char_of (n + 32) else c)"

definition eq_ignore_ascii_case :: "string \<Rightarrow> string \<Rightarrow> bool" where
  "eq_ignore_ascii_case s t \<longleftrightarrow> map to_ascii_lowercase s = map to_ascii_lowercase t"

text \<open>
  \<open>s.trim().is_empty()\<close>: every character of \<open>s\<close> is Unicode white space, read off its
  UTF-8 bytes (U+0009 to U+000D, U+0020, U+0085, U+00A0, U+1680, U+2000 to U+200A, U+2028,
  U+2029, U+202F, U+205F, U+3000).
\<close>

definition white_space1 :: "char \<Rightarrow> bool" where
  "white_space1 c \<longleftrightarrow> c \<in> {CHR 0x09, CHR 0x0A, CHR 0x0B, CHR 0x0C, CHR 0x0D, CHR 0x20}"

definition white_space2 :: "char \<Rightarrow> char \<Rightarrow> bool" where
  "white_space2 c d \<longleftrightarrow> c = CHR 0xC2 \<and> d \<in> {CHR 0x85, CHR 0xA0}"

definition white_space3 :: "char \<Rightarrow> char \<Rightarrow> char \<Rightarrow> bool" where
  "white_space3 c d e \<longleftrightarrow>
     [c, d, e] = [CHR 0xE1, CHR 0x9A, CHR 0x80]
   \<or> [c, d] = [CHR 0xE2, CHR 0x80]
       \<and> (128 \<le> (of_char e :: nat) \<and> (of_char e :: nat) \<le> 138
          \<or> e \<in> {CHR 0xA8, CHR 0xA9, CHR 0xAF})
   \<or> [c, d, e] = [CHR 0xE2, CHR 0x81, CHR 0x9F]
   \<or> [c, d, e] = [CHR 0xE3, CHR 0x80, CHR 0x80]"

fun trim_is_empty :: "string \<Rightarrow> bool" where
  "trim_is_empty [] = True"
| "trim_is_empty [c] = white_space1 c"
| "trim_is_empty [c, d] =
     (if white_space1 c then trim_is_empty [d] else white_space2 c d)"
| "trim_is_empty (c # d # e # cs) =
     (if white_space1 c then trim_is_empty (d # e # cs)
      else if white_space2 c d then trim_is_empty (e # cs)
      else white_space3 c d e \<and> trim_is_empty cs)"

lemma trim_is_empty_ascii:
  "(\<forall>c \<in> set s. (of_char c :: nat) < 128) \<Longrightarrow>
     trim_is_empty s \<longleftrightarrow> (\<forall>c \<in> set s. white_space1 c)"
  by (induction s rule: trim_is_empty.induct)
    (auto simp: white_space2_def white_space3_def)

lemma eq_ignore_ascii_case_refl [simp]: "eq_ignore_ascii_case s s"
  by (simp add: eq_ignore_ascii_case_def)

lemma join_empty_iff:
  "\<forall>s \<in> set ss. s \<noteq> [] \<Longrightarrow> join sep ss = [] \<longleftrightarrow> ss = []"
  by (induction sep ss rule: join.induct) auto

text \<open>A text in single quotes, as it stands in a CEL expression.\<close>

definition quoted :: "string \<Rightarrow> string" where
  "quoted s = CHR 0x27 # s @ [CHR 0x27]"

end
