(* ===== verification/Errors.thy ===== *)
theory Errors
  imports Rust_Strings
begin

text \<open>
  \<open>src/error.rs\<close>: the error type every fallible operation of the operator returns, with
  its \<open>Display\<close> strings. The payloads of \<open>KubeError\<close> and \<open>SerdeError\<close> are the
  errors of the kube and serde_json crates, held as the text those crates print. A
  \<open>Result<T>\<close> is \<^typ>\<open>'e + 'a\<close> with \<^term>\<open>Inl\<close> for \<open>Err\<close>.
\<close>

datatype Error =
    KubeError string
  | SerdeError string
  | CelCompilationError string
  | CelEvaluationError string
  | ValidationError string
  | Custom string

type_synonym 'a Result = "Error + 'a"

fun error_to_string :: "Error \<Rightarrow> string" where
  "error_to_string (KubeError e) = ''Kubernetes error: '' @ e"
| "error_to_string (SerdeError e) = ''Serialization error: '' @ e"
| "error_to_string (CelCompilationError e) = ''CEL compilation error: '' @ e"
| "error_to_string (CelEvaluationError e) = ''CEL evaluation error: '' @ e"
| "error_to_string (ValidationError e) = ''CRD validation error: '' @ e"
| "error_to_string (Custom e) = ''Custom error: '' @ e"

text \<open>The text names the variant: different errors never print the same.\<close>

lemma error_to_string_inject: "error_to_string a = error_to_string b \<longleftrightarrow> a = b"
  by (cases a; cases b) auto

end
