(* ===== verification/Kube_Objects.thy ===== *)
theory Kube_Objects
  imports Errors
begin

text \<open>
  What the operator sees of the Kubernetes objects of the k8s-openapi and kube crates. A
  \<open>Pod\<close> is the record of what the accessors the source calls return for it:
  \<open>name_any()\<close>, \<open>namespace()\<close>, \<open>labels()\<close>, \<open>metadata.annotations\<close>,
  \<open>metadata.creation_timestamp\<close>; \<open>spec\<close>, \<open>status\<close> and the whole \<open>metadata\<close>
  are only handed to the CEL engine, so they are held as JSON documents. \<open>Action\<close> is what a
  reconciler tells the controller runtime.
\<close>

datatype json =
    JNull
  | JBool bool
  | JNumber int
  | JString string
  | JArray "json list"
  | JObject "(string \<times> json) list"

record Pod =
  pod_name_any :: string
  pod_namespace :: "string option"
  pod_labels :: "string \<rightharpoonup> string"
  pod_annotations :: "(string \<rightharpoonup> string) option"
  pod_creation_timestamp :: "instant option"
  pod_metadata :: json
  pod_spec :: "json option"
  pod_status :: "json option"

text \<open>\<open>Pod::default()\<close>.\<close>

definition default_pod :: Pod where
  "default_pod = \<lparr>pod_name_any = [], pod_namespace = None, pod_labels = Map.empty,
     pod_annotations = None, pod_creation_timestamp = None, pod_metadata = JObject [],
     pod_spec = None, pod_status = None\<rparr>"

text \<open>\<open>Option::unwrap_or_default\<close> on strings.\<close>

definition unwrap_or_default :: "string option \<Rightarrow> string" where
  "unwrap_or_default x = (case x of None \<Rightarrow> [] | Some s \<Rightarrow> s)"

text \<open>
  \<open>Action::requeue(Duration::from_secs(s))\<close> and \<open>Action::await_change()\<close>. Every
  duration in the source is a whole number of seconds.
\<close>

datatype Action = Requeue u64 | AwaitChange

lemma unwrap_or_default_simps [simp]:
  "unwrap_or_default None = []"
  "unwrap_or_default (Some s) = s"
  by (simp_all add: unwrap_or_default_def)

end
