(* ===== verification/Crd.thy ===== *)
theory Crd
  imports Kube_Objects
begin

text \<open>
  \<open>src/crd.rs\<close>: the \<open>DepodPolicy\<close> resource with its spec and status, the
  constructors of the status conditions, and the validation of a spec. A \<open>BTreeMap\<close> that is
  iterated is the list of its entries in key order, a \<open>BTreeSet\<close> is a set. Fields whose name
  is a keyword or is used by two structs carry the name of their struct as a prefix.
\<close>

section \<open>The resource\<close>

datatype ConditionType = CEL | Builtin

datatype ActionType = Delete | Evict

record NamespaceSelector =
  match_names :: "string list"

record PodSelector =
  match_labels :: "(string \<times> string) list"

record Match =
  namespace_selector :: "NamespaceSelector option"
  pod_selector :: "PodSelector option"

record Trigger =
  annotation_key :: string
  annotation_values :: "string set"

record When =
  condition_type :: ConditionType
  expression :: "string option"
  ttl_seconds :: "i64 option"

record Then =
  action_type :: ActionType
  grace_period_seconds :: "i64 option"
  dry_run :: bool

record Limits =
  max_deletes_per_minute :: "i32 option"
  protect_system_namespaces :: bool
  excluded_namespaces :: "string list option"

record DepodPolicySpec =
  spec_match :: Match
  spec_trigger :: Trigger
  spec_when :: When
  spec_then :: Then
  spec_limits :: Limits

record PolicyCondition =
  cond_condition_type :: string
  cond_status :: string
  cond_last_transition_time :: "string option"
  cond_reason :: "string option"
  cond_message :: "string option"

record DepodPolicyStatus =
  conditions :: "PolicyCondition list"
  last_observed_time :: "string option"
  pods_evaluated :: u64
  pods_matched :: u64
  pods_deleted :: u64
  evaluation_errors :: u64

text \<open>
  The custom resource that the \<open>CustomResource\<close> derive wraps around the spec; of its
  metadata the source reads \<open>name_any()\<close> and \<open>namespace()\<close>.
\<close>

record DepodPolicy =
  policy_name_any :: string
  policy_namespace :: "string option"
  policy_spec :: DepodPolicySpec
  policy_status :: "DepodPolicyStatus option"

definition default_status :: DepodPolicyStatus where
  "default_status = \<lparr>conditions = [], last_observed_time = None, pods_evaluated = 0,
     pods_matched = 0, pods_deleted = 0, evaluation_errors = 0\<rparr>"

section \<open>Status conditions\<close>

text \<open>
  The transition time is the text of the current instant, which chrono formats; it is an
  argument here.
\<close>

definition invalid_cel :: "string \<Rightarrow> string \<Rightarrow> PolicyCondition" where
  "invalid_cel now_text message =
     \<lparr>cond_condition_type = ''InvalidCEL'', cond_status = ''True'',
      cond_last_transition_time = Some now_text,
      cond_reason = Some ''CELCompilationError'', cond_message = Some message\<rparr>"

definition invalid_spec :: "string \<Rightarrow> string \<Rightarrow> PolicyCondition" where
  "invalid_spec now_text message =
     \<lparr>cond_condition_type = ''InvalidSpec'', cond_status = ''True'',
      cond_last_transition_time = Some now_text,
      cond_reason = Some ''SpecValidationError'', cond_message = Some message\<rparr>"

definition ready :: "string \<Rightarrow> PolicyCondition" where
  "ready now_text =
     \<lparr>cond_condition_type = ''Ready'', cond_status = ''True'',
      cond_last_transition_time = Some now_text,
      cond_reason = Some ''PolicyValidated'',
      cond_message = Some ''Policy spec is valid and ready for evaluation''\<rparr>"

lemmas condition_defs = invalid_cel_def invalid_spec_def ready_def

section \<open>Validation\<close>

definition validate_when :: "When \<Rightarrow> unit Result" where
  "validate_when w =
     (case condition_type w of
        CEL \<Rightarrow>
          if (case expression w of None \<Rightarrow> True | Some s \<Rightarrow> trim_is_empty s)
          then Inl (ValidationError
                 ''when.expression required and cannot be empty for CEL type'')
          else if ttl_seconds w \<noteq> None
          then Inl (ValidationError
                 ''when.ttlSeconds must not be set for CEL type (use expression instead)'')
          else Inr ()
      | Builtin \<Rightarrow>
          if ttl_seconds w = None
          then Inl (ValidationError ''when.ttlSeconds required for Builtin type'')
          else if (case ttl_seconds w of None \<Rightarrow> False | Some ttl \<Rightarrow> sint ttl \<le> 0)
          then Inl (ValidationError ''when.ttlSeconds must be a positive integer'')
          else if expression w \<noteq> None
          then Inl (ValidationError
                 ''when.expression must not be set for Builtin type (use ttlSeconds instead)'')
          else Inr ())"

definition validate_spec :: "DepodPolicySpec \<Rightarrow> unit Result" where
  "validate_spec s =
     (if annotation_key (spec_trigger s) = []
      then Inl (ValidationError ''trigger.annotation_key cannot be empty'')
      else if annotation_values (spec_trigger s) = {}
      then Inl (ValidationError ''trigger.annotation_values cannot be empty'')
      else (case validate_when (spec_when s) of
              Inl e \<Rightarrow> Inl e
            | Inr _ \<Rightarrow>
                (case grace_period_seconds (spec_then s) of
                   Some grace \<Rightarrow>
                     if sint grace < 0
                     then Inl (ValidationError ''then.gracePeriodSeconds must be non-negative'')
                     else Inr ()
                 | None \<Rightarrow> Inr ())))"

section \<open>What validation guarantees\<close>

text \<open>The condition types a spec may take, stated without the code's control flow.\<close>

definition well_formed_when :: "When \<Rightarrow> bool" where
  "well_formed_when w \<longleftrightarrow>
     (case condition_type w of
        CEL \<Rightarrow> ttl_seconds w = None \<and> (\<exists>e. expression w = Some e \<and> \<not> trim_is_empty e)
      | Builtin \<Rightarrow> expression w = None \<and> (\<exists>t. ttl_seconds w = Some t \<and> 0 < sint t))"

lemma validate_when_Inr: "validate_when w = Inr () \<longleftrightarrow> well_formed_when w"
  by (auto simp: validate_when_def well_formed_when_def
      split: ConditionType.splits option.splits if_splits)

lemma validate_when_Inl:
  "validate_when w = Inl e \<Longrightarrow> \<exists>m. e = ValidationError m"
  by (auto simp: validate_when_def split: ConditionType.splits option.splits if_splits)

definition well_formed_spec :: "DepodPolicySpec \<Rightarrow> bool" where
  "well_formed_spec s \<longleftrightarrow>
     annotation_key (spec_trigger s) \<noteq> [] \<and> annotation_values (spec_trigger s) \<noteq> {}
   \<and> well_formed_when (spec_when s)
   \<and> (\<forall>g. grace_period_seconds (spec_then s) = Some g \<longrightarrow> 0 \<le> sint g)"

lemma validate_spec_Inr: "validate_spec s = Inr () \<longleftrightarrow> well_formed_spec s"
  using validate_when_Inr [of "spec_when s"] validate_when_Inl [of "spec_when s"]
  by (auto simp: validate_spec_def well_formed_spec_def
      split: sum.splits option.splits if_splits)

lemma validate_spec_Inl:
  "validate_spec s = Inl e \<Longrightarrow> \<exists>m. e = ValidationError m"
  using validate_when_Inl [of "spec_when s"]
  by (auto simp: validate_spec_def split: sum.splits option.splits if_splits)

lemma validate_spec_cases:
  obtains "validate_spec s = Inr ()" | m where "validate_spec s = Inl (ValidationError m)"
  using validate_spec_Inl [of s] by (cases "validate_spec s") auto

text \<open>
  The rules of the validation with the message of each, in the order the source checks them;
  a rule about one condition type says nothing of the other.
\<close>

definition spec_rules :: "((DepodPolicySpec \<Rightarrow> bool) \<times> string) list" where
  "spec_rules =
     [(\<lambda>s. annotation_key (spec_trigger s) \<noteq> [], ''trigger.annotation_key cannot be empty''),
      (\<lambda>s. annotation_values (spec_trigger s) \<noteq> {}, ''trigger.annotation_values cannot be empty''),
      (\<lambda>s. condition_type (spec_when s) = CEL \<longrightarrow>
             expression (spec_when s) \<noteq> None
             \<and> (\<forall>e. expression (spec_when s) = Some e \<longrightarrow> \<not> trim_is_empty e),
       ''when.expression required and cannot be empty for CEL type''),
      (\<lambda>s. condition_type (spec_when s) = CEL \<longrightarrow> ttl_seconds (spec_when s) = None,
       ''when.ttlSeconds must not be set for CEL type (use expression instead)''),
      (\<lambda>s. condition_type (spec_when s) = Builtin \<longrightarrow> ttl_seconds (spec_when s) \<noteq> None,
       ''when.ttlSeconds required for Builtin type''),
      (\<lambda>s. condition_type (spec_when s) = Builtin \<longrightarrow>
             (\<forall>t. ttl_seconds (spec_when s) = Some t \<longrightarrow> 0 < sint t),
       ''when.ttlSeconds must be a positive integer''),
      (\<lambda>s. condition_type (spec_when s) = Builtin \<longrightarrow> expression (spec_when s) = None,
       ''when.expression must not be set for Builtin type (use ttlSeconds instead)''),
      (\<lambda>s. \<forall>g. grace_period_seconds (spec_then s) = Some g \<longrightarrow> 0 \<le> sint g,
       ''then.gracePeriodSeconds must be non-negative'')]"

definition first_broken_rule :: "DepodPolicySpec \<Rightarrow> string option" where
  "first_broken_rule s = map_option snd (find (\<lambda>(holds, _). \<not> holds s) spec_rules)"

text \<open>
  C22. Validation of a spec succeeds exactly when all eight rules hold, and otherwise returns
  the message of the first broken rule in the order of the source, as a validation error.
\<close>

theorem validate_spec_first_broken_rule:
  "validate_spec s =
     (case first_broken_rule s of
        None \<Rightarrow> Inr ()
      | Some message \<Rightarrow> Inl (ValidationError message))"
  by (cases "condition_type (spec_when s)"; cases "expression (spec_when s)";
      cases "ttl_seconds (spec_when s)"; cases "grace_period_seconds (spec_then s)")
    (simp_all add: first_broken_rule_def spec_rules_def validate_spec_def validate_when_def)

text \<open>
  A policy of each condition type in its valid form, used by the witnesses of the other
  theories.
\<close>

definition no_match :: Match where
  "no_match = \<lparr>namespace_selector = None, pod_selector = None\<rparr>"

definition ttl_policy :: "string \<Rightarrow> i64 \<Rightarrow> DepodPolicy" where
  "ttl_policy name ttl =
     \<lparr>policy_name_any = name, policy_namespace = Some ''default'',
      policy_spec =
        \<lparr>spec_match = no_match,
         spec_trigger = \<lparr>annotation_key = ''kube-depod/policy'', annotation_values = {''on''}\<rparr>,
         spec_when = \<lparr>condition_type = Builtin, expression = None, ttl_seconds = Some ttl\<rparr>,
         spec_then = \<lparr>action_type = Delete, grace_period_seconds = Some 30, dry_run = False\<rparr>,
         spec_limits = \<lparr>max_deletes_per_minute = None, protect_system_namespaces = True,
                        excluded_namespaces = None\<rparr>\<rparr>,
      policy_status = None\<rparr>"

definition cel_policy :: "string \<Rightarrow> string \<Rightarrow> DepodPolicy" where
  "cel_policy name expr =
     \<lparr>policy_name_any = name, policy_namespace = Some ''default'',
      policy_spec =
        \<lparr>spec_match = no_match,
         spec_trigger = \<lparr>annotation_key = ''kube-depod/policy'', annotation_values = {''on''}\<rparr>,
         spec_when = \<lparr>condition_type = CEL, expression = Some expr, ttl_seconds = None\<rparr>,
         spec_then = \<lparr>action_type = Evict, grace_period_seconds = None, dry_run = False\<rparr>,
         spec_limits = \<lparr>max_deletes_per_minute = Some 5, protect_system_namespaces = True,
                        excluded_namespaces = None\<rparr>\<rparr>,
      policy_status = None\<rparr>"

lemmas sample_policy_defs = ttl_policy_def cel_policy_def no_match_def

end
