(* ===== verification/Cel_Engine.thy ===== *)
theory Cel_Engine
  imports Kube_Objects
begin

text \<open>
  \<open>src/engine/cel.rs\<close>: the evaluator with its cache of compiled programs and the context
  of variables a pod gives an expression. The \<open>cel\<close> and \<open>serde_json\<close> crates are a
  parameter, the record \<open>cel_lib\<close>. What the reconcilers need from the evaluator is the
  locale \<open>expression_engine\<close>: an expression's verdict does not depend on the history of the
  cache, and an expression that was validated compiles from then on.
\<close>

section \<open>The CEL library\<close>

text \<open>
  The values the source distinguishes; every other value is one of the rest. A \<open>Float\<close> is
  its IEEE 754 bit pattern.
\<close>

datatype cel_value = CelBool bool | CelInt i64 | CelUInt u64 | CelFloat u64 | CelOther json

type_synonym cel_context = "string \<rightharpoonup> cel_value"

text \<open>
  \<open>Program::compile\<close>, \<open>Program::execute\<close>, \<open>serde_json::to_value\<close> on a pod, its
  metadata, a pod spec and a pod status, and \<open>cel::to_value\<close>. Errors are their texts.
\<close>

record 'p cel_lib =
  compile :: "string \<Rightarrow> string + 'p"
  execute :: "'p \<Rightarrow> cel_context \<Rightarrow> string + cel_value"
  pod_to_json :: "Pod \<Rightarrow> string + json"
  metadata_to_json :: "json \<Rightarrow> string + json"
  spec_to_json :: "json \<Rightarrow> string + json"
  status_to_json :: "json \<Rightarrow> string + json"
  to_cel_value :: "json \<Rightarrow> string + cel_value"

section \<open>The evaluation context\<close>

text \<open>
  \<open>if let Ok(j) = json_to_value(..) { if let Ok(v) = cel::to_value(&j) { .. } }\<close>: a
  variable is added when both conversions succeed, and left out otherwise.
\<close>

definition add_variable :: "string \<Rightarrow> cel_value \<Rightarrow> cel_context \<Rightarrow> cel_context" where
  "add_variable name v ctx = ctx(name \<mapsto> v)"

definition add_json_variable ::
  "'p cel_lib \<Rightarrow> string \<Rightarrow> string + json \<Rightarrow> cel_context \<Rightarrow> cel_context" where
  "add_json_variable lib name j ctx =
     (case j of
        Inl _ \<Rightarrow> ctx
      | Inr doc \<Rightarrow> (case to_cel_value lib doc of Inl _ \<Rightarrow> ctx | Inr v \<Rightarrow> add_variable name v ctx))"

definition cel_age :: "instant \<Rightarrow> instant \<Rightarrow> i64" where
  "cel_age now created =
     (let age = timestamp now - timestamp created in if sint age < 0 then 0 else age)"

definition build_evaluation_context ::
  "'p cel_lib \<Rightarrow> instant \<Rightarrow> Pod \<Rightarrow> cel_context Result" where
  "build_evaluation_context lib now pod =
     (case pod_to_json lib pod of
        Inl e \<Rightarrow> Inl (SerdeError e)
      | Inr pod_json \<Rightarrow>
          (case to_cel_value lib pod_json of
             Inl e \<Rightarrow> Inl (CelEvaluationError e)
           | Inr pod_value \<Rightarrow>
               (let c1 = add_variable ''pod'' pod_value Map.empty;
                    c2 = add_json_variable lib ''metadata'' (metadata_to_json lib (pod_metadata pod)) c1;
                    c3 = (case pod_spec pod of
                            Some spec \<Rightarrow> add_json_variable lib ''spec'' (spec_to_json lib spec) c2
                          | None \<Rightarrow> c2);
                    c4 = (case pod_status pod of
                            Some status \<Rightarrow>
                              add_json_variable lib ''status'' (status_to_json lib status) c3
                          | None \<Rightarrow> add_json_variable lib ''status'' (Inr (JObject [])) c3);
                    c5 = add_variable ''now'' (CelInt (timestamp now)) c4
                in Inr (case pod_creation_timestamp pod of
                          Some created \<Rightarrow> add_variable ''age'' (CelInt (cel_age now created)) c5
                        | None \<Rightarrow> c5))))"

section \<open>Evaluation with the program cache\<close>

text \<open>\<open>f != 0.0\<close> on the bit pattern: both zeros have all bits but the sign clear.\<close>

definition float_nonzero :: "u64 \<Rightarrow> bool" where
  "float_nonzero f \<longleftrightarrow> f \<noteq> 0 \<and> f \<noteq> 0x8000000000000000"

fun truth_value :: "cel_value \<Rightarrow> bool Result" where
  "truth_value (CelBool b) = Inr b"
| "truth_value (CelInt i) = Inr (i \<noteq> 0)"
| "truth_value (CelUInt u) = Inr (u \<noteq> 0)"
| "truth_value (CelFloat f) = Inr (float_nonzero f)"
| "truth_value (CelOther _) = Inl (CelEvaluationError ''Expression did not evaluate to boolean'')"

type_synonym 'p cache = "string \<rightharpoonup> 'p"

definition get_or_compile :: "'p cel_lib \<Rightarrow> string \<Rightarrow> 'p cache \<Rightarrow> 'p Result \<times> 'p cache" where
  "get_or_compile lib expr cache =
     (case cache expr of
        Some prog \<Rightarrow> (Inr prog, cache)
      | None \<Rightarrow>
          (case compile lib expr of
             Inr prog \<Rightarrow> (Inr prog, cache(expr \<mapsto> prog))
           | Inl e \<Rightarrow> (Inl (CelCompilationError e), cache)))"

definition run_program :: "'p cel_lib \<Rightarrow> 'p \<Rightarrow> instant \<Rightarrow> Pod \<Rightarrow> bool Result" where
  "run_program lib prog now pod =
     (case build_evaluation_context lib now pod of
        Inl e \<Rightarrow> Inl e
      | Inr ctx \<Rightarrow>
          (case execute lib prog ctx of
             Inr v \<Rightarrow> truth_value v
           | Inl e \<Rightarrow> Inl (CelEvaluationError e)))"

definition evaluate ::
  "'p cel_lib \<Rightarrow> instant \<Rightarrow> string \<Rightarrow> Pod \<Rightarrow> 'p cache \<Rightarrow> bool Result \<times> 'p cache" where
  "evaluate lib now expr pod cache =
     (case get_or_compile lib expr cache of
        (Inl e, cache') \<Rightarrow> (Inl e, cache')
      | (Inr prog, cache') \<Rightarrow> (run_program lib prog now pod, cache'))"

definition validate_expr :: "'p cel_lib \<Rightarrow> string \<Rightarrow> 'p cache \<Rightarrow> unit Result \<times> 'p cache" where
  "validate_expr lib expr cache =
     (if cache expr \<noteq> None then (Inr (), cache)
      else (case compile lib expr of
              Inr prog \<Rightarrow> (Inr (), cache(expr \<mapsto> prog))
            | Inl e \<Rightarrow> (Inl (CelCompilationError e), cache)))"

definition new_cache :: "'p cache" where
  "new_cache = Map.empty"

definition clear_cache :: "'p cache \<Rightarrow> 'p cache" where
  "clear_cache cache = Map.empty"

definition cache_size :: "'p cache \<Rightarrow> nat" where
  "cache_size cache = card (dom cache)"

section \<open>The contract of an expression engine\<close>

text \<open>
  An engine with some hidden state: \<open>eval\<close> gives an expression's verdict on an input,
  \<open>check\<close> validates an expression, \<open>reset\<close> forgets.
\<close>

datatype 'i engine_op = EvalOp 'i string | CheckOp string | ClearOp

fun run_engine ::
  "('i \<Rightarrow> string \<Rightarrow> 's \<Rightarrow> bool Result \<times> 's) \<Rightarrow> (string \<Rightarrow> 's \<Rightarrow> unit Result \<times> 's) \<Rightarrow> ('s \<Rightarrow> 's)
     \<Rightarrow> 'i engine_op list \<Rightarrow> 's \<Rightarrow> 's" where
  "run_engine eval check reset [] s = s"
| "run_engine eval check reset (EvalOp i e # ops) s =
     run_engine eval check reset ops (snd (eval i e s))"
| "run_engine eval check reset (CheckOp e # ops) s =
     run_engine eval check reset ops (snd (check e s))"
| "run_engine eval check reset (ClearOp # ops) s = run_engine eval check reset ops (reset s)"

locale expression_engine =
  fixes eval :: "'i \<Rightarrow> string \<Rightarrow> 's \<Rightarrow> bool Result \<times> 's"
    and check :: "string \<Rightarrow> 's \<Rightarrow> unit Result \<times> 's"
    and reset :: "'s \<Rightarrow> 's"
    and verdict :: "'i \<Rightarrow> string \<Rightarrow> bool Result"
    and compiles :: "string \<Rightarrow> bool"
    and coherent :: "'s \<Rightarrow> bool"
  assumes coherent_eval: "coherent s \<Longrightarrow> coherent (snd (eval i e s))"
    and coherent_check: "coherent s \<Longrightarrow> coherent (snd (check e s))"
    and coherent_reset: "coherent (reset s)"
    and eval_verdict: "coherent s \<Longrightarrow> fst (eval i e s) = verdict i e"
    and check_compiles: "coherent s \<Longrightarrow> fst (check e s) = Inr () \<longleftrightarrow> compiles e"
    and verdict_compiles: "compiles e \<Longrightarrow> verdict i e \<noteq> Inl (CelCompilationError m)"
begin

lemma coherent_run: "coherent s \<Longrightarrow> coherent (run_engine eval check reset ops s)"
proof (induction ops arbitrary: s)
  case (Cons op ops)
  then show ?case
    by (cases op) (simp_all add: coherent_eval coherent_check coherent_reset)
qed simp

lemma eval_after_run:
  "coherent s \<Longrightarrow> fst (eval i e (run_engine eval check reset ops s)) = verdict i e"
  by (rule eval_verdict [OF coherent_run])

lemma validated_compiles_later:
  assumes "coherent s" and "fst (check e s) = Inr ()"
  shows "fst (eval i e (run_engine eval check reset ops (snd (check e s))))
           \<noteq> Inl (CelCompilationError m)"
  using assms eval_after_run [OF coherent_check] check_compiles verdict_compiles by metis

end

section \<open>The evaluator fulfils the contract\<close>

definition cache_coherent :: "'p cel_lib \<Rightarrow> 'p cache \<Rightarrow> bool" where
  "cache_coherent lib cache \<longleftrightarrow> (\<forall>expr prog. cache expr = Some prog \<longrightarrow> compile lib expr = Inr prog)"

text \<open>Evaluation without a cache.\<close>

definition uncached_evaluate :: "'p cel_lib \<Rightarrow> instant \<Rightarrow> string \<Rightarrow> Pod \<Rightarrow> bool Result" where
  "uncached_evaluate lib now expr pod =
     (case compile lib expr of
        Inl e \<Rightarrow> Inl (CelCompilationError e)
      | Inr prog \<Rightarrow> run_program lib prog now pod)"

lemma cache_coherent_new [simp]: "cache_coherent lib new_cache"
  by (simp add: cache_coherent_def new_cache_def)

lemma evaluate_cache:
  assumes "cache_coherent lib cache"
  shows "snd (evaluate lib now expr pod cache)
           = (case compile lib expr of Inl _ \<Rightarrow> cache | Inr prog \<Rightarrow> cache(expr \<mapsto> prog))"
  using assms
  by (auto simp: evaluate_def get_or_compile_def cache_coherent_def fun_upd_idem_iff
      split: option.splits sum.splits)

lemma validate_cache:
  assumes "cache_coherent lib cache"
  shows "snd (validate_expr lib expr cache)
           = (case compile lib expr of Inl _ \<Rightarrow> cache | Inr prog \<Rightarrow> cache(expr \<mapsto> prog))"
  using assms
  by (cases "cache expr")
    (auto simp: validate_expr_def cache_coherent_def fun_upd_idem_iff split: sum.splits)

lemma cache_coherent_update:
  "cache_coherent lib cache \<Longrightarrow>
     cache_coherent lib (case compile lib expr of Inl _ \<Rightarrow> cache | Inr prog \<Rightarrow> cache(expr \<mapsto> prog))"
  by (auto simp: cache_coherent_def split: sum.split)

lemma evaluate_uncached:
  "cache_coherent lib cache \<Longrightarrow>
     fst (evaluate lib now expr pod cache) = uncached_evaluate lib now expr pod"
  by (auto simp: evaluate_def get_or_compile_def uncached_evaluate_def cache_coherent_def
      split: option.splits sum.splits)

lemma validate_compile:
  "cache_coherent lib cache \<Longrightarrow>
     fst (validate_expr lib expr cache)
       = (case compile lib expr of Inl e \<Rightarrow> Inl (CelCompilationError e) | Inr _ \<Rightarrow> Inr ())"
  by (cases "cache expr") (auto simp: validate_expr_def cache_coherent_def split: sum.split)

lemma build_context_not_compilation:
  "build_evaluation_context lib now pod \<noteq> Inl (CelCompilationError m)"
  by (auto simp: build_evaluation_context_def Let_def split: sum.split)

lemma run_program_not_compilation: "run_program lib prog now pod \<noteq> Inl (CelCompilationError m)"
proof -
  have "truth_value v \<noteq> Inl (CelCompilationError m)" for v by (cases v) simp_all
  then show ?thesis
    using build_context_not_compilation by (fastforce simp: run_program_def split: sum.splits)
qed

interpretation evaluator_engine:
  expression_engine "\<lambda>(now, pod) expr. evaluate lib now expr pod" "validate_expr lib" clear_cache
    "\<lambda>(now, pod) expr. uncached_evaluate lib now expr pod" "\<lambda>expr. \<exists>prog. compile lib expr = Inr prog"
    "cache_coherent lib"
  for lib :: "'p cel_lib"
proof
  fix cache :: "'p cache" and i :: "instant \<times> Pod" and expr m
  obtain now pod where i: "i = (now, pod)" by (cases i)
  assume ok: "cache_coherent lib cache"
  show "cache_coherent lib (snd ((case i of (now, pod) \<Rightarrow> \<lambda>expr. evaluate lib now expr pod) expr cache))"
    using ok by (simp add: i evaluate_cache cache_coherent_update)
  show "cache_coherent lib (snd (validate_expr lib expr cache))"
    using ok by (simp add: validate_cache cache_coherent_update)
  show "fst ((case i of (now, pod) \<Rightarrow> \<lambda>expr. evaluate lib now expr pod) expr cache)
      = (case i of (now, pod) \<Rightarrow> \<lambda>expr. uncached_evaluate lib now expr pod) expr"
    using ok by (simp add: i evaluate_uncached)
  show "fst (validate_expr lib expr cache) = Inr () \<longleftrightarrow> (\<exists>prog. compile lib expr = Inr prog)"
    using ok by (auto simp: validate_compile split: sum.split)
next
  fix i :: "instant \<times> Pod" and expr m
  assume "\<exists>prog. compile lib expr = Inr prog"
  then show "(case i of (now, pod) \<Rightarrow> \<lambda>expr. uncached_evaluate lib now expr pod) expr
      \<noteq> Inl (CelCompilationError m)"
    by (auto simp: uncached_evaluate_def run_program_not_compilation split: prod.split)
qed (simp add: clear_cache_def cache_coherent_def)

section \<open>Properties of the evaluator\<close>

abbreviation run_evaluator :: "'p cel_lib \<Rightarrow> (instant \<times> Pod) engine_op list \<Rightarrow> 'p cache \<Rightarrow> 'p cache" where
  "run_evaluator lib \<equiv>
     run_engine (\<lambda>(now, pod) expr. evaluate lib now expr pod) (validate_expr lib) clear_cache"

lemma cache_coherent_run: "cache_coherent lib (run_evaluator lib ops new_cache)"
  by (rule evaluator_engine.coherent_run) simp

text \<open>
  The program cache is invisible: after any history of evaluations, validations and
  clearings, evaluating an expression on a pod gives what compiling it afresh and running it
  gives.
\<close>

theorem evaluate_ignores_cache_history:
  "fst (evaluate lib now expr pod (run_evaluator lib ops new_cache))
     = uncached_evaluate lib now expr pod"
  by (rule evaluate_uncached [OF cache_coherent_run])

text \<open>The expressions used since the last clearing.\<close>

fun used_expressions :: "string set \<Rightarrow> 'i engine_op list \<Rightarrow> string set" where
  "used_expressions E [] = E"
| "used_expressions E (EvalOp i e # ops) = used_expressions (insert e E) ops"
| "used_expressions E (CheckOp e # ops) = used_expressions (insert e E) ops"
| "used_expressions E (ClearOp # ops) = used_expressions {} ops"

definition compiling :: "'p cel_lib \<Rightarrow> string set \<Rightarrow> string set" where
  "compiling lib E = {e \<in> E. \<exists>prog. compile lib e = Inr prog}"

lemma dom_run_evaluator:
  assumes "cache_coherent lib cache" and "dom cache = compiling lib E"
  shows "dom (run_evaluator lib ops cache) = compiling lib (used_expressions E ops)"
  using assms
proof (induction ops arbitrary: cache E)
  case (Cons op ops)
  have upd: "dom (case compile lib e of Inl _ \<Rightarrow> cache | Inr prog \<Rightarrow> cache(e \<mapsto> prog))
      = compiling lib (insert e E)" for e
    using Cons.prems(2) by (auto simp: compiling_def split: sum.split)
  show ?case
  proof (cases op)
    case (EvalOp i e)
    then show ?thesis
      using Cons.IH [of "snd (evaluate lib (fst i) e (snd i) cache)" "insert e E"] Cons.prems upd [of e]
      by (simp add: evaluate_cache cache_coherent_update split_beta)
  next
    case (CheckOp e)
    then show ?thesis
      using Cons.IH [of "snd (validate_expr lib e cache)" "insert e E"] Cons.prems upd [of e]
      by (simp add: validate_cache cache_coherent_update)
  next
    case ClearOp
    then show ?thesis
      using Cons.IH [of "clear_cache cache" "{}"]
      by (simp add: clear_cache_def cache_coherent_def compiling_def)
  qed
qed simp

text \<open>
  The cache holds exactly the expressions that compile among those evaluated or
  validated since it was last cleared: a failure is never cached, a success always is, and
  nothing else is evicted. Its size is the number of those expressions.
\<close>

theorem cache_holds_compiling_expressions:
  "dom (run_evaluator lib ops new_cache) = compiling lib (used_expressions {} ops)
   \<and> cache_size (run_evaluator lib ops new_cache) = card (compiling lib (used_expressions {} ops))"
  using dom_run_evaluator [of lib new_cache "{}" ops]
  by (simp add: cache_size_def new_cache_def cache_coherent_def compiling_def)

text \<open>
  An expression that validation accepted never fails with a compilation error
  afterwards, whatever else is evaluated, validated or cleared in between.
\<close>

theorem validated_expression_compiles:
  assumes "fst (validate_expr lib expr (run_evaluator lib before new_cache)) = Inr ()"
  shows "fst (evaluate lib now expr pod
           (run_evaluator lib after (snd (validate_expr lib expr (run_evaluator lib before new_cache)))))
         \<noteq> Inl (CelCompilationError m)"
  using evaluator_engine.validated_compiles_later
    [OF cache_coherent_run assms, of "(now, pod)" after m] by simp

text \<open>A small library for the witnesses: expressions are the names of variables.\<close>

definition var_lib :: "string cel_lib" where
  "var_lib =
     \<lparr>compile = (\<lambda>e. if e = [] then Inl ''empty'' else Inr e),
      execute = (\<lambda>p ctx. case ctx p of None \<Rightarrow> Inl ''undeclared reference'' | Some v \<Rightarrow> Inr v),
      pod_to_json = (\<lambda>pod. Inr (JObject [])), metadata_to_json = Inr, spec_to_json = Inr,
      status_to_json = Inr, to_cel_value = (\<lambda>j. Inr (CelOther j))\<rparr>"

definition bare_pod :: "string \<Rightarrow> string \<Rightarrow> instant \<Rightarrow> Pod" where
  "bare_pod ns name created =
     \<lparr>pod_name_any = name, pod_namespace = Some ns, pod_labels = Map.empty,
      pod_annotations = Some [''kube-depod/policy'' \<mapsto> ''on''],
      pod_creation_timestamp = Some created, pod_metadata = JObject [],
      pod_spec = None, pod_status = None\<rparr>"

theorem validated_expression_compiles_witness:
  "fst (evaluate var_lib 0 ''age'' (bare_pod ''d'' ''p'' 0)
     (run_evaluator var_lib [ClearOp] (snd (validate_expr var_lib ''age''
        (run_evaluator var_lib [] new_cache))))) \<noteq> Inl (CelCompilationError ''empty'')"
  by (rule validated_expression_compiles) (simp add: validate_expr_def new_cache_def var_lib_def)

lemma sint_cel_age:
  assumes "datetime_ok now" and "datetime_ok created"
  shows "sint (cel_age now created) = max 0 (now div nanos_per_sec - created div nanos_per_sec)"
proof -
  have "sint (timestamp now - timestamp created) = sint (timestamp now) - sint (timestamp created)"
    by (rule sint_minus_64)
      (use assms in \<open>auto simp: sint_timestamp datetime_ok_def\<close>)
  then show ?thesis using assms by (simp add: cel_age_def Let_def sint_timestamp)
qed

lemma add_json_variable_other [simp]:
  "k \<noteq> n \<Longrightarrow> add_json_variable lib n j ctx k = ctx k"
  by (simp add: add_json_variable_def add_variable_def split: sum.split)

lemma dom_add_json_variable: "dom (add_json_variable lib n j ctx) \<subseteq> insert n (dom ctx)"
  by (auto simp: add_json_variable_def add_variable_def split: sum.splits if_splits)

text \<open>The context before the two time variables are added.\<close>

definition object_context :: "'p cel_lib \<Rightarrow> Pod \<Rightarrow> cel_value \<Rightarrow> cel_context" where
  "object_context lib pod pod_value =
     (let c1 = [''pod'' \<mapsto> pod_value];
          c2 = add_json_variable lib ''metadata'' (metadata_to_json lib (pod_metadata pod)) c1;
          c3 = (case pod_spec pod of
                  Some spec \<Rightarrow> add_json_variable lib ''spec'' (spec_to_json lib spec) c2
                | None \<Rightarrow> c2)
      in (case pod_status pod of
            Some status \<Rightarrow> add_json_variable lib ''status'' (status_to_json lib status) c3
          | None \<Rightarrow> add_json_variable lib ''status'' (Inr (JObject [])) c3))"

lemma object_context_pod: "object_context lib pod v ''pod'' = Some v"
  by (simp add: object_context_def Let_def split: option.split)

lemma dom_add_json_variable_le:
  "n \<in> D \<Longrightarrow> dom ctx \<subseteq> D \<Longrightarrow> dom (add_json_variable lib n j ctx) \<subseteq> D"
  using dom_add_json_variable [of lib n j ctx] by blast

lemma dom_object_context:
  "dom (object_context lib pod v) \<subseteq> {''pod'', ''metadata'', ''spec'', ''status''}"
  (is "_ \<subseteq> ?D")
proof -
  have base: "dom (add_json_variable lib ''metadata'' j [''pod'' \<mapsto> v]) \<subseteq> ?D" for j
    by (rule dom_add_json_variable_le) auto
  have "dom (add_json_variable lib ''spec'' j' (add_json_variable lib ''metadata'' j [''pod'' \<mapsto> v]))
      \<subseteq> ?D" for j j'
    by (rule dom_add_json_variable_le) (simp_all only: base insert_iff simp_thms)
  note step = this base
  have status: "dom (add_json_variable lib ''status'' j ctx) \<subseteq> ?D" if "dom ctx \<subseteq> ?D" for j ctx
    by (rule dom_add_json_variable_le [OF _ that]) simp
  show ?thesis
    by (cases "pod_spec pod"; cases "pod_status pod")
      (simp_all only: object_context_def Let_def option.case status step)
qed

lemma object_context_status:
  "pod_status pod = None \<Longrightarrow> to_cel_value lib (JObject []) = Inr w \<Longrightarrow>
     object_context lib pod v ''status'' = Some w"
  by (simp add: object_context_def add_json_variable_def add_variable_def Let_def)

lemma build_evaluation_context_eq:
  "build_evaluation_context lib now pod =
     (case pod_to_json lib pod of
        Inl e \<Rightarrow> Inl (SerdeError e)
      | Inr j \<Rightarrow>
          (case to_cel_value lib j of
             Inl e \<Rightarrow> Inl (CelEvaluationError e)
           | Inr v \<Rightarrow>
               Inr (case pod_creation_timestamp pod of
                      Some c \<Rightarrow> (object_context lib pod v)
                        (''now'' \<mapsto> CelInt (timestamp now), ''age'' \<mapsto> CelInt (cel_age now c))
                    | None \<Rightarrow> (object_context lib pod v)(''now'' \<mapsto> CelInt (timestamp now)))))"
  by (simp only: build_evaluation_context_def object_context_def add_variable_def Let_def)

lemma build_evaluation_context_Inr:
  assumes "build_evaluation_context lib now pod = Inr ctx"
  obtains v where
    "ctx = (case pod_creation_timestamp pod of
              Some c \<Rightarrow> (object_context lib pod v)
                 (''now'' \<mapsto> CelInt (timestamp now), ''age'' \<mapsto> CelInt (cel_age now c))
            | None \<Rightarrow> (object_context lib pod v)(''now'' \<mapsto> CelInt (timestamp now)))"
proof -
  from assms obtain j v where "pod_to_json lib pod = Inr j" "to_cel_value lib j = Inr v"
    by (auto simp: build_evaluation_context_eq split: sum.splits)
  with assms have "Inr ctx = (Inr (case pod_creation_timestamp pod of
              Some c \<Rightarrow> (object_context lib pod v)
                 (''now'' \<mapsto> CelInt (timestamp now), ''age'' \<mapsto> CelInt (cel_age now c))
            | None \<Rightarrow> (object_context lib pod v)(''now'' \<mapsto> CelInt (timestamp now)))
           :: cel_context Result)"
    by (simp only: build_evaluation_context_eq sum.case)
  then show thesis by (intro that) (simp only: sum.inject)
qed

text \<open>
  In every context that is built, \<open>now\<close> is the whole seconds of the clock, \<open>age\<close>
  exists exactly for a pod with a creation timestamp and is the difference of the two
  timestamps, never negative; \<open>pod\<close> is there, nothing but the six documented names is, and a
  pod without a status gets an empty \<open>status\<close> whenever the library can represent one.
\<close>

theorem evaluation_context_variables:
  assumes "build_evaluation_context lib now pod = Inr ctx" and "datetime_ok now"
    and "\<forall>c. pod_creation_timestamp pod = Some c \<longrightarrow> datetime_ok c"
  shows "ctx ''now'' = Some (CelInt (timestamp now))
       \<and> ctx ''age'' = map_option (\<lambda>c. CelInt (word_of_int
             (max 0 (now div nanos_per_sec - c div nanos_per_sec)))) (pod_creation_timestamp pod)
       \<and> ctx ''pod'' \<noteq> None
       \<and> dom ctx \<subseteq> {''pod'', ''metadata'', ''spec'', ''status'', ''now'', ''age''}
       \<and> (pod_status pod = None \<and> to_cel_value lib (JObject []) = Inr v \<longrightarrow> ctx ''status'' = Some v)"
proof -
  have "cel_age now c = word_of_int (max 0 (now div nanos_per_sec - c div nanos_per_sec))"
    if "pod_creation_timestamp pod = Some c" for c
  proof -
    have "cel_age now c = word_of_int (sint (cel_age now c))" by simp
    then show ?thesis using sint_cel_age [of now c] assms(2,3) that by simp
  qed
  note age = this
  obtain u where ctx:
    "ctx = (case pod_creation_timestamp pod of
              Some c \<Rightarrow> (object_context lib pod u)
                 (''now'' \<mapsto> CelInt (timestamp now), ''age'' \<mapsto> CelInt (cel_age now c))
            | None \<Rightarrow> (object_context lib pod u)(''now'' \<mapsto> CelInt (timestamp now)))"
    using assms(1) by (rule build_evaluation_context_Inr)
  let ?o = "object_context lib pod u"
  have "''age'' \<notin> dom ?o" using dom_object_context [of lib pod u] by blast
  then have none: "?o ''age'' = None" by (simp only: domIff not_not)
  have dom: "dom ctx \<subseteq> insert ''now'' (insert ''age'' (dom ?o))"
    unfolding ctx by (cases "pod_creation_timestamp pod") auto
  have "ctx ''now'' = Some (CelInt (timestamp now))"
    unfolding ctx by (cases "pod_creation_timestamp pod") simp_all
  moreover have "ctx ''age'' = map_option (\<lambda>c. CelInt (word_of_int
      (max 0 (now div nanos_per_sec - c div nanos_per_sec)))) (pod_creation_timestamp pod)"
    unfolding ctx using none age by (cases "pod_creation_timestamp pod") simp_all
  moreover have "ctx ''pod'' \<noteq> None"
    unfolding ctx using object_context_pod [of lib pod u]
    by (cases "pod_creation_timestamp pod") simp_all
  moreover have "dom ctx \<subseteq> {''pod'', ''metadata'', ''spec'', ''status'', ''now'', ''age''}"
    using dom dom_object_context [of lib pod u] by blast
  moreover have "ctx ''status'' = ?o ''status''"
    unfolding ctx by (cases "pod_creation_timestamp pod") simp_all
  then have "pod_status pod = None \<and> to_cel_value lib (JObject []) = Inr v \<longrightarrow> ctx ''status'' = Some v"
    using object_context_status [of pod lib v u] by simp
  ultimately show ?thesis by blast
qed

theorem evaluation_context_variables_witness:
  "\<exists>ctx. build_evaluation_context var_lib (90 * nanos_per_sec) (bare_pod ''d'' ''p'' (30 * nanos_per_sec))
           = Inr ctx \<and> ctx ''age'' = Some (CelInt 60) \<and> ctx ''status'' \<noteq> None"
proof -
  let ?pod = "bare_pod ''d'' ''p'' (30 * nanos_per_sec)"
  have "\<exists>ctx. build_evaluation_context var_lib (90 * nanos_per_sec) ?pod = Inr ctx"
    by (simp add: build_evaluation_context_def var_lib_def Let_def)
  then obtain ctx where ctx: "build_evaluation_context var_lib (90 * nanos_per_sec) ?pod = Inr ctx" ..
  show ?thesis
    using evaluation_context_variables [OF ctx, of "CelOther (JObject [])"] ctx
    by (simp add: bare_pod_def var_lib_def datetime_ok_def)
qed

end
