(* ===== verification/Policy_Matching.thy ===== *)
theory Policy_Matching
  imports Crd Cel_Engine
begin

text \<open>
  The first part of \<open>src/controller.rs\<close>: the pure decisions the reconcilers are made of:
  whether a policy selects a pod, whether the pod opted in, the TTL condition with the delay
  until it should be looked at again, the protected namespaces, and the namespace a policy's
  status is written to. Labels of a selector are looked up in the order of the \<open>BTreeMap\<close>.
\<close>

section \<open>The decisions\<close>

fun labels_match :: "(string \<rightharpoonup> string) \<Rightarrow> (string \<times> string) list \<Rightarrow> bool" where
  "labels_match labels [] = True"
| "labels_match labels ((key, value) # rest) =
     (if labels key \<noteq> Some value then False else labels_match labels rest)"

definition matches_policy :: "Pod \<Rightarrow> DepodPolicy \<Rightarrow> bool" where
  "matches_policy pod policy =
     (let spec = policy_spec policy;
          namespace_mismatch =
            (case namespace_selector (spec_match spec) of
               Some ns_selector \<Rightarrow>
                 match_names ns_selector \<noteq> []
                 \<and> unwrap_or_default (pod_namespace pod) \<notin> set (match_names ns_selector)
             | None \<Rightarrow> False)
      in if namespace_mismatch then False
         else (case pod_selector (spec_match spec) of
                 Some selector \<Rightarrow>
                   if match_labels selector \<noteq> []
                   then labels_match (pod_labels pod) (match_labels selector)
                   else True
               | None \<Rightarrow> True))"

definition check_trigger :: "Pod \<Rightarrow> string \<Rightarrow> string set \<Rightarrow> bool" where
  "check_trigger pod key values =
     (case pod_annotations pod of
        Some annotations \<Rightarrow>
          (case annotations key of
             Some value \<Rightarrow> value \<in> values
           | None \<Rightarrow> False)
      | None \<Rightarrow> False)"

definition evaluate_ttl_condition :: "Pod \<Rightarrow> i64 \<Rightarrow> instant \<Rightarrow> bool" where
  "evaluate_ttl_condition pod ttl now =
     (case pod_creation_timestamp pod of
        Some created \<Rightarrow>
          let age = num_seconds (now - created) in sint ttl < sint age
      | None \<Rightarrow> False)"

definition calculate_ttl_requeue :: "Pod \<Rightarrow> i64 \<Rightarrow> instant \<Rightarrow> u64 option" where
  "calculate_ttl_requeue pod ttl now =
     (case pod_creation_timestamp pod of
        Some created \<Rightarrow>
          let age = num_seconds (now - created) in Some (max_i64 (ttl - age) 1)
      | None \<Rightarrow> None)"

definition is_system_namespace :: "string \<Rightarrow> bool" where
  "is_system_namespace ns \<longleftrightarrow>
     ns = ''kube-system'' \<or> ns = ''kube-public'' \<or> ns = ''kube-node-lease''
   \<or> ns = ''kube-apiserver'' \<or> ns = ''kube-controller-manager'' \<or> ns = ''kube-scheduler''"

definition is_namespace_protected :: "string \<Rightarrow> bool \<Rightarrow> string list option \<Rightarrow> bool" where
  "is_namespace_protected ns protect_system excluded =
     (if protect_system \<and> is_system_namespace ns then True
      else (case excluded of
              Some names \<Rightarrow> if ns \<in> set names then True else False
            | None \<Rightarrow> False))"

definition get_policy_namespace :: "DepodPolicy \<Rightarrow> string" where
  "get_policy_namespace policy =
     (case policy_namespace policy of
        Some ns \<Rightarrow> ns
      | None \<Rightarrow>
          (case namespace_selector (spec_match (policy_spec policy)) of
             Some selector \<Rightarrow>
               if length (match_names selector) = 1 then match_names selector ! 0 else ''default''
           | None \<Rightarrow> ''default''))"

section \<open>What they decide\<close>

lemma labels_match_iff: "labels_match labels ls \<longleftrightarrow> (\<forall>(k, v) \<in> set ls. labels k = Some v)"
  by (induction ls) (auto split: if_splits)

text \<open>The selectors of a match, stated without the control flow of the source.\<close>

definition selects_namespace :: "Match \<Rightarrow> string \<Rightarrow> bool" where
  "selects_namespace m ns \<longleftrightarrow>
     (\<forall>s. namespace_selector m = Some s \<longrightarrow> match_names s = [] \<or> ns \<in> set (match_names s))"

definition selects_labels :: "Match \<Rightarrow> (string \<rightharpoonup> string) \<Rightarrow> bool" where
  "selects_labels m labels \<longleftrightarrow>
     (\<forall>s. pod_selector m = Some s \<longrightarrow> map_of (match_labels s) \<subseteq>\<^sub>m labels)"

lemma labels_match_map_le:
  assumes "distinct (map fst ls)"
  shows "labels_match labels ls \<longleftrightarrow> map_of ls \<subseteq>\<^sub>m labels"
proof -
  have "(\<forall>(k, v) \<in> set ls. labels k = Some v) \<longleftrightarrow> (\<forall>k v. map_of ls k = Some v \<longrightarrow> labels k = Some v)"
    using assms by auto
  then show ?thesis
    unfolding labels_match_iff by (auto simp: map_le_def dom_def)
qed

text \<open>
  A policy matches a pod exactly when its namespace selector is absent, empty or names the
  pod's namespace, and every label of its pod selector, whose keys are distinct as those of
  every map, is on the pod with the same value.
\<close>

theorem matches_policy_iff:
  assumes "\<forall>s. pod_selector (spec_match (policy_spec policy)) = Some s \<longrightarrow>
                 distinct (map fst (match_labels s))"
  shows "matches_policy pod policy \<longleftrightarrow>
           selects_namespace (spec_match (policy_spec policy)) (unwrap_or_default (pod_namespace pod))
         \<and> selects_labels (spec_match (policy_spec policy)) (pod_labels pod)"
  using assms
  by (auto simp: matches_policy_def selects_namespace_def selects_labels_def labels_match_map_le
      Let_def split: option.split)

theorem matches_policy_iff_witness:
  "matches_policy (bare_pod ''d'' ''p'' 0) (ttl_policy ''t'' 600)
     \<longleftrightarrow> selects_namespace no_match ''d'' \<and> selects_labels no_match Map.empty"
  using matches_policy_iff [of "ttl_policy ''t'' 600" "bare_pod ''d'' ''p'' 0"]
  by (simp add: ttl_policy_def bare_pod_def no_match_def)

lemma check_trigger_iff:
  "check_trigger pod key values
     \<longleftrightarrow> (\<exists>a v. pod_annotations pod = Some a \<and> a key = Some v \<and> v \<in> values)"
  by (simp add: check_trigger_def split: option.split)

lemma is_namespace_protected_iff:
  "is_namespace_protected ns p ex
     \<longleftrightarrow> p \<and> is_system_namespace ns \<or> (\<exists>names. ex = Some names \<and> ns \<in> set names)"
  by (auto simp: is_namespace_protected_def split: option.split)

section \<open>The TTL condition and its requeue\<close>

definition whole_seconds :: "int \<Rightarrow> int" where
  "whole_seconds d = d sdiv nanos_per_sec"

lemma evaluate_ttl_created:
  assumes "pod_creation_timestamp pod = Some created" and "datetime_ok created" and "datetime_ok now"
  shows "evaluate_ttl_condition pod ttl now \<longleftrightarrow> sint ttl < whole_seconds (now - created)"
  using assms by (simp add: evaluate_ttl_condition_def sint_num_seconds whole_seconds_def)

lemma whole_seconds_nonneg: "0 \<le> d \<Longrightarrow> whole_seconds d = d div nanos_per_sec"
  by (simp add: whole_seconds_def sdiv_nanos)

lemma whole_seconds_bound:
  assumes "datetime_ok a" and "datetime_ok b"
  shows "\<bar>whole_seconds (a - b)\<bar> \<le> 2 ^ 44"
  using assms by (auto simp: whole_seconds_def sdiv_nanos datetime_ok_def)

text \<open>
  For a pod in existence, the delay after a TTL that has not expired is never zero and is
  the time left, \<open>ttl\<close> minus the age, also for a creation time in the future; only where
  that difference does not fit 64 bits does the subtraction wrap, and the delay is 1 second.
\<close>

theorem ttl_requeue_value:
  assumes "pod_creation_timestamp pod = Some created" and "datetime_ok created" and "datetime_ok now"
    and "0 < sint ttl" and "\<not> evaluate_ttl_condition pod ttl now"
  shows "\<exists>left. calculate_ttl_requeue pod ttl now = Some left
           \<and> int (unat left) =
               (let left = sint ttl - whole_seconds (now - created)
                in if left < 2 ^ 63 then max 1 left else 1)"
proof -
  define age where "age = num_seconds (now - created)"
  have age: "sint age = whole_seconds (now - created)"
    using assms(2,3) by (simp add: age_def sint_num_seconds whole_seconds_def)
  have le: "sint age \<le> sint ttl"
    using assms evaluate_ttl_created [OF assms(1-3)] age by simp
  have "\<bar>sint age\<bar> \<le> 2 ^ 44"
    using whole_seconds_bound [OF assms(3,2)] age by simp
  have "0 \<le> sint (max_i64 (ttl - age) 1)" by (simp add: sint_max_i64)
  then have u: "int (unat (max_i64 (ttl - age) 1)) = max (sint (ttl - age)) 1"
    using unat_of_nonneg_i64 [of "max_i64 (ttl - age) 1"] by (simp add: sint_max_i64)
  have "max (sint (ttl - age)) 1 =
      (if sint ttl - sint age < 2 ^ 63 then max 1 (sint ttl - sint age) else 1)"
  proof (cases "sint ttl - sint age < 2 ^ 63")
    case True
    then have "sint (ttl - age) = sint ttl - sint age" using le by (intro sint_minus_64) simp_all
    then show ?thesis using True by simp
  next
    case False
    have "sint (ttl - age) = sint ttl - sint age - 2 ^ 64"
      using False \<open>\<bar>sint age\<bar> \<le> 2 ^ 44\<close> sint_less [of ttl] by (intro sint_minus_64_wrap) simp_all
    then show ?thesis using False \<open>\<bar>sint age\<bar> \<le> 2 ^ 44\<close> sint_less [of ttl] by simp
  qed
  then show ?thesis
    using u assms(1) age by (auto simp: calculate_ttl_requeue_def age_def [symmetric] Let_def)
qed

theorem ttl_requeue_value_witness:
  "\<exists>left. calculate_ttl_requeue (bare_pod ''d'' ''p'' (30 * nanos_per_sec)) 600 (90 * nanos_per_sec)
           = Some left \<and> int (unat left) = 540"
proof -
  have "\<not> evaluate_ttl_condition (bare_pod ''d'' ''p'' (30 * nanos_per_sec)) 600 (90 * nanos_per_sec)"
    by (simp add: evaluate_ttl_condition_def bare_pod_def Let_def num_seconds_def sdiv_nanos)
  then show ?thesis
    using ttl_requeue_value [of "bare_pod ''d'' ''p'' (30 * nanos_per_sec)" "30 * nanos_per_sec"
        "90 * nanos_per_sec" 600]
    by (simp add: bare_pod_def datetime_ok_def whole_seconds_def sdiv_nanos)
qed







text \<open>
  The age an expression sees and the age the TTL condition uses are not the same number:
  the former is the difference of the two instants' whole seconds, the latter the whole
  seconds of the difference. The expression's is never the smaller one and is at most one
  second ahead, so \<open>age > n\<close> fires no later than a TTL of \<open>n\<close>, and at most a second
  earlier.
\<close>

theorem cel_age_versus_ttl_age:
  assumes "pod_creation_timestamp pod = Some created" and "datetime_ok created" and "datetime_ok now"
    and "created \<le> now" and "sint n < 2 ^ 63 - 1"
  shows "(evaluate_ttl_condition pod n now \<longrightarrow> sint n < sint (cel_age now created))
       \<and> (sint n + 1 < sint (cel_age now created) \<longrightarrow> evaluate_ttl_condition pod n now)"
proof -
  have "now div nanos_per_sec - created div nanos_per_sec - 1 \<le> (now - created) div nanos_per_sec"
    "(now - created) div nanos_per_sec \<le> now div nanos_per_sec - created div nanos_per_sec"
    "0 \<le> (now - created) div nanos_per_sec"
    using assms(4) by (simp_all add: pos_imp_zdiv_nonneg_iff)
  then show ?thesis
    using evaluate_ttl_created [OF assms(1-3)] sint_cel_age [OF assms(3,2)] assms(4)
    by (simp add: whole_seconds_nonneg)
qed

theorem cel_age_versus_ttl_age_witness:
  "evaluate_ttl_condition (bare_pod ''d'' ''p'' 0) 600 (700 * nanos_per_sec)"
proof -
  have "sint (cel_age (700 * nanos_per_sec) 0) = 700"
    by (simp add: sint_cel_age datetime_ok_def)
  then show ?thesis
    using cel_age_versus_ttl_age [of "bare_pod ''d'' ''p'' 0" 0 "700 * nanos_per_sec" 600]
    by (simp add: bare_pod_def datetime_ok_def)
qed

section \<open>Protected namespaces\<close>

text \<open>
  Exactly six namespaces are protected by \<open>protectSystemNamespaces\<close> alone. The operator's
  own namespace \<open>kube-depod\<close> and \<open>default\<close> are not among them: a policy protects those only by
  listing them in \<open>excludedNamespaces\<close>, which protects whatever it lists, with or without the
  flag.
\<close>

theorem protected_namespaces:
  "(is_namespace_protected ns True None \<longleftrightarrow>
      ns \<in> {''kube-system'', ''kube-public'', ''kube-node-lease'', ''kube-apiserver'',
             ''kube-controller-manager'', ''kube-scheduler''})
   \<and> \<not> is_namespace_protected ''kube-depod'' True None
   \<and> \<not> is_namespace_protected ''default'' True None
   \<and> is_namespace_protected ns p (Some (xs @ ns # ys))"
  by (simp add: is_namespace_protected_def is_system_namespace_def)

end
