(* ===== verification/Token_Bucket.thy ===== *)
theory Token_Bucket
  imports Prelude
begin

text \<open>
  The \<open>TokenBucket\<close> of \<open>src/rate_limiter.rs\<close>, as one thread runs it: a full refill when a
  call comes 60 seconds or more after the last one, then one token taken if there is one. The
  contract that the reconcilers need from a bucket is the locale \<open>token_source\<close>; the bounds on
  the number of grants in a time span are proved there. What several threads can do to one
  bucket is in the theory Bucket_Concurrency.
\<close>

section \<open>The bucket\<close>

record TokenBucket =
  max_per_minute :: u64
  last_reset :: u64
  tokens :: u64

text \<open>
  Both operations read the system clock first and panic (\<^term>\<open>None\<close>) on an instant before
  the epoch. The compare-and-exchange loop of \<open>allow\<close> takes a token at its first attempt that
  does not fail; run by one thread it succeeds exactly when there is a token.
\<close>

definition new_bucket_at :: "u64 \<Rightarrow> u64 \<Rightarrow> TokenBucket" where
  "new_bucket_at now limit = \<lparr>max_per_minute = limit, last_reset = now, tokens = limit\<rparr>"

definition new_bucket :: "instant \<Rightarrow> u64 \<Rightarrow> TokenBucket option" where
  "new_bucket clock limit =
     (case unix_secs clock of None \<Rightarrow> None | Some now \<Rightarrow> Some (new_bucket_at now limit))"

definition refill_at :: "u64 \<Rightarrow> TokenBucket \<Rightarrow> TokenBucket" where
  "refill_at now b =
     (if 60 \<le> saturating_sub now (last_reset b)
      then b\<lparr>last_reset := now, tokens := max_per_minute b\<rparr> else b)"

definition take_token :: "TokenBucket \<Rightarrow> bool \<times> TokenBucket" where
  "take_token b = (if 0 < tokens b then (True, b\<lparr>tokens := tokens b - 1\<rparr>) else (False, b))"

definition allow_at :: "u64 \<Rightarrow> TokenBucket \<Rightarrow> bool \<times> TokenBucket" where
  "allow_at now b = take_token (refill_at now b)"

definition bucket_allow :: "instant \<Rightarrow> TokenBucket \<Rightarrow> (bool \<times> TokenBucket) option" where
  "bucket_allow clock b =
     (case unix_secs clock of None \<Rightarrow> None | Some now \<Rightarrow> Some (allow_at now b))"

definition get_tokens :: "TokenBucket \<Rightarrow> u64" where
  "get_tokens b = tokens b"

lemmas bucket_defs = allow_at_def refill_at_def take_token_def

lemma refill_due_iff:
  "60 \<le> saturating_sub now (last_reset b) \<longleftrightarrow> unat (last_reset b) + 60 \<le> unat now"
  by (simp add: word_le_nat_alt unat_saturating_sub) arith

lemma in_window_int: "unat a < unat b + 60 \<longleftrightarrow> int (unat a) < int (unat b) + 60"
  by linarith

lemma allow_at_in_window:
  assumes "unat now < unat (last_reset b) + 60"
  shows "allow_at now b = take_token b"
  using assms refill_due_iff [of now b] by (simp add: allow_at_def refill_at_def)

lemma allow_at_new_window:
  assumes "unat (last_reset b) + 60 \<le> unat now"
  shows "allow_at now b = take_token (b\<lparr>last_reset := now, tokens := max_per_minute b\<rparr>)"
  using assms refill_due_iff [of now b] by (simp add: allow_at_def refill_at_def)

lemma max_per_minute_allow [simp, frame_simps]:
  "max_per_minute (snd (allow_at now b)) = max_per_minute b"
  by (simp add: bucket_defs)

text \<open>A bucket never holds more tokens than its limit.\<close>

definition bucket_ok :: "TokenBucket \<Rightarrow> bool" where
  "bucket_ok b \<longleftrightarrow> tokens b \<le> max_per_minute b"

lemma max_per_minute_new [simp]: "max_per_minute (new_bucket_at now limit) = limit"
  by (simp add: new_bucket_at_def)

lemma bucket_ok_new [simp]: "bucket_ok (new_bucket_at now limit)"
  by (simp add: bucket_ok_def new_bucket_at_def)

lemma unat_tokens_minus_1: "0 < tokens b \<Longrightarrow> unat (tokens b - 1) = unat (tokens b) - 1"
  by (simp add: unat_minus_one word_neq_0_conv)

lemma bucket_ok_allow: "bucket_ok b \<Longrightarrow> bucket_ok (snd (allow_at now b))"
  by (auto simp: bucket_defs bucket_ok_def word_le_nat_alt unat_minus_one word_neq_0_conv)

section \<open>The contract of a token source\<close>

text \<open>
  \<open>start\<close> is the second at which the current window began; it is an integer so that a source
  that has not been used yet can say that no window is open. Calls carry the second at which
  they are made.
\<close>

text \<open>The grants of a run of calls at the given seconds.\<close>

fun grant_count :: "(u64 \<Rightarrow> 's \<Rightarrow> bool \<times> 's) \<Rightarrow> u64 list \<Rightarrow> 's \<Rightarrow> nat" where
  "grant_count allow [] s = 0"
| "grant_count allow (t # ts) s =
     (if fst (allow t s) then 1 else 0) + grant_count allow ts (snd (allow t s))"

locale token_source =
  fixes allow :: "u64 \<Rightarrow> 's \<Rightarrow> bool \<times> 's"
    and remaining :: "'s \<Rightarrow> nat"
    and capacity :: nat
    and start :: "'s \<Rightarrow> int"
    and valid :: "'s \<Rightarrow> bool"
  assumes valid_allow: "valid s \<Longrightarrow> valid (snd (allow t s))"
    and remaining_le: "valid s \<Longrightarrow> remaining s \<le> capacity"
    and in_window: "valid s \<Longrightarrow> int (unat t) < start s + 60 \<Longrightarrow>
          fst (allow t s) = (0 < remaining s)
        \<and> remaining (snd (allow t s)) = remaining s - 1
        \<and> start (snd (allow t s)) = start s"
    and new_window: "valid s \<Longrightarrow> start s + 60 \<le> int (unat t) \<Longrightarrow>
          fst (allow t s) = (0 < capacity)
        \<and> remaining (snd (allow t s)) = capacity - 1
        \<and> start (snd (allow t s)) = int (unat t)"
begin

lemma grants_one_window:
  assumes "valid s" and "\<forall>t \<in> set ts. int (unat t) < start s + 60"
  shows "grant_count allow ts s = min (remaining s) (length ts)"
  using assms
proof (induction ts arbitrary: s)
  case (Cons t ts)
  then show ?case
    using in_window [of s t] valid_allow [of s t] by (cases "remaining s") auto
qed simp

lemma grants_from_window:
  assumes "valid s" and "\<forall>t \<in> set ts. int (unat t) \<le> T" and "start s \<le> T"
  shows "int (grant_count allow ts s)
           \<le> int (remaining s) + int capacity * ((T - start s) div 60)"
  using assms
proof (induction ts arbitrary: s)
  case Nil
  then show ?case by (simp add: pos_imp_zdiv_nonneg_iff)
next
  case (Cons t ts)
  let ?s = "snd (allow t s)"
  have v: "valid ?s" using Cons.prems(1) by (rule valid_allow)
  have t: "int (unat t) \<le> T" using Cons.prems(2) by simp
  show ?case
  proof (cases "int (unat t) < start s + 60")
    case True
    then have "int (grant_count allow ts ?s) \<le> int (remaining s - 1) + int capacity * ((T - start s) div 60)"
      using Cons.IH [OF v] Cons.prems in_window [of s t] by simp
    then show ?thesis using True Cons.prems in_window [of s t] by auto
  next
    case False
    then have w: "start ?s = int (unat t)" "remaining ?s = capacity - 1"
        "fst (allow t s) = (0 < capacity)"
      using Cons.prems new_window [of s t] by auto
    have "int (grant_count allow ts ?s) \<le> int (capacity - 1) + int capacity * ((T - int (unat t)) div 60)"
      using Cons.IH [OF v] Cons.prems t w by simp
    moreover have "(T - int (unat t)) div 60 \<le> (T - start s) div 60 - 1"
      using False by arith
    then have "int capacity * ((T - int (unat t)) div 60)
        \<le> int capacity * ((T - start s) div 60 - 1)"
      by (rule mult_left_mono) simp
    then have "int capacity * ((T - int (unat t)) div 60) + int capacity
        \<le> int capacity * ((T - start s) div 60)"
      by (simp add: algebra_simps)
    ultimately show ?thesis using w by auto
  qed
qed

text \<open>
  Calls between the seconds \<open>A\<close> and \<open>T\<close>: one window may be open at \<open>A\<close>, and each further
  one takes 60 seconds.
\<close>

lemma span_bound:
  assumes "A \<le> a + 59" and "r \<le> capacity"
  shows "int r + int capacity * ((T - a) div 60) \<le> int capacity * (1 + (T - A + 59) div 60)"
proof -
  have "(T - a) div 60 \<le> (T - A + 59) div 60" using assms(1) by (intro zdiv_mono1) simp_all
  then have "int capacity * ((T - a) div 60) \<le> int capacity * ((T - A + 59) div 60)"
    by (rule mult_left_mono) simp
  then show ?thesis using assms(2) by (simp add: algebra_simps)
qed

lemma grants_reopening:
  assumes "valid s" and "\<forall>t' \<in> set (t # ts). int (unat t') \<le> T" and "start s + 60 \<le> int (unat t)"
  shows "int (grant_count allow (t # ts) s)
           \<le> int capacity + int capacity * ((T - int (unat t)) div 60)"
proof -
  have w: "fst (allow t s) = (0 < capacity)" "remaining (snd (allow t s)) = capacity - 1"
      "start (snd (allow t s)) = int (unat t)"
    using new_window [OF assms(1,3)] by auto
  have "int (grant_count allow ts (snd (allow t s)))
      \<le> int (capacity - 1) + int capacity * ((T - int (unat t)) div 60)"
    using grants_from_window [of "snd (allow t s)" ts T] valid_allow [of s t] assms w by simp
  then show ?thesis using w by auto
qed

lemma grants_in_span:
  assumes "valid s" and span: "\<forall>t \<in> set ts. A \<le> int (unat t) \<and> int (unat t) \<le> T" and "A \<le> T"
  shows "int (grant_count allow ts s) \<le> int capacity * (1 + (T - A + 59) div 60)"
proof -
  have r: "remaining s \<le> capacity" using assms(1) by (rule remaining_le)
  have one: "int capacity * 1 \<le> int capacity * (1 + (T - A + 59) div 60)"
    using assms(3) by (intro mult_left_mono) simp_all
  consider (open_window) "A < start s + 60" "start s \<le> T" | (future) "T < start s"
    | (unused) "ts = []" | (stale) t ts' where "ts = t # ts'" "start s + 60 \<le> A"
    by (cases ts) force+
  then show ?thesis
  proof cases
    case open_window
    then have "int (grant_count allow ts s)
        \<le> int (remaining s) + int capacity * ((T - start s) div 60)"
      using grants_from_window assms by simp
    then show ?thesis using span_bound [of A "start s" "remaining s" T] open_window r by simp
  next
    case future
    have "\<forall>t \<in> set ts. int (unat t) < start s + 60" using span future by fastforce
    then have "grant_count allow ts s \<le> capacity" using grants_one_window [of s ts] assms r by simp
    then show ?thesis using one by simp
  next
    case unused
    then show ?thesis using one by simp
  next
    case stale
    then show ?thesis
      using grants_reopening [of s t ts' T] span_bound [of A "int (unat t)" capacity T] span assms(1)
      by (fastforce simp del: grant_count.simps)
  qed
qed

lemma grants_new_window:
  assumes "valid s" and "start s + 60 \<le> int (unat t)"
  shows "grant_count allow (replicate n t) s = min capacity n"
proof (cases n)
  case (Suc k)
  have "grant_count allow (replicate k t) (snd (allow t s)) = min (capacity - 1) k"
    using grants_one_window [of "snd (allow t s)" "replicate k t"] new_window [of s t] assms
      valid_allow by simp
  then show ?thesis using Suc new_window [of s t] assms by auto
qed simp

text \<open>The bound is reached: the end of one window and the start of the next can follow at once.\<close>

lemma grants_at_window_edge:
  assumes "valid s" and "remaining s = capacity"
    and "int (unat t) < start s + 60" and "start s + 60 \<le> int (unat t')"
  shows "grant_count allow (replicate capacity t @ replicate capacity t') s = 2 * capacity"
proof -
  let ?run = "\<lambda>ts s. fold (\<lambda>t s. snd (allow t s)) ts s"
  have append: "grant_count allow (ts @ ts') s = grant_count allow ts s + grant_count allow ts' (?run ts s)"
    for ts ts' s
    by (induction ts arbitrary: s) simp_all
  have "valid (?run (replicate n t) s) \<and> start (?run (replicate n t) s) = start s" for n
    using assms(1,3)
  proof (induction n arbitrary: s)
    case (Suc n)
    then show ?case using in_window [of s t] valid_allow [of s t] by simp
  qed simp
  then have s': "valid (?run (replicate capacity t) s)"
      "start (?run (replicate capacity t) s) = start s" by simp_all
  have "grant_count allow (replicate capacity t) s = capacity"
    using grants_one_window [of s "replicate capacity t"] assms by simp
  then show ?thesis using append grants_new_window s' assms(4) by simp
qed

text \<open>
  What a source may have granted since the second \<open>t0\<close>, when its window was already open then:
  every window up to the current one in full, less what is left of it. Each grant adds to it.
\<close>

definition spent :: "int \<Rightarrow> 's \<Rightarrow> int" where
  "spent t0 s = int capacity * (1 + (start s - t0) div 60) - int (remaining s)"

lemma spent_allow:
  assumes "valid s" and "t0 \<le> start s"
  shows "spent t0 s + (if fst (allow t s) then 1 else 0) \<le> spent t0 (snd (allow t s))"
    and "t0 \<le> start (snd (allow t s))"
proof -
  have "spent t0 s + (if fst (allow t s) then 1 else 0) \<le> spent t0 (snd (allow t s))
      \<and> t0 \<le> start (snd (allow t s))"
  proof (cases "int (unat t) < start s + 60")
    case True
    then show ?thesis using in_window [of s t] assms by (auto simp: spent_def)
  next
    case False
    then have w: "fst (allow t s) = (0 < capacity)" "remaining (snd (allow t s)) = capacity - 1"
        "start (snd (allow t s)) = int (unat t)"
      using new_window [of s t] assms(1) by auto
    have "(start s - t0) div 60 + 1 \<le> (int (unat t) - t0) div 60" using False by arith
    then have "int capacity * ((start s - t0) div 60 + 1) \<le> int capacity * ((int (unat t) - t0) div 60)"
      by (rule mult_left_mono) simp
    then show ?thesis using w False assms by (auto simp: spent_def algebra_simps)
  qed
  then show "spent t0 s + (if fst (allow t s) then 1 else 0) \<le> spent t0 (snd (allow t s))"
    and "t0 \<le> start (snd (allow t s))" by simp_all
qed

lemma spent_le: "spent t0 s \<le> int capacity * (1 + (start s - t0) div 60)"
  by (simp add: spent_def)

end

interpretation bucket_source:
  token_source allow_at "\<lambda>b. unat (tokens b)" "unat limit" "\<lambda>b. int (unat (last_reset b))"
    "\<lambda>b. bucket_ok b \<and> max_per_minute b = limit"
  for limit :: u64
proof
  fix b :: TokenBucket and t :: u64
  assume ok: "bucket_ok b \<and> max_per_minute b = limit"
  show "bucket_ok (snd (allow_at t b)) \<and> max_per_minute (snd (allow_at t b)) = limit"
    using ok by (simp add: bucket_ok_allow)
  show "unat (tokens b) \<le> unat limit"
    using ok by (auto simp: bucket_ok_def word_le_nat_alt)
  show "fst (allow_at t b) = (0 < unat (tokens b))
      \<and> unat (tokens (snd (allow_at t b))) = unat (tokens b) - 1
      \<and> int (unat (last_reset (snd (allow_at t b)))) = int (unat (last_reset b))"
    if w: "int (unat t) < int (unat (last_reset b)) + 60"
  proof -
    have "unat t < unat (last_reset b) + 60" using w by linarith
    then show ?thesis
      by (cases "tokens b = 0")
        (simp_all add: allow_at_in_window take_token_def unat_minus_one unat_gt_0 word_gt_0)
  qed
  show "fst (allow_at t b) = (0 < unat limit)
      \<and> unat (tokens (snd (allow_at t b))) = unat limit - 1
      \<and> int (unat (last_reset (snd (allow_at t b)))) = int (unat t)"
    if w: "int (unat (last_reset b)) + 60 \<le> int (unat t)"
  proof -
    have "unat (last_reset b) + 60 \<le> unat t" using w by linarith
    then show ?thesis using ok
      by (cases "limit = 0")
        (simp_all add: allow_at_new_window take_token_def unat_minus_one unat_gt_0 word_gt_0)
  qed
qed

text \<open>
  A bucket grants exactly its remaining tokens inside a window: calls made less than 60
  seconds after the last reset are granted until the tokens are used up, and none after.
\<close>

theorem bucket_window_grants:
  assumes "bucket_ok b" and "\<forall>t \<in> set ts. unat t < unat (last_reset b) + 60"
  shows "grant_count allow_at ts b = min (unat (tokens b)) (length ts)"
proof -
  have "\<forall>t \<in> set ts. int (unat t) < int (unat (last_reset b)) + 60"
    using assms(2) by (simp only: in_window_int)
  then show ?thesis
    using bucket_source.grants_one_window [of b "max_per_minute b" ts] assms(1) by simp
qed

theorem bucket_window_grants_witness:
  "grant_count allow_at [100, 110, 159] (new_bucket_at 100 2) = 2"
  using bucket_window_grants [of "new_bucket_at 100 2" "[100, 110, 159]"]
  by (simp add: new_bucket_at_def bucket_ok_def)

text \<open>
  Whatever the order of the clock readings, the calls made between the seconds \<open>A\<close> and
  \<open>T\<close> are granted at most \<open>max_per_minute\<close> times for the window open at \<open>A\<close> and
  \<open>max_per_minute\<close> times more for each further started minute.
\<close>

theorem bucket_span_bound:
  assumes "bucket_ok b" and "A \<le> T"
    and "\<forall>t \<in> set ts. A \<le> int (unat t) \<and> int (unat t) \<le> T"
  shows "int (grant_count allow_at ts b)
           \<le> int (unat (max_per_minute b)) * (1 + (T - A + 59) div 60)"
  using bucket_source.grants_in_span [of b "max_per_minute b" ts A T] assms by simp

theorem bucket_span_bound_witness:
  "int (grant_count allow_at [100, 130, 170] (new_bucket_at 100 1)) \<le> 1 * (1 + (70 + 59) div 60)"
  using bucket_span_bound [of "new_bucket_at 100 1" 100 170 "[100, 130, 170]"]
  by (simp add: new_bucket_at_def bucket_ok_def)

text \<open>
  The limit is per window, not per minute: a fresh bucket grants twice its limit to calls
  of which the first half comes 59 seconds after its creation and the second half one second
  later.
\<close>

theorem bucket_edge_burst:
  assumes "unat now + 60 < 2 ^ 64"
  shows "grant_count allow_at
           (replicate (unat limit) (now + 59) @ replicate (unat limit) (now + 60))
           (new_bucket_at now limit) = 2 * unat limit"
proof -
  have "unat (now + 59) = unat now + 59" and "unat (now + 60) = unat now + 60"
    using assms by (simp_all add: unat_word_ariths)
  then show ?thesis
    using bucket_source.grants_at_window_edge
      [of "new_bucket_at now limit" limit "now + 59" "now + 60"]
    by (simp add: new_bucket_at_def bucket_ok_def)
qed

theorem bucket_edge_burst_witness:
  "grant_count allow_at
     (replicate (unat (20::u64)) (1000 + 59) @ replicate (unat (20::u64)) (1000 + 60))
     (new_bucket_at 1000 20) = 40"
  using bucket_edge_burst [of 1000 20] by simp

end
