(* ===== verification/Rate_Limiter.thy ===== *)
theory Rate_Limiter
  imports Token_Bucket "HOL-Library.Monad_Syntax"
begin

text \<open>
  The \<open>RateLimiter\<close> of \<open>src/rate_limiter.rs\<close>: one bucket for the whole operator and one per
  policy name, created on first use and replaced when the policy's limit changes. The
  \<open>DashMap\<close> of policy buckets is a map; the \<open>Arc\<close> that \<open>allow_policy\<close> stores and then calls is
  the same bucket, so the map holds the bucket after the call. Each operation gets the clock
  readings it makes, in order; a reading before the epoch is a panic, the result \<^term>\<open>None\<close>.
\<close>

record RateLimiter =
  global_limiter :: TokenBucket
  policy_limiters :: "string \<rightharpoonup> TokenBucket"

definition new_limiter :: "instant \<Rightarrow> u64 \<Rightarrow> RateLimiter option" where
  "new_limiter clock global_max_per_minute =
     do { b \<leftarrow> new_bucket clock global_max_per_minute;
          Some \<lparr>global_limiter = b, policy_limiters = Map.empty\<rparr> }"

definition allow_global :: "instant \<Rightarrow> RateLimiter \<Rightarrow> (bool \<times> RateLimiter) option" where
  "allow_global clock l =
     do { (granted, b) \<leftarrow> bucket_allow clock (global_limiter l);
          Some (granted, l\<lparr>global_limiter := b\<rparr>) }"

text \<open>\<open>match max_per_minute { Some(l) if l > 0 => l as u64, _ => return true }\<close>.\<close>

definition effective_limit :: "i32 option \<Rightarrow> u64 option" where
  "effective_limit max_limit =
     (case max_limit of
        Some l \<Rightarrow> if 0 < sint l then Some (scast l) else None
      | None \<Rightarrow> None)"

definition allow_policy ::
  "instant \<Rightarrow> instant \<Rightarrow> string \<Rightarrow> i32 option \<Rightarrow> RateLimiter \<Rightarrow> (bool \<times> RateLimiter) option" where
  "allow_policy clock_new clock_allow policy_name max_limit l =
     (case effective_limit max_limit of
        None \<Rightarrow> Some (True, l)
      | Some limit \<Rightarrow>
          (case policy_limiters l policy_name of
             Some limiter \<Rightarrow>
               if max_per_minute limiter \<noteq> limit
               then do { b \<leftarrow> new_bucket clock_new limit;
                         (granted, b') \<leftarrow> bucket_allow clock_allow b;
                         Some (granted,
                           l\<lparr>policy_limiters := (policy_limiters l)(policy_name \<mapsto> b')\<rparr>) }
               else do { (granted, b') \<leftarrow> bucket_allow clock_allow limiter;
                         Some (granted,
                           l\<lparr>policy_limiters := (policy_limiters l)(policy_name \<mapsto> b')\<rparr>) }
           | None \<Rightarrow>
               do { b \<leftarrow> new_bucket clock_new limit;
                    (granted, b') \<leftarrow> bucket_allow clock_allow b;
                    Some (granted,
                      l\<lparr>policy_limiters := (policy_limiters l)(policy_name \<mapsto> b')\<rparr>) }))"

text \<open>The legacy entry point and the two getters.\<close>

definition limiter_allow :: "instant \<Rightarrow> RateLimiter \<Rightarrow> (bool \<times> RateLimiter) option" where
  "limiter_allow = allow_global"

definition limiter_get_tokens :: "RateLimiter \<Rightarrow> u64" where
  "limiter_get_tokens l = get_tokens (global_limiter l)"

definition get_max_per_minute :: "RateLimiter \<Rightarrow> u64" where
  "get_max_per_minute l = max_per_minute (global_limiter l)"

section \<open>The limiter when no clock reading panics\<close>

definition allow_policy_at ::
  "u64 \<Rightarrow> u64 \<Rightarrow> string \<Rightarrow> u64 \<Rightarrow> RateLimiter \<Rightarrow> bool \<times> RateLimiter" where
  "allow_policy_at now_new now_allow policy_name limit l =
     (let b = (case policy_limiters l policy_name of
                 Some limiter \<Rightarrow>
                   if max_per_minute limiter \<noteq> limit then new_bucket_at now_new limit else limiter
               | None \<Rightarrow> new_bucket_at now_new limit);
          (granted, b') = allow_at now_allow b
      in (granted, l\<lparr>policy_limiters := (policy_limiters l)(policy_name \<mapsto> b')\<rparr>))"

lemma allow_policy_unlimited:
  "effective_limit m = None \<Longrightarrow> allow_policy c c' n m l = Some (True, l)"
  by (simp add: allow_policy_def)

lemma allow_policy_eq_at:
  assumes "effective_limit m = Some limit" and "unix_secs c = Some now" and "unix_secs c' = Some now'"
  shows "allow_policy c c' n m l = Some (allow_policy_at now now' n limit l)"
  using assms
  by (simp add: allow_policy_def allow_policy_at_def new_bucket_def bucket_allow_def split_beta
      Let_def split: option.split)

lemma allow_global_eq_at:
  "unix_secs c = Some now \<Longrightarrow>
     allow_global c l = Some (fst (allow_at now (global_limiter l)),
       l\<lparr>global_limiter := snd (allow_at now (global_limiter l))\<rparr>)"
  by (simp add: allow_global_def bucket_allow_def split_beta)

lemma allow_global_total: "0 \<le> c \<Longrightarrow> \<exists>g l'. allow_global c l = Some (g, l')"
  using unix_secs_Some [of c] by (auto simp: allow_global_eq_at)

lemma allow_policy_total:
  assumes "0 \<le> c" and "0 \<le> c'"
  shows "\<exists>g l'. allow_policy c c' n m l = Some (g, l')"
proof (cases "effective_limit m")
  case None
  then show ?thesis by (auto simp: allow_policy_unlimited)
next
  case (Some limit)
  then show ?thesis
    using unix_secs_Some [OF assms(1)] unix_secs_Some [OF assms(2)]
    by (auto simp: allow_policy_eq_at)
qed

text \<open>What a panic-free call did, for proofs that start from its result.\<close>

lemma allow_globalE:
  assumes "allow_global c l = Some (g, l')"
  obtains now where "unix_secs c = Some now" and "g = fst (allow_at now (global_limiter l))"
    and "l' = l\<lparr>global_limiter := snd (allow_at now (global_limiter l))\<rparr>"
  using assms
  by (cases "unix_secs c") (auto simp: allow_global_def bucket_allow_def split_beta)

lemma allow_policyE:
  assumes "allow_policy c c' n m l = Some (g, l')"
  obtains (unlimited) "effective_limit m = None" "g" "l' = l"
  | (limited) limit b now where "effective_limit m = Some limit"
      "g = fst (allow_at now b)"
      "l' = l\<lparr>policy_limiters := (policy_limiters l)(n \<mapsto> snd (allow_at now b))\<rparr>"
      "bucket_ok b \<or> policy_limiters l n = Some b" "max_per_minute b = limit"
proof (cases "effective_limit m")
  case None
  then show ?thesis using assms unlimited by (simp add: allow_policy_unlimited)
next
  case (Some limit)
  obtain now' where now': "unix_secs c' = Some now'"
    using assms Some
    by (cases "unix_secs c'")
      (auto simp: allow_policy_def bucket_allow_def split: option.splits if_splits bind_splits)
  let ?new = "\<lambda>now. new_bucket_at now limit"
  have new: ?thesis if "unix_secs c = Some now"
      "allow_policy c c' n m l = Some (fst (allow_at now' (?new now)),
         l\<lparr>policy_limiters := (policy_limiters l)(n \<mapsto> snd (allow_at now' (?new now)))\<rparr>)" for now
    using that assms limited [of limit now' "?new now"] Some by simp
  show ?thesis
  proof (cases "policy_limiters l n")
    case None
    then show ?thesis using assms Some now' new
      by (auto simp: allow_policy_def bucket_allow_def new_bucket_def split_beta
          split: option.splits bind_splits)
  next
    case b: (Some b)
    show ?thesis
    proof (cases "max_per_minute b = limit")
      case True
      then show ?thesis using assms Some now' b limited [of limit now' b]
        by (auto simp: allow_policy_def bucket_allow_def split_beta)
    next
      case False
      then show ?thesis using assms Some now' b new
        by (auto simp: allow_policy_def bucket_allow_def new_bucket_def split_beta
            split: option.splits bind_splits)
    qed
  qed
qed

section \<open>Invariant and frame\<close>

definition limiter_ok :: "RateLimiter \<Rightarrow> bool" where
  "limiter_ok l \<longleftrightarrow>
     bucket_ok (global_limiter l) \<and> (\<forall>n b. policy_limiters l n = Some b \<longrightarrow> bucket_ok b)"

lemma limiter_ok_new: "new_limiter c m = Some l \<Longrightarrow> limiter_ok l"
  by (auto simp: new_limiter_def new_bucket_def limiter_ok_def split: option.splits)

lemma limiter_ok_allow_global:
  "allow_global c l = Some (g, l') \<Longrightarrow> limiter_ok l \<Longrightarrow> limiter_ok l'"
  by (erule allow_globalE) (simp add: limiter_ok_def bucket_ok_allow)

lemma limiter_ok_allow_policy:
  "allow_policy c c' n m l = Some (g, l') \<Longrightarrow> limiter_ok l \<Longrightarrow> limiter_ok l'"
  by (erule allow_policyE) (auto simp: limiter_ok_def intro: bucket_ok_allow)

lemma allow_policy_global [frame_simps]:
  "allow_policy c c' n m l = Some (g, l') \<Longrightarrow> global_limiter l' = global_limiter l"
  by (erule allow_policyE) simp_all

lemma allow_policy_other [frame_simps]:
  "allow_policy c c' n m l = Some (g, l') \<Longrightarrow> n' \<noteq> n \<Longrightarrow>
     policy_limiters l' n' = policy_limiters l n'"
  by (erule allow_policyE) simp_all

lemma allow_global_policies [frame_simps]:
  "allow_global c l = Some (g, l') \<Longrightarrow> policy_limiters l' = policy_limiters l"
  by (erule allow_globalE) simp

section \<open>The bucket of one policy as a token source\<close>

text \<open>
  A policy without a bucket of its current limit has no window open: the next call creates
  one. Both clock readings of a call are taken to fall in the same second here.
\<close>

definition policy_bucket :: "string \<Rightarrow> u64 \<Rightarrow> RateLimiter \<Rightarrow> TokenBucket option" where
  "policy_bucket n limit l =
     (case policy_limiters l n of
        Some b \<Rightarrow> if max_per_minute b = limit then Some b else None
      | None \<Rightarrow> None)"

definition policy_remaining :: "string \<Rightarrow> u64 \<Rightarrow> RateLimiter \<Rightarrow> nat" where
  "policy_remaining n limit l =
     (case policy_bucket n limit l of Some b \<Rightarrow> unat (tokens b) | None \<Rightarrow> unat limit)"

definition policy_start :: "string \<Rightarrow> u64 \<Rightarrow> RateLimiter \<Rightarrow> int" where
  "policy_start n limit l =
     (case policy_bucket n limit l of Some b \<Rightarrow> int (unat (last_reset b)) | None \<Rightarrow> - 60)"

lemma allow_policy_at_bucket:
  "allow_policy_at now now' n limit l =
     (let b = (case policy_bucket n limit l of Some b \<Rightarrow> b | None \<Rightarrow> new_bucket_at now limit)
      in (fst (allow_at now' b),
          l\<lparr>policy_limiters := (policy_limiters l)(n \<mapsto> snd (allow_at now' b))\<rparr>))"
  by (auto simp: allow_policy_at_def policy_bucket_def split_beta Let_def split: option.split)

lemma policy_bucket_after:
  "policy_bucket n limit (snd (allow_policy_at now now' n limit l)) =
     Some (snd (allow_at now'
       (case policy_bucket n limit l of Some b \<Rightarrow> b | None \<Rightarrow> new_bucket_at now limit)))"
  by (auto simp: allow_policy_at_bucket policy_bucket_def Let_def split: option.split)

lemma allow_at_fresh:
  "allow_at now (new_bucket_at now limit) = take_token (new_bucket_at now limit)"
  by (rule allow_at_in_window) (simp add: new_bucket_at_def)

lemma allow_at_fresh_granted: "fst (allow_at now (new_bucket_at now limit)) \<longleftrightarrow> 0 < limit"
  unfolding allow_at_fresh by (simp add: take_token_def new_bucket_at_def)

lemma limiter_ok_policy_bucket:
  "limiter_ok l \<Longrightarrow> policy_bucket n limit l = Some b \<Longrightarrow> bucket_ok b \<and> max_per_minute b = limit"
  by (auto simp: limiter_ok_def policy_bucket_def split: option.splits if_splits)

interpretation policy_source:
  token_source "\<lambda>t. allow_policy_at t t n limit" "policy_remaining n limit" "unat limit"
    "policy_start n limit" limiter_ok
  for n :: string and limit :: u64
proof
  fix l :: RateLimiter and t :: u64
  assume ok: "limiter_ok l"
  show "limiter_ok (snd (allow_policy_at t t n limit l))"
    using ok by (auto simp: allow_policy_at_bucket limiter_ok_def Let_def policy_bucket_def
        intro!: bucket_ok_allow split: option.split)
  show "policy_remaining n limit l \<le> unat limit"
    using limiter_ok_policy_bucket [OF ok, of n limit]
    by (auto simp: policy_remaining_def bucket_ok_def word_le_nat_alt split: option.split)
  show "fst (allow_policy_at t t n limit l) = (0 < policy_remaining n limit l)
      \<and> policy_remaining n limit (snd (allow_policy_at t t n limit l)) = policy_remaining n limit l - 1
      \<and> policy_start n limit (snd (allow_policy_at t t n limit l)) = policy_start n limit l"
    if "int (unat t) < policy_start n limit l + 60"
  proof (cases "policy_bucket n limit l")
    case None
    then show ?thesis using that by (simp add: policy_start_def)
  next
    case (Some b)
    then show ?thesis
      using that bucket_source.in_window [of b limit t] limiter_ok_policy_bucket [OF ok Some]
        policy_bucket_after [of n limit t t l]
      by (simp add: policy_start_def policy_remaining_def allow_policy_at_bucket Let_def)
  qed
  show "fst (allow_policy_at t t n limit l) = (0 < unat limit)
      \<and> policy_remaining n limit (snd (allow_policy_at t t n limit l)) = unat limit - 1
      \<and> policy_start n limit (snd (allow_policy_at t t n limit l)) = int (unat t)"
    if "policy_start n limit l + 60 \<le> int (unat t)"
  proof (cases "policy_bucket n limit l")
    case None
    then show ?thesis
      using policy_bucket_after [of n limit t t l]
        bucket_source.in_window [of "new_bucket_at t limit" limit t]
      by (simp add: policy_start_def policy_remaining_def allow_policy_at_bucket Let_def
          new_bucket_at_def bucket_ok_def)
  next
    case (Some b)
    then show ?thesis
      using that bucket_source.new_window [of b limit t] limiter_ok_policy_bucket [OF ok Some]
        policy_bucket_after [of n limit t t l]
      by (simp add: policy_start_def policy_remaining_def allow_policy_at_bucket Let_def)
  qed
qed

section \<open>Runs of calls for one policy\<close>

text \<open>
  A run of calls for the policy \<open>n\<close>, each with the instant at which it reads the clock and
  the limit the policy has at that time; the result lists which calls were granted.
\<close>

fun policy_run ::
  "string \<Rightarrow> (instant \<times> i32 option) list \<Rightarrow> RateLimiter \<Rightarrow> (bool list \<times> RateLimiter) option" where
  "policy_run n [] l = Some ([], l)"
| "policy_run n ((c, m) # calls) l =
     do { (g, l') \<leftarrow> allow_policy c c n m l;
          (gs, l'') \<leftarrow> policy_run n calls l';
          Some (g # gs, l'') }"

definition second_of :: "instant \<Rightarrow> u64" where
  "second_of c = word_of_int (c div nanos_per_sec)"

lemma unix_secs_second_of: "0 \<le> c \<Longrightarrow> unix_secs c = Some (second_of c)"
  by (simp add: unix_secs_def second_of_def)

lemma unat_second_of:
  "0 \<le> c \<Longrightarrow> c < 2 ^ 64 * nanos_per_sec \<Longrightarrow> int (unat (second_of c)) = c div nanos_per_sec"
  using unat_unix_secs [of c] by (simp add: unix_secs_second_of)

lemma effective_limit_pos: "0 < sint m \<Longrightarrow> effective_limit (Some m) = Some (scast m)"
  by (simp add: effective_limit_def)

lemma effective_limit_gt_0:
  assumes "effective_limit m = Some limit"
  shows "0 < limit"
proof -
  obtain l :: i32 where l: "0 < sint l" "limit = scast l"
    using assms by (auto simp: effective_limit_def split: option.splits if_splits)
  then have "int (unat limit) = sint l" using unat_scast_i32 [of l] by (simp add: l(2))
  then have "0 < unat limit" using l(1) by linarith
  then show ?thesis by (simp add: unat_gt_0 word_gt_0)
qed

lemma policy_run_grant_count:
  assumes "effective_limit m = Some limit" and "\<forall>c \<in> set cs. 0 \<le> c"
  shows "\<exists>gs l'. policy_run n (map (\<lambda>c. (c, m)) cs) l = Some (gs, l')
           \<and> count_list gs True
               = grant_count (\<lambda>t. allow_policy_at t t n limit) (map second_of cs) l"
  using assms(2)
proof (induction cs arbitrary: l)
  case (Cons c cs)
  have "allow_policy c c n m l
      = Some (allow_policy_at (second_of c) (second_of c) n limit l)"
    using Cons.prems assms(1) by (simp add: allow_policy_eq_at unix_secs_second_of)
  then show ?case
    using Cons.IH [of "snd (allow_policy_at (second_of c) (second_of c) n limit l)"] Cons.prems
    by (auto simp: split_beta)
qed simp

text \<open>
  A policy with the limit \<open>m\<close> is granted at most \<open>m\<close> deletions for the window open at
  the second \<open>A\<close> and \<open>m\<close> more for each further started minute up to the second \<open>T\<close>, in
  whatever order the clock is read; and no call of such a run panics.
\<close>

theorem policy_span_bound:
  assumes "limiter_ok l" and "0 < sint m" and "0 \<le> A" and "A \<le> T" and "T < 2 ^ 64 - 1"
    and "\<forall>c \<in> set cs. A * nanos_per_sec \<le> c \<and> c < (T + 1) * nanos_per_sec"
  shows "\<exists>gs l'. policy_run n (map (\<lambda>c. (c, Some m)) cs) l = Some (gs, l')
           \<and> int (count_list gs True) \<le> sint m * (1 + (T - A + 59) div 60)"
proof -
  have c: "0 \<le> c \<and> A \<le> int (unat (second_of c)) \<and> int (unat (second_of c)) \<le> T"
    if "c \<in> set cs" for c
  proof -
    have "A * nanos_per_sec \<le> c" "c < (T + 1) * nanos_per_sec" using assms(6) that by auto
    then show ?thesis using unat_second_of [of c] assms(3,5) by auto
  qed
  obtain gs l' where run: "policy_run n (map (\<lambda>c. (c, Some m)) cs) l = Some (gs, l')"
    and gs: "count_list gs True
       = grant_count (\<lambda>t. allow_policy_at t t n (scast m)) (map second_of cs) l"
    using policy_run_grant_count [OF effective_limit_pos [OF assms(2)], of cs n l] c by blast
  have "int (count_list gs True) \<le> int (unat (scast m :: u64)) * (1 + (T - A + 59) div 60)"
    unfolding gs by (rule policy_source.grants_in_span) (use assms c in auto)
  then show ?thesis using run assms(2) unat_scast_i32 [of m] by auto
qed

theorem policy_span_bound_witness:
  "\<exists>gs l'. policy_run ''p'' (map (\<lambda>c. (c, Some 2)) [100 * nanos_per_sec, 130 * nanos_per_sec])
       \<lparr>global_limiter = new_bucket_at 0 9, policy_limiters = Map.empty\<rparr> = Some (gs, l')
     \<and> int (count_list gs True) \<le> sint (2 :: i32) * (1 + (130 - 100 + 59) div 60)"
  by (rule policy_span_bound) (simp_all add: limiter_ok_def)

text \<open>
  Calls for a policy neither read nor change the global bucket or the bucket of another
  policy, and a global call changes no policy's bucket.
\<close>

theorem limiters_independent:
  assumes "allow_policy c c' n m l = Some (g, l')"
  shows "global_limiter l' = global_limiter l
       \<and> (\<forall>n'. n' \<noteq> n \<longrightarrow> policy_limiters l' n' = policy_limiters l n')
       \<and> (allow_global c l = Some (h, l'') \<longrightarrow> policy_limiters l'' = policy_limiters l)"
  using allow_policy_global [OF assms] allow_policy_other [OF assms] allow_global_policies
  by blast

theorem limiters_independent_witness:
  "\<exists>g l'. allow_policy 0 0 ''p'' (Some 1)
       \<lparr>global_limiter = new_bucket_at 0 9, policy_limiters = Map.empty\<rparr> = Some (g, l')
     \<and> global_limiter l' = new_bucket_at 0 9 \<and> policy_limiters l' ''q'' = None"
proof -
  let ?l = "\<lparr>global_limiter = new_bucket_at 0 9, policy_limiters = Map.empty\<rparr>"
  obtain g l' where r: "allow_policy 0 0 ''p'' (Some 1) ?l = Some (g, l')"
    using allow_policy_total [of 0 0] by force
  show ?thesis using limiters_independent [OF r] r by auto
qed

lemma scast_i32_inject:
  assumes "0 < sint (m :: i32)" and "0 < sint (m' :: i32)"
    and "(scast m :: u64) = scast m'"
  shows "m = m'"
proof -
  have "sint m = sint m'"
    using assms unat_scast_i32 [of m] unat_scast_i32 [of m'] by simp
  then show ?thesis by (rule signed_word_eqI)
qed

text \<open>A call whose limit is not the one of the stored bucket starts from a full bucket.\<close>

lemma allow_policy_changed_limit:
  assumes "0 \<le> c" and "0 < sint m" and "policy_bucket n (scast m) l = None"
  shows "\<exists>l' b. allow_policy c c n (Some m) l = Some (True, l')
           \<and> policy_limiters l' n = Some b \<and> max_per_minute b = scast m"
proof -
  have "0 < (scast m :: u64)" by (rule effective_limit_gt_0 [OF effective_limit_pos [OF assms(2)]])
  then show ?thesis
    using allow_policy_eq_at [OF effective_limit_pos [OF assms(2)]
        unix_secs_second_of [OF assms(1)] unix_secs_second_of [OF assms(1)], of n l] assms(3)
    by (simp add: allow_policy_at_bucket Let_def allow_at_fresh_granted)
qed

text \<open>
  Buckets are keyed by the policy's name alone, so two policies of the same name in
  different namespaces share one. When their limits differ and their calls alternate, each
  call replaces the other's bucket by a full one, and no call is ever denied.
\<close>

theorem alternating_limits_never_denied:
  assumes "\<forall>(c, m) \<in> set calls. 0 \<le> c \<and> 0 < sint m" and "distinct_adj (map snd calls)"
    and "policy_limiters l n = None"
  shows "\<exists>l'. policy_run n (map (\<lambda>(c, m). (c, Some m)) calls) l
                = Some (replicate (length calls) True, l')"
proof -
  have "\<exists>l'. policy_run n (map (\<lambda>(c, m). (c, Some m)) calls) l
                = Some (replicate (length calls) True, l')"
    if "calls \<noteq> [] \<longrightarrow> policy_bucket n (scast (snd (hd calls))) l = None" for l
    using assms(1,2) that
  proof (induction calls arbitrary: l)
    case (Cons call calls)
    obtain c m where call: "call = (c, m)" by (cases call)
    obtain l' b where l': "allow_policy c c n (Some m) l = Some (True, l')"
        "policy_limiters l' n = Some b" "max_per_minute b = scast m"
      using allow_policy_changed_limit [of c m n l] Cons.prems call by auto
    have "policy_bucket n (scast (snd (hd calls))) l' = None" if "calls \<noteq> []"
    proof -
      have "snd (hd calls) \<noteq> m" "0 < sint (snd (hd calls))" "0 < sint m"
        using that Cons.prems call by (cases calls; auto)+
      then show ?thesis using l' scast_i32_inject [of "snd (hd calls)" m]
        by (auto simp: policy_bucket_def)
    qed
    moreover have "distinct_adj (map snd calls)"
      using Cons.prems(2) by (cases calls) simp_all
    ultimately show ?case using Cons.IH [of l'] Cons.prems l' call by auto
  qed simp
  then show ?thesis using assms(3) by (simp add: policy_bucket_def)
qed

theorem alternating_limits_never_denied_witness:
  "\<exists>l'. policy_run ''p'' (map (\<lambda>(c, m). (c, Some m)) [(0, 1), (1, 2), (2, 1), (3, 2)])
          \<lparr>global_limiter = new_bucket_at 0 9, policy_limiters = Map.empty\<rparr>
        = Some (replicate (length [(0 :: instant, 1 :: i32), (1, 2), (2, 1), (3, 2)]) True, l')"
  by (rule alternating_limits_never_denied) simp_all

end
