(* ===== verification/Event_Counters.thy ===== *)
theory Event_Counters
  imports Prelude "HOL-Library.Multiset"
begin

text \<open>
  The contract of the operator's counters: a set of \<open>u64\<close> cells that events add to, modulo
  \<open>2 ^ 64\<close>. What follows from it for any sequence of events is proved here once; the
  process-wide metrics and the counters of a policy status are its two instances.
\<close>

locale event_counters =
  fixes record_event :: "'e \<Rightarrow> 's \<Rightarrow> 's"
    and read :: "'c \<Rightarrow> 's \<Rightarrow> u64"
    and weight :: "'e \<Rightarrow> 'c \<Rightarrow> nat"
  assumes read_record: "read c (record_event e s) = read c s + of_nat (weight e c)"
begin

lemma read_fold:
  "read c (fold record_event es s) = read c s + of_nat (\<Sum>e\<leftarrow>es. weight e c)"
  by (induction es arbitrary: s) (simp_all add: read_record)

lemma read_order_independent:
  assumes "mset es = mset es'"
  shows "read c (fold record_event es s) = read c (fold record_event es' s)"
proof -
  have "(\<Sum>e\<leftarrow>es. weight e c) = (\<Sum>e\<leftarrow>es'. weight e c)"
    using assms by (metis mset_map sum_mset_sum_list)
  then show ?thesis by (simp add: read_fold)
qed

lemma read_fold_no_wrap:
  assumes "unat (read c s) + (\<Sum>e\<leftarrow>es. weight e c) < 2 ^ 64"
  shows "unat (read c (fold record_event es s)) = unat (read c s) + (\<Sum>e\<leftarrow>es. weight e c)"
  using assms by (simp add: read_fold unat_word_ariths unat_of_nat)

lemma read_fold_dominated:
  assumes "\<And>e. weight e a \<le> weight e b" and "unat (read a s) \<le> unat (read b s)"
    and "unat (read b s) + (\<Sum>e\<leftarrow>es. weight e b) < 2 ^ 64"
  shows "unat (read a (fold record_event es s)) \<le> unat (read b (fold record_event es s))"
proof -
  have "(\<Sum>e\<leftarrow>es. weight e a) \<le> (\<Sum>e\<leftarrow>es. weight e b)"
    using assms(1) by (intro sum_list_mono) simp
  then show ?thesis using assms(2,3) by (simp add: read_fold_no_wrap)
qed

end

end
