(* ===== verification/Metrics_Registry.thy ===== *)
theory Metrics_Registry
  imports Event_Counters Rust_Strings
begin

text \<open>
  \<open>src/metrics.rs\<close>: the five process-wide counters, their increments and getters, and the
  text of the \<open>/metrics\<close> endpoint. Each counter is an \<open>AtomicU64\<close> whose only write is
  \<open>fetch_add(1)\<close>, an atomic read-modify-write that wraps at \<open>2 ^ 64\<close>; an interleaving of
  increments by several threads is therefore a sequence of increments. \<open>log_status\<close> only
  logs.
\<close>

record Metrics =
  total_pods_evaluated :: u64
  total_pods_deleted :: u64
  total_policy_matches :: u64
  total_evaluation_errors :: u64
  total_rate_limited :: u64

definition new_metrics :: Metrics where
  "new_metrics = \<lparr>total_pods_evaluated = 0, total_pods_deleted = 0, total_policy_matches = 0,
     total_evaluation_errors = 0, total_rate_limited = 0\<rparr>"

definition increment_pods_evaluated :: "Metrics \<Rightarrow> Metrics" where
  "increment_pods_evaluated m = m\<lparr>total_pods_evaluated := total_pods_evaluated m + 1\<rparr>"

definition increment_pods_deleted :: "Metrics \<Rightarrow> Metrics" where
  "increment_pods_deleted m = m\<lparr>total_pods_deleted := total_pods_deleted m + 1\<rparr>"

definition increment_policy_matches :: "Metrics \<Rightarrow> Metrics" where
  "increment_policy_matches m = m\<lparr>total_policy_matches := total_policy_matches m + 1\<rparr>"

definition increment_evaluation_errors :: "Metrics \<Rightarrow> Metrics" where
  "increment_evaluation_errors m = m\<lparr>total_evaluation_errors := total_evaluation_errors m + 1\<rparr>"

definition increment_rate_limited :: "Metrics \<Rightarrow> Metrics" where
  "increment_rate_limited m = m\<lparr>total_rate_limited := total_rate_limited m + 1\<rparr>"

lemmas increment_defs =
  increment_pods_evaluated_def increment_pods_deleted_def increment_policy_matches_def
  increment_evaluation_errors_def increment_rate_limited_def

text \<open>The getters read one cell each.\<close>

definition get_pods_evaluated :: "Metrics \<Rightarrow> u64" where
  "get_pods_evaluated m = total_pods_evaluated m"

definition get_pods_deleted :: "Metrics \<Rightarrow> u64" where
  "get_pods_deleted m = total_pods_deleted m"

definition get_policy_matches :: "Metrics \<Rightarrow> u64" where
  "get_policy_matches m = total_policy_matches m"

definition get_evaluation_errors :: "Metrics \<Rightarrow> u64" where
  "get_evaluation_errors m = total_evaluation_errors m"

definition get_rate_limited :: "Metrics \<Rightarrow> u64" where
  "get_rate_limited m = total_rate_limited m"

lemmas getter_defs =
  get_pods_evaluated_def get_pods_deleted_def get_policy_matches_def
  get_evaluation_errors_def get_rate_limited_def

section \<open>The metrics as event counters\<close>

text \<open>A name for each counter, so that the five increments and getters form two families.\<close>

datatype Metric = PodsEvaluated | PodsDeleted | PolicyMatches | EvaluationErrors | RateLimited

fun increment :: "Metric \<Rightarrow> Metrics \<Rightarrow> Metrics" where
  "increment PodsEvaluated = increment_pods_evaluated"
| "increment PodsDeleted = increment_pods_deleted"
| "increment PolicyMatches = increment_policy_matches"
| "increment EvaluationErrors = increment_evaluation_errors"
| "increment RateLimited = increment_rate_limited"

fun get_metric :: "Metric \<Rightarrow> Metrics \<Rightarrow> u64" where
  "get_metric PodsEvaluated = get_pods_evaluated"
| "get_metric PodsDeleted = get_pods_deleted"
| "get_metric PolicyMatches = get_policy_matches"
| "get_metric EvaluationErrors = get_evaluation_errors"
| "get_metric RateLimited = get_rate_limited"

instantiation Metric :: enum
begin

definition "enum_Metric = [PodsEvaluated, PodsDeleted, PolicyMatches, EvaluationErrors, RateLimited]"

definition
  "enum_all_Metric P \<longleftrightarrow> P PodsEvaluated \<and> P PodsDeleted \<and> P PolicyMatches
     \<and> P EvaluationErrors \<and> P RateLimited"

definition
  "enum_ex_Metric P \<longleftrightarrow> P PodsEvaluated \<or> P PodsDeleted \<or> P PolicyMatches
     \<or> P EvaluationErrors \<or> P RateLimited"

instance
proof
  show "UNIV = set (enum_class.enum :: Metric list)"
    by (auto simp: enum_Metric_def intro: Metric.exhaust)
  show "distinct (enum_class.enum :: Metric list)"
    by (simp add: enum_Metric_def)
  show "enum_class.enum_all P \<longleftrightarrow> Ball UNIV P" for P :: "Metric \<Rightarrow> bool"
    by (auto simp: enum_all_Metric_def) (metis Metric.exhaust)
  show "enum_class.enum_ex P \<longleftrightarrow> Bex UNIV P" for P :: "Metric \<Rightarrow> bool"
    by (auto simp: enum_ex_Metric_def) (metis Metric.exhaust)
qed

end

lemma get_increment:
  "get_metric c (increment e m) = get_metric c m + of_nat (if e = c then 1 else 0)"
  by (cases c; cases e) (simp_all add: increment_defs getter_defs)

interpretation metric_counters:
  event_counters increment get_metric "\<lambda>e c. if e = c then 1 else 0"
  by unfold_locales (rule get_increment)

lemma sum_list_indicator: "(\<Sum>e\<leftarrow>es. if e = c then 1 else 0) = count_list es c"
  by (induction es) simp_all

text \<open>
  Whatever increments the threads of the operator perform and however they interleave,
  each counter ends at its start value plus the number of its own increments, modulo
  \<open>2 ^ 64\<close>; so the final counters do not depend on the interleaving.
\<close>

theorem metrics_count_increments:
  "get_metric c (fold increment es m) = get_metric c m + of_nat (count_list es c)"
  by (simp add: metric_counters.read_fold sum_list_indicator)

section \<open>The Prometheus text\<close>

abbreviation newline :: string where
  "newline \<equiv> [CHR 0x0A]"

definition prometheus_format :: "Metrics \<Rightarrow> string" where
  "prometheus_format m =
     ''# HELP kube_depod_pods_evaluated_total Total number of pods evaluated'' @ newline
   @ ''# TYPE kube_depod_pods_evaluated_total counter'' @ newline
   @ ''kube_depod_pods_evaluated_total {} '' @ show_uint (get_pods_evaluated m) @ newline
   @ newline
   @ ''# HELP kube_depod_pods_deleted_total Total number of pods deleted'' @ newline
   @ ''# TYPE kube_depod_pods_deleted_total counter'' @ newline
   @ ''kube_depod_pods_deleted_total {} '' @ show_uint (get_pods_deleted m) @ newline
   @ newline
   @ ''# HELP kube_depod_policy_matches_total Total number of policy matches'' @ newline
   @ ''# TYPE kube_depod_policy_matches_total counter'' @ newline
   @ ''kube_depod_policy_matches_total {} '' @ show_uint (get_policy_matches m) @ newline
   @ newline
   @ ''# HELP kube_depod_evaluation_errors_total Total number of evaluation errors'' @ newline
   @ ''# TYPE kube_depod_evaluation_errors_total counter'' @ newline
   @ ''kube_depod_evaluation_errors_total {} '' @ show_uint (get_evaluation_errors m) @ newline
   @ newline
   @ ''# HELP kube_depod_rate_limited_total Total number of rate limit hits'' @ newline
   @ ''# TYPE kube_depod_rate_limited_total counter'' @ newline
   @ ''kube_depod_rate_limited_total {} '' @ show_uint (get_rate_limited m) @ newline"

text \<open>
  The reader's side, as a scraper has it: cut the text into lines and read the sample of a
  metric off the line that starts with its name.
\<close>

fun split_lines :: "string \<Rightarrow> string list" where
  "split_lines [] = [[]]"
| "split_lines (c # cs) =
     (if c = CHR 0x0A then [] # split_lines cs
      else (case split_lines cs of [] \<Rightarrow> [[c]] | l # ls \<Rightarrow> (c # l) # ls))"

fun metric_name :: "Metric \<Rightarrow> string" where
  "metric_name PodsEvaluated = ''kube_depod_pods_evaluated_total''"
| "metric_name PodsDeleted = ''kube_depod_pods_deleted_total''"
| "metric_name PolicyMatches = ''kube_depod_policy_matches_total''"
| "metric_name EvaluationErrors = ''kube_depod_evaluation_errors_total''"
| "metric_name RateLimited = ''kube_depod_rate_limited_total''"

definition sample_of_line :: "string \<Rightarrow> string \<Rightarrow> u64 option" where
  "sample_of_line name l =
     (let p = name @ '' {} ''
      in if take (length p) l = p then parse_uint (drop (length p) l) else None)"

definition scrape :: "string \<Rightarrow> string \<Rightarrow> u64 option" where
  "scrape name text =
     (case List.map_filter (sample_of_line name) (split_lines text) of
        [] \<Rightarrow> None
      | v # _ \<Rightarrow> Some v)"

lemma split_lines_newline:
  "CHR 0x0A \<notin> set l \<Longrightarrow> split_lines (l @ CHR 0x0A # rest) = l # split_lines rest"
  by (induction l) auto

lemma newline_notin_show_uint [simp]: "CHR 0x0A \<notin> set (show_uint w)"
  by (simp add: show_uint_def show_nat_no_char to_digit_def)

text \<open>One metric's three lines, followed by the rest of the text.\<close>

definition metric_block :: "string \<Rightarrow> string \<Rightarrow> u64 \<Rightarrow> string \<Rightarrow> string" where
  "metric_block name help v rest =
     (''# HELP '' @ name @ '' '' @ help) @ CHR 0x0A # (''# TYPE '' @ name @ '' counter'')
       @ CHR 0x0A # (name @ '' {} '' @ show_uint v) @ CHR 0x0A # rest"

definition metric_lines :: "string \<Rightarrow> string \<Rightarrow> u64 \<Rightarrow> string list" where
  "metric_lines name help v =
     [''# HELP '' @ name @ '' '' @ help, ''# TYPE '' @ name @ '' counter'',
      name @ '' {} '' @ show_uint v]"

lemma split_lines_three:
  assumes "CHR 0x0A \<notin> set k" and "CHR 0x0A \<notin> set l" and "CHR 0x0A \<notin> set n"
  shows "split_lines (k @ CHR 0x0A # l @ CHR 0x0A # n @ CHR 0x0A # rest)
           = [k, l, n] @ split_lines rest"
  using assms by (simp add: split_lines_newline)

lemma split_lines_metric_block:
  assumes "CHR 0x0A \<notin> set name" and "CHR 0x0A \<notin> set help"
  shows "split_lines (metric_block name help v rest) = metric_lines name help v @ split_lines rest"
  unfolding metric_block_def metric_lines_def
  by (rule split_lines_three) (use assms in simp_all)

lemma prometheus_format_blocks:
  "prometheus_format m =
     metric_block (metric_name PodsEvaluated) ''Total number of pods evaluated''
       (get_pods_evaluated m) (CHR 0x0A #
     metric_block (metric_name PodsDeleted) ''Total number of pods deleted''
       (get_pods_deleted m) (CHR 0x0A #
     metric_block (metric_name PolicyMatches) ''Total number of policy matches''
       (get_policy_matches m) (CHR 0x0A #
     metric_block (metric_name EvaluationErrors) ''Total number of evaluation errors''
       (get_evaluation_errors m) (CHR 0x0A #
     metric_block (metric_name RateLimited) ''Total number of rate limit hits''
       (get_rate_limited m) []))))"
  by (simp add: prometheus_format_def metric_block_def)

lemma split_lines_prometheus:
  "split_lines (prometheus_format m) =
     metric_lines (metric_name PodsEvaluated) ''Total number of pods evaluated''
       (get_pods_evaluated m) @ [] #
     metric_lines (metric_name PodsDeleted) ''Total number of pods deleted''
       (get_pods_deleted m) @ [] #
     metric_lines (metric_name PolicyMatches) ''Total number of policy matches''
       (get_policy_matches m) @ [] #
     metric_lines (metric_name EvaluationErrors) ''Total number of evaluation errors''
       (get_evaluation_errors m) @ [] #
     metric_lines (metric_name RateLimited) ''Total number of rate limit hits''
       (get_rate_limited m) @ [[]]"
  by (simp add: prometheus_format_blocks split_lines_metric_block)

text \<open>
  The text of the metrics endpoint is faithful: a scraper that looks a metric up by its
  name reads back the value of that counter, for every metric and every \<open>u64\<close> value.
\<close>

theorem scrape_prometheus_format:
  "scrape (metric_name c) (prometheus_format m) = Some (get_metric c m)"
  by (cases c)
    (simp_all add: scrape_def split_lines_prometheus metric_lines_def sample_of_line_def parse_show_uint)

end
