(* ===== verification/Status_Updater.thy ===== *)
theory Status_Updater
  imports Crd Event_Counters
begin

text \<open>
  \<open>src/status_updater.rs\<close>: the operations on a policy's status. The list of conditions is a
  store with one entry per condition type; that contract is the locale \<open>keyed_store\<close>, of
  which \<open>update_condition\<close> is the instance. The text of the current time is an argument.
\<close>

section \<open>The operations\<close>

definition update_last_observed_time :: "string \<Rightarrow> DepodPolicyStatus \<Rightarrow> DepodPolicyStatus" where
  "update_last_observed_time now_text st = st\<lparr>last_observed_time := Some now_text\<rparr>"

definition record_pod_evaluated :: "string \<Rightarrow> DepodPolicyStatus \<Rightarrow> DepodPolicyStatus" where
  "record_pod_evaluated now_text st =
     update_last_observed_time now_text (st\<lparr>pods_evaluated := pods_evaluated st + 1\<rparr>)"

definition record_policy_match :: "string \<Rightarrow> DepodPolicyStatus \<Rightarrow> DepodPolicyStatus" where
  "record_policy_match now_text st =
     update_last_observed_time now_text
       (st\<lparr>pods_matched := pods_matched st + 1, pods_evaluated := pods_evaluated st + 1\<rparr>)"

definition record_pod_deleted :: "string \<Rightarrow> DepodPolicyStatus \<Rightarrow> DepodPolicyStatus" where
  "record_pod_deleted now_text st =
     update_last_observed_time now_text (st\<lparr>pods_deleted := pods_deleted st + 1\<rparr>)"

definition record_evaluation_error :: "string \<Rightarrow> DepodPolicyStatus \<Rightarrow> DepodPolicyStatus" where
  "record_evaluation_error now_text st =
     update_last_observed_time now_text (st\<lparr>evaluation_errors := evaluation_errors st + 1\<rparr>)"

definition update_condition :: "PolicyCondition \<Rightarrow> DepodPolicyStatus \<Rightarrow> DepodPolicyStatus" where
  "update_condition c st =
     st\<lparr>conditions :=
          filter (\<lambda>c'. cond_condition_type c' \<noteq> cond_condition_type c) (conditions st) @ [c]\<rparr>"

definition reset_counters :: "DepodPolicyStatus \<Rightarrow> DepodPolicyStatus" where
  "reset_counters st =
     st\<lparr>pods_evaluated := 0, pods_matched := 0, pods_deleted := 0, evaluation_errors := 0\<rparr>"

definition initialize :: "string \<Rightarrow> DepodPolicyStatus \<Rightarrow> DepodPolicyStatus" where
  "initialize now_text st =
     update_last_observed_time now_text (st\<lparr>conditions := [ready now_text]\<rparr>)"

definition mark_invalid_cel :: "string \<Rightarrow> string \<Rightarrow> DepodPolicyStatus \<Rightarrow> DepodPolicyStatus" where
  "mark_invalid_cel now_text message st =
     update_last_observed_time now_text (update_condition (invalid_cel now_text message) st)"

definition mark_invalid_spec :: "string \<Rightarrow> string \<Rightarrow> DepodPolicyStatus \<Rightarrow> DepodPolicyStatus" where
  "mark_invalid_spec now_text message st =
     update_last_observed_time now_text (update_condition (invalid_spec now_text message) st)"

definition mark_ready :: "string \<Rightarrow> DepodPolicyStatus \<Rightarrow> DepodPolicyStatus" where
  "mark_ready now_text st =
     update_last_observed_time now_text (update_condition (ready now_text) st)"

definition validate_and_update_when ::
  "string \<Rightarrow> When \<Rightarrow> DepodPolicyStatus \<Rightarrow> unit Result \<times> DepodPolicyStatus" where
  "validate_and_update_when now_text w st =
     (case validate_when w of
        Inr _ \<Rightarrow> (Inr (), if conditions st = [] then mark_ready now_text st else st)
      | Inl e \<Rightarrow> (Inl e, mark_invalid_spec now_text (error_to_string e) st))"

lemmas record_defs =
  record_pod_evaluated_def record_policy_match_def record_pod_deleted_def
  record_evaluation_error_def update_last_observed_time_def

lemmas mark_defs =
  mark_invalid_cel_def mark_invalid_spec_def mark_ready_def initialize_def
  update_last_observed_time_def

section \<open>A store with one entry per key\<close>

locale keyed_store =
  fixes put :: "'c \<Rightarrow> 's \<Rightarrow> 's"
    and entries :: "'s \<Rightarrow> 'c list"
    and key :: "'c \<Rightarrow> 'k"
  assumes entries_put: "entries (put c s) = filter (\<lambda>x. key x \<noteq> key c) (entries s) @ [c]"
begin

lemma distinct_keys_put:
  "distinct (map key (entries s)) \<Longrightarrow> distinct (map key (entries (put c s)))"
  by (auto simp: entries_put distinct_map filter_map inj_on_def)

lemma distinct_keys_fold:
  "distinct (map key (entries s)) \<Longrightarrow> distinct (map key (entries (fold put cs s)))"
  by (induction cs arbitrary: s) (auto intro: distinct_keys_put)

lemma filter_key_put:
  "filter (\<lambda>x. key x = k) (entries (put c s))
     = (if k = key c then [c] else filter (\<lambda>x. key x = k) (entries s))"
  by (auto simp: entries_put intro: filter_cong)

lemma put_absorb: "entries (put c (put c' s)) = entries (put c s)" if "key c = key c'"
  using that by (simp add: entries_put)

lemma entries_put_empty: "entries s = [] \<Longrightarrow> entries (put c s) = [c]"
  by (simp add: entries_put)

text \<open>After any sequence of puts, the entry of a key is the last one put under it.\<close>

lemma filter_key_fold:
  "filter (\<lambda>x. key x = k) (entries (fold put cs s))
     = (if \<exists>c \<in> set cs. key c = k
        then [last (filter (\<lambda>c. key c = k) cs)]
        else filter (\<lambda>x. key x = k) (entries s))"
proof (induction cs arbitrary: s)
  case (Cons c cs)
  have "filter (\<lambda>c. key c = k) cs = [] \<longleftrightarrow> (\<forall>c \<in> set cs. key c \<noteq> k)"
    by (auto simp: filter_empty_conv)
  then show ?case using Cons.IH [of "put c s"] by (auto simp: filter_key_put)
qed simp

end

interpretation cond_store: keyed_store update_condition conditions cond_condition_type
  by unfold_locales (simp add: update_condition_def)

text \<open>
  However often the condition of a status is updated, there is at most one condition of
  each type, and the one of a given type is the last that was set.
\<close>

theorem update_condition_last_per_type:
  "distinct (map cond_condition_type (conditions (fold update_condition cs default_status)))
   \<and> filter (\<lambda>c. cond_condition_type c = ty) (conditions (fold update_condition cs default_status))
       = (if \<exists>c \<in> set cs. cond_condition_type c = ty
          then [last (filter (\<lambda>c. cond_condition_type c = ty) cs)] else [])"
  using cond_store.distinct_keys_fold [of default_status cs]
    cond_store.filter_key_fold [of ty cs default_status]
  by (auto simp: default_status_def)

section \<open>The counters of a status\<close>

text \<open>The operations that touch a counter or a condition, with the current time each reads.\<close>

datatype StatusEvent =
    EvaluatedEvent string
  | MatchEvent string
  | DeletedEvent string
  | ErrorEvent string
  | ConditionEvent PolicyCondition

datatype StatusCounter = CountEvaluated | CountMatched | CountDeleted | CountErrors

fun record_status :: "StatusEvent \<Rightarrow> DepodPolicyStatus \<Rightarrow> DepodPolicyStatus" where
  "record_status (EvaluatedEvent t) = record_pod_evaluated t"
| "record_status (MatchEvent t) = record_policy_match t"
| "record_status (DeletedEvent t) = record_pod_deleted t"
| "record_status (ErrorEvent t) = record_evaluation_error t"
| "record_status (ConditionEvent c) = update_condition c"

fun status_counter :: "StatusCounter \<Rightarrow> DepodPolicyStatus \<Rightarrow> u64" where
  "status_counter CountEvaluated = pods_evaluated"
| "status_counter CountMatched = pods_matched"
| "status_counter CountDeleted = pods_deleted"
| "status_counter CountErrors = evaluation_errors"

fun status_weight :: "StatusEvent \<Rightarrow> StatusCounter \<Rightarrow> nat" where
  "status_weight (EvaluatedEvent _) c = (if c = CountEvaluated then 1 else 0)"
| "status_weight (MatchEvent _) c = (if c = CountEvaluated \<or> c = CountMatched then 1 else 0)"
| "status_weight (DeletedEvent _) c = (if c = CountDeleted then 1 else 0)"
| "status_weight (ErrorEvent _) c = (if c = CountErrors then 1 else 0)"
| "status_weight (ConditionEvent _) c = 0"

interpretation status_counters: event_counters record_status status_counter status_weight
proof
  show "status_counter c (record_status e s) = status_counter c s + of_nat (status_weight e c)"
    for c e s
    by (cases c; cases e) (simp_all add: record_defs update_condition_def)
qed

lemma status_weight_le_1: "status_weight e c \<le> 1"
  by (cases e) simp_all

lemma status_weight_matched: "status_weight e CountMatched \<le> status_weight e CountEvaluated"
  by (cases e) simp_all

lemma sum_status_weight_le: "(\<Sum>e\<leftarrow>es. status_weight e c) \<le> length es"
proof (induction es)
  case (Cons e es)
  then show ?case using status_weight_le_1 [of e c] by simp
qed simp

text \<open>
  After fewer than \<open>2 ^ 64\<close> recorded events a status counts truthfully: the evaluated pods
  are the evaluation and the match events, and the matched pods never exceed the evaluated
  ones.
\<close>

theorem status_counters_truthful:
  assumes "length es < 2 ^ 64"
  shows "unat (pods_evaluated (fold record_status es default_status))
           = length (filter (\<lambda>e. \<exists>t. e = EvaluatedEvent t \<or> e = MatchEvent t) es)
       \<and> unat (pods_matched (fold record_status es default_status))
           \<le> unat (pods_evaluated (fold record_status es default_status))"
proof -
  have "(\<Sum>e\<leftarrow>es. status_weight e CountEvaluated) < 2 ^ 64"
    using sum_status_weight_le [of CountEvaluated es] assms by simp
  moreover have "(\<Sum>e\<leftarrow>es. status_weight e CountEvaluated)
      = length (filter (\<lambda>e. \<exists>t. e = EvaluatedEvent t \<or> e = MatchEvent t) es)"
  proof (induction es)
    case (Cons e es)
    then show ?case by (cases e) simp_all
  qed simp
  ultimately show ?thesis
    using status_counters.read_fold_no_wrap [of CountEvaluated default_status es]
      status_counters.read_fold_dominated
        [of CountMatched CountEvaluated default_status es, OF status_weight_matched]
    by (simp add: default_status_def)
qed

theorem status_counters_truthful_witness:
  "length [MatchEvent ''t'', ErrorEvent ''t''] < (2::nat) ^ 64
   \<and> unat (pods_evaluated (fold record_status [MatchEvent ''t'', ErrorEvent ''t''] default_status))
       = length (filter (\<lambda>e. \<exists>t. e = EvaluatedEvent t \<or> e = MatchEvent t)
           [MatchEvent ''t'', ErrorEvent ''t''])"
  using status_counters_truthful [of "[MatchEvent ''t'', ErrorEvent ''t'']"] by simp

section \<open>Validation of a condition through the status\<close>

lemma status_counter_frame [simp, frame_simps]:
  "status_counter c (st\<lparr>conditions := cs, last_observed_time := t\<rparr>) = status_counter c st"
  by (cases c) simp_all

text \<open>
  Validating a \<open>when\<close> through the status returns what the validation returns and leaves
  the counters alone. A failure leaves exactly one InvalidSpec condition, with the text of the
  error, and every condition of another type; a success only touches a status that has no
  condition at all, which becomes Ready.
\<close>

theorem validate_and_update_when_result:
  "fst (validate_and_update_when t w st) = validate_when w
   \<and> conditions (snd (validate_and_update_when t w st))
       = (case validate_when w of
            Inl e \<Rightarrow> filter (\<lambda>c. cond_condition_type c \<noteq> ''InvalidSpec'') (conditions st)
                       @ [invalid_spec t (error_to_string e)]
          | Inr _ \<Rightarrow> if conditions st = [] then [ready t] else conditions st)
   \<and> (\<forall>c. status_counter c (snd (validate_and_update_when t w st)) = status_counter c st)"
  by (cases "validate_when w")
    (simp_all add: validate_and_update_when_def mark_defs update_condition_def condition_defs)

text \<open>
  Once a validation has failed, a later successful validation does not clear the verdict:
  the InvalidSpec condition with status True is still among the conditions, and no Ready
  condition is added.
\<close>

theorem invalid_spec_survives_valid_update:
  assumes "validate_when bad = Inl e" and "validate_when good = Inr ()"
  shows "conditions (snd (validate_and_update_when t' good
             (snd (validate_and_update_when t bad default_status))))
           = [invalid_spec t (error_to_string e)]"
  using assms
  by (simp add: validate_and_update_when_def mark_defs update_condition_def default_status_def)

theorem invalid_spec_survives_valid_update_witness:
  "conditions (snd (validate_and_update_when ''12:01''
       \<lparr>condition_type = Builtin, expression = None, ttl_seconds = Some 600\<rparr>
       (snd (validate_and_update_when ''12:00''
         \<lparr>condition_type = Builtin, expression = None, ttl_seconds = None\<rparr> default_status))))
     = [invalid_spec ''12:00''
          ''CRD validation error: when.ttlSeconds required for Builtin type'']"
  using invalid_spec_survives_valid_update
    [of "\<lparr>condition_type = Builtin, expression = None, ttl_seconds = None\<rparr>"
        "ValidationError ''when.ttlSeconds required for Builtin type''"
        "\<lparr>condition_type = Builtin, expression = None, ttl_seconds = Some 600\<rparr>"
        "''12:01''" "''12:00''"]
  by (simp add: validate_when_def)

end
