(* ===== verification/Config_Env.thy ===== *)
theory Config_Env
  imports Rust_Strings
begin

text \<open>
  \<open>src/config.rs\<close>: the configuration read from the environment. The environment is the
  function that \<open>std::env::var(..).ok()\<close> gives: \<^term>\<open>None\<close> for a variable that is not set
  or is not UTF-8. A \<open>Duration\<close> made by \<open>from_secs\<close> is its number of seconds.
\<close>

type_synonym environment = "string \<Rightarrow> string option"

record Config =
  rate_limit_per_minute :: u64
  pod_patch_concurrency_limit :: usize
  server_port :: u16
  operator_pod_name :: string
  periodic_resync_interval :: "u64 option"

text \<open>\<open>std::env::var(name).ok().and_then(|v| v.parse().ok())\<close>.\<close>

definition env_uint :: "environment \<Rightarrow> string \<Rightarrow> 'a::len word option" where
  "env_uint env name = (case env name of None \<Rightarrow> None | Some v \<Rightarrow> parse_uint v)"

definition unwrap_or :: "'a option \<Rightarrow> 'a \<Rightarrow> 'a" where
  "unwrap_or x d = (case x of None \<Rightarrow> d | Some v \<Rightarrow> v)"

definition or_else :: "'a option \<Rightarrow> 'a option \<Rightarrow> 'a option" where
  "or_else x y = (case x of None \<Rightarrow> y | Some v \<Rightarrow> Some v)"

definition from_env :: "environment \<Rightarrow> Config" where
  "from_env env =
     \<lparr>rate_limit_per_minute = unwrap_or (env_uint env ''RATE_LIMIT_PER_MINUTE'') 20,
      pod_patch_concurrency_limit = unwrap_or (env_uint env ''POD_PATCH_CONCURRENCY_LIMIT'') 10,
      server_port =
        unwrap_or (or_else (env_uint env ''SERVER_PORT'') (env_uint env ''SERVER_PORT_DOWNWARD'')) 8080,
      operator_pod_name = unwrap_or (env ''OPERATOR_POD_NAME'') ''kube-depod-unknown'',
      periodic_resync_interval =
        (if eq_ignore_ascii_case (unwrap_or (env ''RESYNC_ENABLE'') ''true'') ''true''
         then Some (unwrap_or (env_uint env ''RESYNC_INTERVAL_SECONDS'') 3600)
         else None)\<rparr>"

lemma unwrap_or_simps [simp]: "unwrap_or None d = d" "unwrap_or (Some v) d = v"
  by (simp_all add: unwrap_or_def)

lemma or_else_simps [simp]: "or_else None y = y" "or_else (Some v) y = Some v"
  by (simp_all add: or_else_def)

section \<open>Which values a variable can set\<close>

text \<open>
  A numeral a variable may hold: digits after at most one plus sign, with a value that fits.
\<close>

definition numeral_of :: "string \<Rightarrow> nat option" where
  "numeral_of v =
     (let digits = (case v of [] \<Rightarrow> [] | c # cs \<Rightarrow> if c = CHR ''+'' then cs else v)
      in if digits = [] then None else decimal_value 0 digits)"

lemma parse_uint_numeral_of:
  assumes len: "4 \<le> LENGTH('a::len)"
  shows "(parse_uint v :: 'a word option) =
     (case numeral_of v of
        None \<Rightarrow> None
      | Some n \<Rightarrow> if n < 2 ^ LENGTH('a) then Some (of_nat n) else None)"
  by (cases v)
    (simp_all add: numeral_of_def Let_def parse_digits_spec [OF len]
      del: parse_digits.simps decimal_value.simps split: option.split)

text \<open>
  A number is taken from its variable exactly when the variable holds a decimal numeral
  whose value fits the type, and it is then that value: 64 bits for the rate limit, the
  concurrency limit and the resync interval, 16 bits for the port. Anything else (not set,
  empty, signed minus, blanks, too large) falls back: to the default, and for the port first
  to the downward API's variable, read by the same rule.
\<close>

theorem from_env_numbers:
  "rate_limit_per_minute (from_env env) =
     (case Option.bind (env ''RATE_LIMIT_PER_MINUTE'') numeral_of of
        Some n \<Rightarrow> if n < 2 ^ 64 then of_nat n else 20 | None \<Rightarrow> 20)
   \<and> pod_patch_concurrency_limit (from_env env) =
     (case Option.bind (env ''POD_PATCH_CONCURRENCY_LIMIT'') numeral_of of
        Some n \<Rightarrow> if n < 2 ^ 64 then of_nat n else 10 | None \<Rightarrow> 10)
   \<and> server_port (from_env env) =
     (let downward = (case Option.bind (env ''SERVER_PORT_DOWNWARD'') numeral_of of
        Some n \<Rightarrow> if n < 2 ^ 16 then of_nat n else 8080 | None \<Rightarrow> 8080)
      in case Option.bind (env ''SERVER_PORT'') numeral_of of
        Some n \<Rightarrow> if n < 2 ^ 16 then of_nat n else downward | None \<Rightarrow> downward)"
  by (simp add: from_env_def env_uint_def parse_uint_numeral_of Let_def
      split: option.split bind_split)

text \<open>The environment a deployment writes to set a configuration.\<close>

definition config_env :: "Config \<Rightarrow> environment" where
  "config_env c =
     [''RATE_LIMIT_PER_MINUTE'' \<mapsto> show_uint (rate_limit_per_minute c),
      ''POD_PATCH_CONCURRENCY_LIMIT'' \<mapsto> show_uint (pod_patch_concurrency_limit c),
      ''SERVER_PORT'' \<mapsto> show_uint (server_port c),
      ''OPERATOR_POD_NAME'' \<mapsto> operator_pod_name c,
      ''RESYNC_ENABLE'' \<mapsto> (if periodic_resync_interval c = None then ''false'' else ''true''),
      ''RESYNC_INTERVAL_SECONDS'' \<mapsto> show_uint (unwrap_or (periodic_resync_interval c) 0)]"

text \<open>
  Every configuration can be set: reading back the environment that writes each field in
  decimal gives the configuration, whatever its numbers.
\<close>

theorem from_env_roundtrip: "from_env (config_env c) = c"
  by (cases c; cases "periodic_resync_interval c")
    (simp_all add: from_env_def config_env_def env_uint_def parse_show_uint
      eq_ignore_ascii_case_def to_ascii_lowercase_def)

text \<open>
  The periodic resync is on unless \<open>RESYNC_ENABLE\<close> is set to something other than the
  word true in any mix of cases; when it is off, the interval variable is not looked at.
\<close>

theorem from_env_resync:
  "(periodic_resync_interval (from_env env) = None
      \<longleftrightarrow> (\<exists>v. env ''RESYNC_ENABLE'' = Some v
             \<and> map to_ascii_lowercase v \<noteq> map to_ascii_lowercase ''true''))
   \<and> (\<forall>v. periodic_resync_interval (from_env env) = Some v \<longrightarrow>
        v = (case Option.bind (env ''RESYNC_INTERVAL_SECONDS'') numeral_of of
               Some n \<Rightarrow> if n < 2 ^ 64 then of_nat n else 3600 | None \<Rightarrow> 3600))"
  by (cases "env ''RESYNC_ENABLE''"; cases "env ''RESYNC_INTERVAL_SECONDS''")
    (simp_all add: from_env_def env_uint_def parse_uint_numeral_of eq_ignore_ascii_case_def
      split: option.split)

theorem from_env_resync_witness:
  "periodic_resync_interval (from_env [''RESYNC_ENABLE'' \<mapsto> ''TRUE'',
      ''RESYNC_INTERVAL_SECONDS'' \<mapsto> ''18446744073709551616'']) = Some 3600"
proof -
  let ?env = "[''RESYNC_ENABLE'' \<mapsto> ''TRUE'', ''RESYNC_INTERVAL_SECONDS'' \<mapsto> ''18446744073709551616'']"
  have "map to_ascii_lowercase ''TRUE'' = map to_ascii_lowercase ''true''" by code_simp
  then have "periodic_resync_interval (from_env ?env) \<noteq> None"
    using from_env_resync [of ?env] by simp
  then obtain v where v: "periodic_resync_interval (from_env ?env) = Some v" by blast
  have "numeral_of ''18446744073709551616'' = Some 18446744073709551616"
    by (simp add: numeral_of_def to_digit_def)
  then show ?thesis using from_env_resync [of ?env] v by simp
qed

end
