(* ===== verification/Operator_Context.thy ===== *)
theory Operator_Context
  imports Policy_Matching Cel_Engine Rate_Limiter Metrics_Registry Status_Updater Config_Env
begin

text \<open>
  The shared \<open>Context\<close> of \<open>src/lib.rs\<close> that both reconcilers work on, and what they see of
  the world outside: the requests they send to the API server with its answers, the clock, the
  CEL and JSON libraries. The world is a parameter of the model, the record \<open>World\<close>; its
  answers are functions of every request sent so far, so an answer may depend on the whole
  history.
\<close>

section \<open>Requests\<close>

text \<open>The fields of an \<open>Eviction\<close> that the source sets.\<close>

record Eviction =
  eviction_name :: string
  eviction_namespace :: string
  eviction_grace_period_seconds :: "i64 option"

text \<open>
  One constructor per call of the API client. An \<open>Api::namespaced\<close> handle gives its requests
  a namespace, an \<open>Api::all\<close> handle gives them none. The body of an eviction is the encoded
  \<open>Eviction\<close>, the patch of a pod its annotations, the patch of a policy its new status.
\<close>

datatype Request =
    DeletePod string string "u32 option"
  | EvictPod string string string
  | PatchPolicyStatus string string DepodPolicyStatus
  | ListPods "string option" "string option"
  | PatchPod "string option" string "(string \<times> string) list"

text \<open>
  The answers: an error is its text, a deletion and a patch answer nothing the source reads,
  an eviction answers the optional \<open>status\<close> of a \<open>Status\<close>. \<open>clock k\<close> is the \<open>k\<close>-th reading
  of the wall clock, \<open>to_rfc3339\<close> chrono's text of an instant, \<open>encode_eviction\<close>
  \<open>serde_json::to_vec\<close>. \<open>has_room limit k\<close> is whether \<open>for_each_concurrent\<close> with that limit
  takes another element while \<open>k\<close> of its futures are pending.
\<close>

record 'p World =
  cel :: "'p cel_lib"
  clock :: "nat \<Rightarrow> instant"
  to_rfc3339 :: "instant \<Rightarrow> string"
  encode_eviction :: "Eviction \<Rightarrow> string + string"
  delete_reply :: "Request list \<Rightarrow> string + unit"
  evict_reply :: "Request list \<Rightarrow> string + string option"
  list_reply :: "Request list \<Rightarrow> string + Pod list"
  patch_reply :: "Request list \<Rightarrow> string + unit"
  has_room :: "usize \<Rightarrow> nat \<Rightarrow> bool"

section \<open>The context\<close>

text \<open>
  \<open>client\<close> is the sequence of the requests sent through the client so far. The
  \<open>ArcSwap\<close> of the policies is the list it holds, the reflector's \<open>Store\<close> the list its
  \<open>state()\<close> gives, the evaluator its cache of programs. \<open>ticks\<close> counts the readings of
  the clock.
\<close>

record 'p Context =
  client :: "Request list"
  ctx_metrics :: Metrics
  evaluator :: "'p cache"
  policies :: "DepodPolicy list"
  policy_store :: "DepodPolicy list"
  rate_limiter :: RateLimiter
  ctx_operator_pod_name :: string
  ctx_periodic_resync_interval :: "u64 option"
  ctx_pod_patch_concurrency_limit :: usize
  ticks :: nat

text \<open>The next reading of the clock.\<close>

definition now_of :: "'p World \<Rightarrow> 'p Context \<Rightarrow> instant" where
  "now_of w ctx = clock w (ticks ctx)"

definition tick :: "nat \<Rightarrow> 'p Context \<Rightarrow> 'p Context" where
  "tick n ctx = ctx\<lparr>ticks := ticks ctx + n\<rparr>"

definition count_event :: "Metric \<Rightarrow> 'p Context \<Rightarrow> 'p Context" where
  "count_event c ctx = ctx\<lparr>ctx_metrics := increment c (ctx_metrics ctx)\<rparr>"

definition send :: "Request \<Rightarrow> 'p Context \<Rightarrow> 'p Context" where
  "send r ctx = ctx\<lparr>client := client ctx @ [r]\<rparr>"

text \<open>The two calls that ask the rate limiter, with the readings of the clock each makes.\<close>

definition ask_global :: "'p World \<Rightarrow> 'p Context \<Rightarrow> (bool \<times> 'p Context) option" where
  "ask_global w ctx =
     (case allow_global (now_of w ctx) (rate_limiter ctx) of
        None \<Rightarrow> None
      | Some (granted, l) \<Rightarrow> Some (granted, tick 1 (ctx\<lparr>rate_limiter := l\<rparr>)))"

definition ask_policy ::
  "'p World \<Rightarrow> string \<Rightarrow> i32 option \<Rightarrow> 'p Context \<Rightarrow> (bool \<times> 'p Context) option" where
  "ask_policy w name limit ctx =
     (case allow_policy (clock w (ticks ctx)) (clock w (ticks ctx + 1)) name limit (rate_limiter ctx) of
        None \<Rightarrow> None
      | Some (granted, l) \<Rightarrow> Some (granted, tick 2 (ctx\<lparr>rate_limiter := l\<rparr>)))"

section \<open>Frame\<close>

text \<open>What the operations leave alone.\<close>

lemma tick_frame [simp, frame_simps]:
  "client (tick n ctx) = client ctx"
  "ctx_metrics (tick n ctx) = ctx_metrics ctx"
  "evaluator (tick n ctx) = evaluator ctx"
  "policies (tick n ctx) = policies ctx"
  "policy_store (tick n ctx) = policy_store ctx"
  "rate_limiter (tick n ctx) = rate_limiter ctx"
  "ctx_operator_pod_name (tick n ctx) = ctx_operator_pod_name ctx"
  "ctx_periodic_resync_interval (tick n ctx) = ctx_periodic_resync_interval ctx"
  "ticks (tick n ctx) = ticks ctx + n"
  by (simp_all add: tick_def)

lemma count_event_frame [simp, frame_simps]:
  "client (count_event c ctx) = client ctx"
  "ctx_metrics (count_event c ctx) = increment c (ctx_metrics ctx)"
  "evaluator (count_event c ctx) = evaluator ctx"
  "policies (count_event c ctx) = policies ctx"
  "policy_store (count_event c ctx) = policy_store ctx"
  "rate_limiter (count_event c ctx) = rate_limiter ctx"
  "ctx_operator_pod_name (count_event c ctx) = ctx_operator_pod_name ctx"
  "ctx_periodic_resync_interval (count_event c ctx) = ctx_periodic_resync_interval ctx"
  "ticks (count_event c ctx) = ticks ctx"
  by (simp_all add: count_event_def)

lemma send_frame [simp, frame_simps]:
  "client (send r ctx) = client ctx @ [r]"
  "ctx_metrics (send r ctx) = ctx_metrics ctx"
  "evaluator (send r ctx) = evaluator ctx"
  "policies (send r ctx) = policies ctx"
  "policy_store (send r ctx) = policy_store ctx"
  "rate_limiter (send r ctx) = rate_limiter ctx"
  "ctx_operator_pod_name (send r ctx) = ctx_operator_pod_name ctx"
  "ctx_periodic_resync_interval (send r ctx) = ctx_periodic_resync_interval ctx"
  "ticks (send r ctx) = ticks ctx"
  by (simp_all add: send_def)

definition same_but_limiter :: "'p Context \<Rightarrow> 'p Context \<Rightarrow> bool" where
  "same_but_limiter ctx ctx' \<longleftrightarrow>
     ctx' = ctx\<lparr>rate_limiter := rate_limiter ctx', ticks := ticks ctx'\<rparr> \<and> ticks ctx \<le> ticks ctx'"

lemma ask_global_same: "ask_global w ctx = Some (g, ctx') \<Longrightarrow> same_but_limiter ctx ctx'"
  by (auto simp: ask_global_def same_but_limiter_def tick_def split: option.splits)

lemma ask_policy_same: "ask_policy w name limit ctx = Some (g, ctx') \<Longrightarrow> same_but_limiter ctx ctx'"
  by (auto simp: ask_policy_def same_but_limiter_def tick_def split: option.splits)

lemma same_but_limiter_frame:
  assumes "same_but_limiter ctx ctx'"
  shows "client ctx' = client ctx" "ctx_metrics ctx' = ctx_metrics ctx"
    "evaluator ctx' = evaluator ctx" "policies ctx' = policies ctx"
    "policy_store ctx' = policy_store ctx"
    "ctx_periodic_resync_interval ctx' = ctx_periodic_resync_interval ctx"
    "ctx_operator_pod_name ctx' = ctx_operator_pod_name ctx"
    "ticks ctx \<le> ticks ctx'"
proof -
  have e: "ctx' = ctx\<lparr>rate_limiter := rate_limiter ctx', ticks := ticks ctx'\<rparr>" and "ticks ctx \<le> ticks ctx'"
    using assms by (simp_all add: same_but_limiter_def)
  show "client ctx' = client ctx" by (subst e) simp
  show "ctx_metrics ctx' = ctx_metrics ctx" by (subst e) simp
  show "evaluator ctx' = evaluator ctx" by (subst e) simp
  show "policies ctx' = policies ctx" by (subst e) simp
  show "policy_store ctx' = policy_store ctx" by (subst e) simp
  show "ctx_periodic_resync_interval ctx' = ctx_periodic_resync_interval ctx" by (subst e) simp
  show "ctx_operator_pod_name ctx' = ctx_operator_pod_name ctx" by (subst e) simp
  show "ticks ctx \<le> ticks ctx'" by fact
qed

lemma ask_global_total: "0 \<le> now_of w ctx \<Longrightarrow> ask_global w ctx \<noteq> None"
  using allow_global_total [of "now_of w ctx" "rate_limiter ctx"]
  by (auto simp: ask_global_def)

lemma ask_policy_total:
  "0 \<le> clock w (ticks ctx) \<Longrightarrow> 0 \<le> clock w (ticks ctx + 1) \<Longrightarrow> ask_policy w name limit ctx \<noteq> None"
  using allow_policy_total [of "clock w (ticks ctx)" "clock w (ticks ctx + 1)" name limit "rate_limiter ctx"]
  by (auto simp: ask_policy_def)

section \<open>A sample world\<close>

text \<open>
  A clock that advances by a second per reading and an API server that grants everything, for
  the witnesses.
\<close>

definition sample_world :: "string World" where
  "sample_world =
     \<lparr>cel = var_lib, clock = (\<lambda>k. (1000 + int k) * nanos_per_sec), to_rfc3339 = (\<lambda>_. ''now''),
      encode_eviction = (\<lambda>e. Inr (eviction_namespace e @ ''/'' @ eviction_name e)),
      delete_reply = (\<lambda>_. Inr ()), evict_reply = (\<lambda>_. Inr None), list_reply = (\<lambda>_. Inr []),
      patch_reply = (\<lambda>_. Inr ()), has_room = (\<lambda>limit k. limit = 0 \<or> k < unat limit)\<rparr>"

definition sample_context :: "DepodPolicy list \<Rightarrow> string Context" where
  "sample_context ps =
     \<lparr>client = [], ctx_metrics = new_metrics, evaluator = new_cache, policies = ps,
      policy_store = ps,
      rate_limiter = \<lparr>global_limiter = new_bucket_at 1000 20, policy_limiters = Map.empty\<rparr>,
      ctx_operator_pod_name = ''op'', ctx_periodic_resync_interval = Some 3600,
      ctx_pod_patch_concurrency_limit = 10, ticks = 0\<rparr>"

lemma sample_context_simps [simp]:
  "client (sample_context ps) = []"
  "policies (sample_context ps) = ps"
  "policy_store (sample_context ps) = ps"
  "ticks (sample_context ps) = 0"
  by (simp_all add: sample_context_def)

lemma sample_coherent [simp]: "cache_coherent (cel sample_world) (evaluator (sample_context ps))"
  by (simp add: sample_context_def)

end
