(* ===== verification/Pod_Reconciler.thy ===== *)
theory Pod_Reconciler
  imports Operator_Context
begin

text \<open>
  \<open>reconcile_pod\<close> of \<open>src/controller.rs\<close> with its error policy: the loop over the cached
  policies that decides whether a pod is deleted, evicted, looked at again later or left
  alone. A call runs from its start to its end as one step here; a panic of a clock reading is
  \<^term>\<open>None\<close>. Log output is left out.
\<close>

section \<open>The reconciler\<close>

text \<open>How the body of the loop ends: the next policy, or the return of the function.\<close>

datatype outcome = Next "u64 option" | Return Action | Fail Error

text \<open>\<open>let condition_met = match ...\<close>, with the pending TTL requeue it updates.\<close>

definition builtin_condition ::
  "'p World \<Rightarrow> Pod \<Rightarrow> DepodPolicy \<Rightarrow> u64 option \<Rightarrow> 'p Context \<Rightarrow> bool \<times> u64 option \<times> 'p Context" where
  "builtin_condition w pod policy ttl_requeue ctx =
     (case ttl_seconds (spec_when (policy_spec policy)) of
        Some ttl \<Rightarrow>
          (let now = now_of w ctx; ctx1 = tick 1 ctx
           in if evaluate_ttl_condition pod ttl now then (True, ttl_requeue, ctx1)
              else (False,
                    (case calculate_ttl_requeue pod ttl now of
                       Some ttl_left \<Rightarrow>
                         (case ttl_requeue of
                            Some current \<Rightarrow> Some (min current ttl_left)
                          | None \<Rightarrow> Some ttl_left)
                     | None \<Rightarrow> ttl_requeue),
                    ctx1))
      | None \<Rightarrow> (False, ttl_requeue, count_event EvaluationErrors ctx))"

definition cel_condition ::
  "'p World \<Rightarrow> Pod \<Rightarrow> DepodPolicy \<Rightarrow> 'p Context \<Rightarrow> bool \<times> 'p Context" where
  "cel_condition w pod policy ctx =
     (case expression (spec_when (policy_spec policy)) of
        Some expr \<Rightarrow>
          (let (verdict, cache) = evaluate (cel w) (now_of w ctx) expr pod (evaluator ctx);
               ctx1 = tick 1 (ctx\<lparr>evaluator := cache\<rparr>)
           in (case verdict of
                 Inr condition_result \<Rightarrow> (condition_result, ctx1)
               | Inl (CelCompilationError _) \<Rightarrow> (False, count_event EvaluationErrors ctx1)
               | Inl (CelEvaluationError _) \<Rightarrow> (False, count_event EvaluationErrors ctx1)
               | Inl _ \<Rightarrow> (False, count_event EvaluationErrors ctx1)))
      | None \<Rightarrow> (False, count_event EvaluationErrors ctx))"

definition condition_met ::
  "'p World \<Rightarrow> Pod \<Rightarrow> DepodPolicy \<Rightarrow> u64 option \<Rightarrow> 'p Context \<Rightarrow> bool \<times> u64 option \<times> 'p Context" where
  "condition_met w pod policy ttl_requeue ctx =
     (case condition_type (spec_when (policy_spec policy)) of
        Builtin \<Rightarrow> builtin_condition w pod policy ttl_requeue ctx
      | CEL \<Rightarrow> (let (met, ctx1) = cel_condition w pod policy ctx in (met, ttl_requeue, ctx1)))"

text \<open>
  \<open>let global_allowed = ..; let policy_allowed = ..;\<close>: both limiters are asked, in this
  order and whatever the first one answers.
\<close>

definition check_rate_limits :: "'p World \<Rightarrow> DepodPolicy \<Rightarrow> 'p Context \<Rightarrow> (bool \<times> 'p Context) option" where
  "check_rate_limits w policy ctx =
     do { (global_allowed, ctx1) \<leftarrow> ask_global w ctx;
          (policy_allowed, ctx2) \<leftarrow>
            ask_policy w (policy_name_any policy)
              (max_deletes_per_minute (spec_limits (policy_spec policy))) ctx1;
          Some (global_allowed \<and> policy_allowed, ctx2) }"

definition rate_limited_return :: "'p Context \<Rightarrow> outcome \<times> 'p Context" where
  "rate_limited_return ctx = (Return (Requeue 10), count_event RateLimited ctx)"

definition delete_action ::
  "'p World \<Rightarrow> Pod \<Rightarrow> DepodPolicy \<Rightarrow> u64 option \<Rightarrow> 'p Context \<Rightarrow> (outcome \<times> 'p Context) option" where
  "delete_action w pod policy ttl_requeue ctx =
     (if dry_run (spec_then (policy_spec policy)) then Some (Next ttl_requeue, ctx)
      else do {
        (allowed, ctx1) \<leftarrow> check_rate_limits w policy ctx;
        if \<not> allowed then Some (rate_limited_return ctx1)
        else
          (let ctx2 = send (DeletePod (unwrap_or_default (pod_namespace pod)) (pod_name_any pod)
                        (map_option ucast (grace_period_seconds (spec_then (policy_spec policy))))) ctx1
           in (case delete_reply w (client ctx2) of
                 Inr _ \<Rightarrow> Some (Return AwaitChange, count_event PodsDeleted ctx2)
               | Inl _ \<Rightarrow> Some (Next ttl_requeue, count_event EvaluationErrors ctx2))) })"

definition pod_eviction :: "Pod \<Rightarrow> DepodPolicy \<Rightarrow> Eviction" where
  "pod_eviction pod policy =
     \<lparr>eviction_name = pod_name_any pod,
      eviction_namespace = unwrap_or_default (pod_namespace pod),
      eviction_grace_period_seconds = grace_period_seconds (spec_then (policy_spec policy))\<rparr>"

definition evict_action ::
  "'p World \<Rightarrow> Pod \<Rightarrow> DepodPolicy \<Rightarrow> u64 option \<Rightarrow> 'p Context \<Rightarrow> (outcome \<times> 'p Context) option" where
  "evict_action w pod policy ttl_requeue ctx =
     (if dry_run (spec_then (policy_spec policy)) then Some (Next ttl_requeue, ctx)
      else do {
        (allowed, ctx1) \<leftarrow> check_rate_limits w policy ctx;
        if \<not> allowed then Some (rate_limited_return ctx1)
        else
          (case encode_eviction w (pod_eviction pod policy) of
             Inl e \<Rightarrow> Some (Fail (SerdeError e), ctx1)
           | Inr eviction_bytes \<Rightarrow>
               (let ctx2 = send (EvictPod (unwrap_or_default (pod_namespace pod)) (pod_name_any pod)
                             eviction_bytes) ctx1
                in (case evict_reply w (client ctx2) of
                      Inr (Some status) \<Rightarrow>
                        if status = ''Success''
                        then Some (Return AwaitChange, count_event PodsDeleted ctx2)
                        else Some (Next ttl_requeue, count_event EvaluationErrors ctx2)
                    | Inr None \<Rightarrow> Some (Return AwaitChange, count_event PodsDeleted ctx2)
                    | Inl _ \<Rightarrow> Some (Next ttl_requeue, count_event EvaluationErrors ctx2)))) })"

definition protected_by :: "Pod \<Rightarrow> DepodPolicy \<Rightarrow> bool" where
  "protected_by pod policy =
     is_namespace_protected (unwrap_or_default (pod_namespace pod))
       (protect_system_namespaces (spec_limits (policy_spec policy)))
       (excluded_namespaces (spec_limits (policy_spec policy)))"

definition apply_policy ::
  "'p World \<Rightarrow> Pod \<Rightarrow> DepodPolicy \<Rightarrow> u64 option \<Rightarrow> 'p Context \<Rightarrow> (outcome \<times> 'p Context) option" where
  "apply_policy w pod policy ttl_requeue ctx =
     (if \<not> matches_policy pod policy then Some (Next ttl_requeue, ctx)
      else if \<not> check_trigger pod (annotation_key (spec_trigger (policy_spec policy)))
                 (annotation_values (spec_trigger (policy_spec policy)))
      then Some (Next ttl_requeue, ctx)
      else
        (let (met, ttl_requeue', ctx1) =
               condition_met w pod policy ttl_requeue (count_event PolicyMatches ctx)
         in if \<not> met then Some (Next ttl_requeue', ctx1)
            else if protected_by pod policy then Some (Next ttl_requeue', ctx1)
            else (case action_type (spec_then (policy_spec policy)) of
                    Delete \<Rightarrow> delete_action w pod policy ttl_requeue' ctx1
                  | Evict \<Rightarrow> evict_action w pod policy ttl_requeue' ctx1)))"

text \<open>The loop over the policies, and the action when it has run to its end.\<close>

fun apply_policies ::
  "'p World \<Rightarrow> Pod \<Rightarrow> DepodPolicy list \<Rightarrow> u64 option \<Rightarrow> 'p Context \<Rightarrow> (outcome \<times> 'p Context) option"
where
  "apply_policies w pod [] ttl_requeue ctx = Some (Next ttl_requeue, ctx)"
| "apply_policies w pod (policy # rest) ttl_requeue ctx =
     (case apply_policy w pod policy ttl_requeue ctx of
        None \<Rightarrow> None
      | Some (Next ttl_requeue', ctx1) \<Rightarrow> apply_policies w pod rest ttl_requeue' ctx1
      | Some (Return action, ctx1) \<Rightarrow> Some (Return action, ctx1)
      | Some (Fail e, ctx1) \<Rightarrow> Some (Fail e, ctx1))"

definition final_action :: "'p Context \<Rightarrow> u64 option \<Rightarrow> Action" where
  "final_action ctx ttl_requeue =
     (case ttl_requeue of
        Some ttl \<Rightarrow> Requeue ttl
      | None \<Rightarrow>
          (case ctx_periodic_resync_interval ctx of
             Some interval \<Rightarrow> Requeue interval
           | None \<Rightarrow> AwaitChange))"

definition finish :: "outcome \<times> 'p Context \<Rightarrow> Action Result \<times> 'p Context" where
  "finish r =
     (case r of
        (Return action, ctx) \<Rightarrow> (Inr action, ctx)
      | (Fail e, ctx) \<Rightarrow> (Inl e, ctx)
      | (Next ttl_requeue, ctx) \<Rightarrow> (Inr (final_action ctx ttl_requeue), ctx))"

definition reconcile_pod :: "'p World \<Rightarrow> Pod \<Rightarrow> 'p Context \<Rightarrow> (Action Result \<times> 'p Context) option" where
  "reconcile_pod w pod ctx =
     (let ctx1 = count_event PodsEvaluated ctx
      in map_option finish (apply_policies w pod (policies ctx1) None ctx1))"

definition error_policy_pod :: "Pod \<Rightarrow> Error \<Rightarrow> 'p Context \<Rightarrow> Action" where
  "error_policy_pod pod e ctx = Requeue 60"

section \<open>Deletion and eviction as one action\<close>

text \<open>
  What a policy asks of the API server for a pod, and which answers count as success; with
  these, deleting and evicting are the same action.
\<close>

definition deletion_request :: "'p World \<Rightarrow> Pod \<Rightarrow> DepodPolicy \<Rightarrow> string + Request" where
  "deletion_request w pod policy =
     (case action_type (spec_then (policy_spec policy)) of
        Delete \<Rightarrow>
          Inr (DeletePod (unwrap_or_default (pod_namespace pod)) (pod_name_any pod)
            (map_option ucast (grace_period_seconds (spec_then (policy_spec policy)))))
      | Evict \<Rightarrow>
          (case encode_eviction w (pod_eviction pod policy) of
             Inl e \<Rightarrow> Inl e
           | Inr body \<Rightarrow>
               Inr (EvictPod (unwrap_or_default (pod_namespace pod)) (pod_name_any pod) body)))"

fun request_succeeded :: "'p World \<Rightarrow> Request list \<Rightarrow> Request \<Rightarrow> bool" where
  "request_succeeded w history (DeletePod _ _ _) \<longleftrightarrow> delete_reply w history = Inr ()"
| "request_succeeded w history (EvictPod _ _ _) \<longleftrightarrow>
     evict_reply w history = Inr None \<or> evict_reply w history = Inr (Some ''Success'')"
| "request_succeeded w history _ \<longleftrightarrow> False"

definition removal_action ::
  "'p World \<Rightarrow> Pod \<Rightarrow> DepodPolicy \<Rightarrow> u64 option \<Rightarrow> 'p Context \<Rightarrow> (outcome \<times> 'p Context) option" where
  "removal_action w pod policy ttl_requeue ctx =
     (if dry_run (spec_then (policy_spec policy)) then Some (Next ttl_requeue, ctx)
      else do {
        (allowed, ctx1) \<leftarrow> check_rate_limits w policy ctx;
        if \<not> allowed then Some (rate_limited_return ctx1)
        else
          (case deletion_request w pod policy of
             Inl e \<Rightarrow> Some (Fail (SerdeError e), ctx1)
           | Inr r \<Rightarrow>
               if request_succeeded w (client (send r ctx1)) r
               then Some (Return AwaitChange, count_event PodsDeleted (send r ctx1))
               else Some (Next ttl_requeue, count_event EvaluationErrors (send r ctx1))) })"

lemma unit_sum_cases: "(case x of Inl e \<Rightarrow> f | Inr (u :: unit) \<Rightarrow> g) = (if x = Inr () then g else f)"
  by (cases x) simp_all

lemma delete_action_removal:
  "action_type (spec_then (policy_spec policy)) = Delete \<Longrightarrow>
     delete_action w pod policy ttl ctx = removal_action w pod policy ttl ctx"
  by (simp add: delete_action_def removal_action_def deletion_request_def Let_def unit_sum_cases
      cong: if_cong)

lemma evict_action_removal:
  "action_type (spec_then (policy_spec policy)) = Evict \<Longrightarrow>
     evict_action w pod policy ttl ctx = removal_action w pod policy ttl ctx"
  by (auto simp: evict_action_def removal_action_def deletion_request_def Let_def
      intro!: Option.bind_cong split: sum.split option.split)

text \<open>What has to hold of a pod before a policy is even asked about its condition.\<close>

definition selected :: "Pod \<Rightarrow> DepodPolicy \<Rightarrow> bool" where
  "selected pod policy \<longleftrightarrow>
     matches_policy pod policy
   \<and> check_trigger pod (annotation_key (spec_trigger (policy_spec policy)))
       (annotation_values (spec_trigger (policy_spec policy)))"

lemma apply_policy_cases:
  "apply_policy w pod policy ttl ctx =
     (if \<not> selected pod policy then Some (Next ttl, ctx)
      else (case condition_met w pod policy ttl (count_event PolicyMatches ctx) of
              (met, ttl', ctx1) \<Rightarrow>
                if \<not> met \<or> protected_by pod policy then Some (Next ttl', ctx1)
                else removal_action w pod policy ttl' ctx1))"
  by (auto simp: apply_policy_def selected_def delete_action_removal evict_action_removal Let_def
      split: prod.split ActionType.split)

text \<open>How an action that is not a dry run can end.\<close>

lemma removal_actionE:
  assumes "removal_action w pod policy ttl ctx1 = Some (out, ctx')"
    and "\<not> dry_run (spec_then (policy_spec policy))"
  obtains (limited) ctx2 where "check_rate_limits w policy ctx1 = Some (False, ctx2)"
      "out = Return (Requeue 10)" "ctx' = count_event RateLimited ctx2"
  | (unencodable) e where "check_rate_limits w policy ctx1 = Some (True, ctx')"
      "deletion_request w pod policy = Inl e" "out = Fail (SerdeError e)"
  | (removed) ctx2 r where "check_rate_limits w policy ctx1 = Some (True, ctx2)"
      "deletion_request w pod policy = Inr r" "request_succeeded w (client ctx2 @ [r]) r"
      "out = Return AwaitChange" "ctx' = count_event PodsDeleted (send r ctx2)"
  | (refused) ctx2 r where "check_rate_limits w policy ctx1 = Some (True, ctx2)"
      "deletion_request w pod policy = Inr r" "\<not> request_succeeded w (client ctx2 @ [r]) r"
      "out = Next ttl" "ctx' = count_event EvaluationErrors (send r ctx2)"
proof -
  obtain allowed ctx2 where l: "check_rate_limits w policy ctx1 = Some (allowed, ctx2)"
    using assms by (auto simp: removal_action_def split: bind_splits)
  consider (denied) "\<not> allowed" | (unencoded) e where "allowed" "deletion_request w pod policy = Inl e"
    | (sent) r where "allowed" "deletion_request w pod policy = Inr r"
    by (cases "deletion_request w pod policy") auto
  then show thesis
  proof cases
    case denied
    then show thesis using assms l limited [of ctx2]
      by (simp add: removal_action_def rate_limited_return_def)
  next
    case unencoded
    then show thesis using assms l unencodable [of e] by (simp add: removal_action_def)
  next
    case sent
    then show thesis using assms l removed [of ctx2 r] refused [of ctx2 r]
      by (cases "request_succeeded w (client ctx2 @ [r]) r") (simp_all add: removal_action_def)
  qed
qed

text \<open>How one policy can end, for proofs that start from its result.\<close>

lemma apply_policyE:
  assumes "apply_policy w pod policy ttl ctx = Some (out, ctx')"
  obtains (skipped) "\<not> selected pod policy" "out = Next ttl" "ctx' = ctx"
  | (idle) met ttl' where "selected pod policy"
      "condition_met w pod policy ttl (count_event PolicyMatches ctx) = (met, ttl', ctx')"
      "\<not> met \<or> protected_by pod policy \<or> dry_run (spec_then (policy_spec policy))"
      "out = Next ttl'"
  | (limited) ttl' ctx1 ctx2 where "selected pod policy"
      "condition_met w pod policy ttl (count_event PolicyMatches ctx) = (True, ttl', ctx1)"
      "check_rate_limits w policy ctx1 = Some (False, ctx2)"
      "out = Return (Requeue 10)" "ctx' = count_event RateLimited ctx2"
      "\<not> protected_by pod policy" "\<not> dry_run (spec_then (policy_spec policy))"
  | (unencodable) ttl' ctx1 e where "selected pod policy"
      "condition_met w pod policy ttl (count_event PolicyMatches ctx) = (True, ttl', ctx1)"
      "check_rate_limits w policy ctx1 = Some (True, ctx')"
      "deletion_request w pod policy = Inl e" "out = Fail (SerdeError e)"
      "\<not> protected_by pod policy" "\<not> dry_run (spec_then (policy_spec policy))"
  | (removed) ttl' ctx1 ctx2 r where "selected pod policy"
      "condition_met w pod policy ttl (count_event PolicyMatches ctx) = (True, ttl', ctx1)"
      "\<not> protected_by pod policy" "\<not> dry_run (spec_then (policy_spec policy))"
      "check_rate_limits w policy ctx1 = Some (True, ctx2)"
      "deletion_request w pod policy = Inr r"
      "request_succeeded w (client ctx2 @ [r]) r"
      "out = Return AwaitChange" "ctx' = count_event PodsDeleted (send r ctx2)"
  | (refused) ttl' ctx1 ctx2 r where "selected pod policy"
      "condition_met w pod policy ttl (count_event PolicyMatches ctx) = (True, ttl', ctx1)"
      "\<not> protected_by pod policy" "\<not> dry_run (spec_then (policy_spec policy))"
      "check_rate_limits w policy ctx1 = Some (True, ctx2)"
      "deletion_request w pod policy = Inr r"
      "\<not> request_succeeded w (client ctx2 @ [r]) r"
      "out = Next ttl'" "ctx' = count_event EvaluationErrors (send r ctx2)"
proof -
  obtain met ttl' ctx1 where c:
    "condition_met w pod policy ttl (count_event PolicyMatches ctx) = (met, ttl', ctx1)"
    by (cases "condition_met w pod policy ttl (count_event PolicyMatches ctx)") auto
  show thesis
  proof (cases "selected pod policy \<and> met \<and> \<not> protected_by pod policy
      \<and> \<not> dry_run (spec_then (policy_spec policy))")
    case False
    then show thesis using assms c skipped idle
      by (auto simp: apply_policy_cases removal_action_def split: if_splits)
  next
    case True
    then have np: "\<not> protected_by pod policy" and nd: "\<not> dry_run (spec_then (policy_spec policy))"
      and sel: "selected pod policy" by simp_all
    have c': "condition_met w pod policy ttl (count_event PolicyMatches ctx) = (True, ttl', ctx1)"
      using True c by simp
    have "removal_action w pod policy ttl' ctx1 = Some (out, ctx')"
      using assms c True by (simp add: apply_policy_cases)
    then show thesis using nd
    proof (cases rule: removal_actionE)
      case limited
      then show thesis using that(3) [OF sel c'] np nd by simp
    next
      case unencodable
      then show thesis using that(4) [OF sel c'] np nd by simp
    next
      case removed
      then show thesis using that(5) [OF sel c' np nd] by simp
    next
      case refused
      then show thesis using that(6) [OF sel c' np nd] by simp
    qed
  qed
qed

section \<open>What evaluating a condition does\<close>

text \<open>The condition of a policy at an instant, without the cache and without the counters.\<close>

definition condition_holds :: "'p cel_lib \<Rightarrow> Pod \<Rightarrow> DepodPolicy \<Rightarrow> instant \<Rightarrow> bool" where
  "condition_holds lib pod policy now \<longleftrightarrow>
     (case condition_type (spec_when (policy_spec policy)) of
        Builtin \<Rightarrow>
          (\<exists>ttl. ttl_seconds (spec_when (policy_spec policy)) = Some ttl
               \<and> evaluate_ttl_condition pod ttl now)
      | CEL \<Rightarrow>
          (\<exists>expr. expression (spec_when (policy_spec policy)) = Some expr
               \<and> uncached_evaluate lib now expr pod = Inr True))"

text \<open>The requeue a policy asks for when its TTL has not expired.\<close>

definition pending_ttl :: "Pod \<Rightarrow> instant \<Rightarrow> DepodPolicy \<Rightarrow> u64 option" where
  "pending_ttl pod now policy =
     (case (condition_type (spec_when (policy_spec policy)),
            ttl_seconds (spec_when (policy_spec policy))) of
        (Builtin, Some ttl) \<Rightarrow>
          if evaluate_ttl_condition pod ttl now then None else calculate_ttl_requeue pod ttl now
      | _ \<Rightarrow> None)"

fun earlier :: "u64 option \<Rightarrow> u64 option \<Rightarrow> u64 option" where
  "earlier None x = x"
| "earlier x None = x"
| "earlier (Some a) (Some b) = Some (min a b)"

lemma earlier_None [simp]: "earlier x None = x"
  by (cases x) simp_all

definition changes_condition :: "'p World \<Rightarrow> 'p Context \<Rightarrow> 'p Context \<Rightarrow> bool" where
  "changes_condition w ctx ctx' \<longleftrightarrow>
     client ctx' = client ctx \<and> policies ctx' = policies ctx \<and> policy_store ctx' = policy_store ctx
   \<and> rate_limiter ctx' = rate_limiter ctx
   \<and> ctx_periodic_resync_interval ctx' = ctx_periodic_resync_interval ctx
   \<and> (ctx_metrics ctx' = ctx_metrics ctx \<or> ctx_metrics ctx' = increment EvaluationErrors (ctx_metrics ctx))
   \<and> cache_coherent (cel w) (evaluator ctx')
   \<and> ticks ctx \<le> ticks ctx'"

lemma condition_met_result:
  assumes "cache_coherent (cel w) (evaluator ctx)"
    and "condition_met w pod policy ttl ctx = (met, ttl', ctx')"
  shows "met \<longleftrightarrow> condition_holds (cel w) pod policy (now_of w ctx)"
    and "ttl' = earlier ttl (pending_ttl pod (now_of w ctx) policy)"
    and "changes_condition w ctx ctx'"
    and "met \<Longrightarrow> ticks ctx < ticks ctx'"
proof -
  let ?when = "spec_when (policy_spec policy)"
  have "(met \<longleftrightarrow> condition_holds (cel w) pod policy (now_of w ctx))
      \<and> ttl' = earlier ttl (pending_ttl pod (now_of w ctx) policy)
      \<and> changes_condition w ctx ctx' \<and> (met \<longrightarrow> ticks ctx < ticks ctx')"
  proof (cases "condition_type ?when")
    case Builtin
    then show ?thesis using assms
      by (auto simp: condition_met_def builtin_condition_def condition_holds_def pending_ttl_def
          changes_condition_def Let_def split: option.splits if_splits)
  next
    case CEL
    show ?thesis
    proof (cases "expression ?when")
      case None
      then show ?thesis using assms CEL
        by (auto simp: condition_met_def cel_condition_def condition_holds_def pending_ttl_def
            changes_condition_def)
    next
      case (Some expr)
      obtain verdict cache where
        e: "evaluate (cel w) (now_of w ctx) expr pod (evaluator ctx) = (verdict, cache)"
        by (cases "evaluate (cel w) (now_of w ctx) expr pod (evaluator ctx)")
      have v: "verdict = uncached_evaluate (cel w) (now_of w ctx) expr pod"
        using evaluate_uncached [OF assms(1), of "now_of w ctx" expr pod] e by simp
      have c: "cache_coherent (cel w) cache"
        using evaluate_cache [OF assms(1), of "now_of w ctx" expr pod] e
          cache_coherent_update [OF assms(1), of expr] by simp
      show ?thesis using assms(2) CEL Some e v c
        by (auto simp: condition_met_def cel_condition_def condition_holds_def pending_ttl_def
            changes_condition_def Let_def split: sum.splits Error.splits)
    qed
  qed
  then show "met \<longleftrightarrow> condition_holds (cel w) pod policy (now_of w ctx)"
    and "ttl' = earlier ttl (pending_ttl pod (now_of w ctx) policy)"
    and "changes_condition w ctx ctx'"
    and "met \<Longrightarrow> ticks ctx < ticks ctx'" by simp_all
qed

section \<open>What asking the limiters does\<close>

lemma check_rate_limitsE:
  assumes "check_rate_limits w policy ctx = Some (allowed, ctx')"
  obtains now where "unix_secs (now_of w ctx) = Some now"
    and "same_but_limiter ctx ctx'" and "ticks ctx < ticks ctx'"
    and "global_limiter (rate_limiter ctx') = snd (allow_at now (global_limiter (rate_limiter ctx)))"
    and "allowed \<Longrightarrow> fst (allow_at now (global_limiter (rate_limiter ctx)))"
    and "limiter_ok (rate_limiter ctx) \<Longrightarrow> limiter_ok (rate_limiter ctx')"
proof -
  let ?ask = "ask_policy w (policy_name_any policy) (max_deletes_per_minute (spec_limits (policy_spec policy)))"
  obtain g ctx1 where g: "ask_global w ctx = Some (g, ctx1)"
    using assms by (cases "ask_global w ctx") (auto simp: check_rate_limits_def)
  obtain p where p: "?ask ctx1 = Some (p, ctx')" and allowed: "allowed = (g \<and> p)"
    using assms g by (cases "?ask ctx1") (auto simp: check_rate_limits_def)
  obtain l1 where l1: "allow_global (now_of w ctx) (rate_limiter ctx) = Some (g, l1)"
      "ctx1 = tick 1 (ctx\<lparr>rate_limiter := l1\<rparr>)"
    using g by (auto simp: ask_global_def split: option.splits)
  obtain l2 where l2: "allow_policy (clock w (ticks ctx1)) (clock w (ticks ctx1 + 1))
        (policy_name_any policy) (max_deletes_per_minute (spec_limits (policy_spec policy)))
        (rate_limiter ctx1) = Some (p, l2)"
      "ctx' = tick 2 (ctx1\<lparr>rate_limiter := l2\<rparr>)"
    using p by (auto simp: ask_policy_def split: option.splits)
  obtain now where now: "unix_secs (now_of w ctx) = Some now"
      "g = fst (allow_at now (global_limiter (rate_limiter ctx)))"
      "l1 = (rate_limiter ctx)\<lparr>global_limiter := snd (allow_at now (global_limiter (rate_limiter ctx)))\<rparr>"
    using l1(1) by (rule allow_globalE)
  have global: "global_limiter (rate_limiter ctx') = snd (allow_at now (global_limiter (rate_limiter ctx)))"
    using l1(2) l2 now(3) allow_policy_global by fastforce
  have same: "same_but_limiter ctx ctx'"
    using l1(2) l2(2) by (simp add: same_but_limiter_def tick_def)
  have ok: "limiter_ok (rate_limiter ctx) \<Longrightarrow> limiter_ok (rate_limiter ctx')"
    using limiter_ok_allow_global [OF l1(1)] limiter_ok_allow_policy [OF l2(1)] l1(2) l2(2) by simp
  show thesis
    by (rule that [OF now(1) same _ global _ ok]) (use l1(2) l2(2) now(2) allowed in simp_all)
qed

lemma check_rate_limits_total:
  assumes "\<forall>i. 0 \<le> clock w i"
  shows "\<exists>allowed ctx'. check_rate_limits w policy ctx = Some (allowed, ctx')"
proof -
  obtain g ctx1 where g: "ask_global w ctx = Some (g, ctx1)"
    using ask_global_total [of w ctx] assms by (auto simp: now_of_def)
  moreover obtain p ctx2 where "ask_policy w (policy_name_any policy)
      (max_deletes_per_minute (spec_limits (policy_spec policy))) ctx1 = Some (p, ctx2)"
    using ask_policy_total [of w ctx1] assms by fast
  ultimately show ?thesis by (simp add: check_rate_limits_def)
qed

section \<open>What one policy and the whole loop do\<close>

text \<open>
  When a request is justified by a policy: the policy selects the pod, does not protect its
  namespace, is not a dry run, asks for exactly this request, and its condition held at one of
  the given readings of the clock.
\<close>

definition justified :: "'p World \<Rightarrow> Pod \<Rightarrow> DepodPolicy \<Rightarrow> nat \<Rightarrow> nat \<Rightarrow> Request \<Rightarrow> bool" where
  "justified w pod policy lo hi r \<longleftrightarrow>
     selected pod policy \<and> \<not> protected_by pod policy
   \<and> \<not> dry_run (spec_then (policy_spec policy))
   \<and> deletion_request w pod policy = Inr r
   \<and> (\<exists>i. lo \<le> i \<and> i < hi \<and> condition_holds (cel w) pod policy (clock w i))"

text \<open>
  The effect of the loop, for the policies \<open>ps\<close>: it only adds justified requests, no more of
  them than the global bucket paid for, and leaves the rest of the context alone.
\<close>

definition loop_effect :: "'p World \<Rightarrow> Pod \<Rightarrow> DepodPolicy set \<Rightarrow> 'p Context \<Rightarrow> 'p Context \<Rightarrow> bool" where
  "loop_effect w pod ps ctx ctx' \<longleftrightarrow>
     policies ctx' = policies ctx \<and> policy_store ctx' = policy_store ctx
   \<and> ctx_periodic_resync_interval ctx' = ctx_periodic_resync_interval ctx
   \<and> cache_coherent (cel w) (evaluator ctx')
   \<and> ticks ctx \<le> ticks ctx'
   \<and> (limiter_ok (rate_limiter ctx) \<longrightarrow> limiter_ok (rate_limiter ctx'))
   \<and> (\<exists>rs. client ctx' = client ctx @ rs
         \<and> (\<forall>r \<in> set rs. \<exists>p \<in> ps. justified w pod p (ticks ctx) (ticks ctx') r))"

lemma justified_mono:
  "justified w pod p lo hi r \<Longrightarrow> lo' \<le> lo \<Longrightarrow> hi \<le> hi' \<Longrightarrow> justified w pod p lo' hi' r"
  unfolding justified_def by (meson le_trans less_le_trans)

lemma loop_effect_refl: "cache_coherent (cel w) (evaluator ctx) \<Longrightarrow> loop_effect w pod ps ctx ctx"
  by (simp add: loop_effect_def)

lemma loop_effect_trans:
  assumes "loop_effect w pod ps a b" and "loop_effect w pod ps b c"
  shows "loop_effect w pod ps a c"
proof -
  obtain rs where rs: "client b = client a @ rs"
      "\<forall>r \<in> set rs. \<exists>p \<in> ps. justified w pod p (ticks a) (ticks b) r"
    using assms(1) by (auto simp: loop_effect_def)
  obtain rs' where rs': "client c = client b @ rs'"
      "\<forall>r \<in> set rs'. \<exists>p \<in> ps. justified w pod p (ticks b) (ticks c) r"
    using assms(2) by (auto simp: loop_effect_def)
  have t: "ticks a \<le> ticks b" "ticks b \<le> ticks c" using assms by (simp_all add: loop_effect_def)
  have "\<forall>r \<in> set (rs @ rs'). \<exists>p \<in> ps. justified w pod p (ticks a) (ticks c) r"
    using rs(2) rs'(2) t justified_mono by (metis Un_iff order_refl set_append)
  then have "\<exists>rs. client c = client a @ rs
      \<and> (\<forall>r \<in> set rs. \<exists>p \<in> ps. justified w pod p (ticks a) (ticks c) r)"
    using rs(1) rs'(1) by (intro exI [of _ "rs @ rs'"]) simp
  then show ?thesis using assms t by (auto simp: loop_effect_def)
qed

lemma loop_effect_count: "loop_effect w pod ps ctx ctx' \<Longrightarrow> loop_effect w pod ps ctx (count_event c ctx')"
  by (simp add: loop_effect_def)

lemma loop_effect_condition:
  "changes_condition w ctx ctx' \<Longrightarrow> loop_effect w pod ps ctx ctx'"
  by (simp add: loop_effect_def changes_condition_def)

lemma loop_effect_limits:
  assumes "check_rate_limits w policy ctx = Some (allowed, ctx')"
    and "cache_coherent (cel w) (evaluator ctx)"
  shows "loop_effect w pod ps ctx ctx'"
  using assms(1)
  by (rule check_rate_limitsE)
    (use assms(2) in \<open>simp add: loop_effect_def same_but_limiter_frame\<close>)

lemma loop_effect_send:
  assumes "loop_effect w pod ps ctx ctx'" and "p \<in> ps"
    and "justified w pod p (ticks ctx) (ticks ctx') r"
  shows "loop_effect w pod ps ctx (send r ctx')"
proof -
  obtain rs where "client ctx' = client ctx @ rs"
      "\<forall>r \<in> set rs. \<exists>p \<in> ps. justified w pod p (ticks ctx) (ticks ctx') r"
    using assms(1) by (auto simp: loop_effect_def)
  then have "client (send r ctx') = client ctx @ (rs @ [r])
      \<and> (\<forall>q \<in> set (rs @ [r]). \<exists>p \<in> ps. justified w pod p (ticks ctx) (ticks ctx') q)"
    using assms(2,3) by auto
  then show ?thesis using assms(1) unfolding loop_effect_def by (simp only: send_frame) blast
qed

lemma loop_effect_mono: "loop_effect w pod ps ctx ctx' \<Longrightarrow> ps \<subseteq> ps' \<Longrightarrow> loop_effect w pod ps' ctx ctx'"
  unfolding loop_effect_def by blast

text \<open>The context after the condition was met and the limiters were asked.\<close>

lemma asked_effect:
  assumes "cache_coherent (cel w) (evaluator ctx)"
    and "condition_met w pod policy ttl (count_event PolicyMatches ctx) = (met, ttl', ctx1)"
    and "check_rate_limits w policy ctx1 = Some (allowed, ctx2)"
  shows "loop_effect w pod ps ctx ctx2" and "client ctx2 = client ctx"
    and "ticks ctx1 \<le> ticks ctx2"
    and "global_limiter (rate_limiter ctx1) = global_limiter (rate_limiter ctx)"
    and "changes_condition w (count_event PolicyMatches ctx) ctx1"
    and "met \<longleftrightarrow> condition_holds (cel w) pod policy (clock w (ticks ctx))"
    and "met \<Longrightarrow> ticks ctx < ticks ctx1"
proof -
  have coherent: "cache_coherent (cel w) (evaluator (count_event PolicyMatches ctx))"
    using assms(1) by simp
  note c = condition_met_result [OF coherent assms(2)]
  show "changes_condition w (count_event PolicyMatches ctx) ctx1" by (rule c(3))
  show "met \<longleftrightarrow> condition_holds (cel w) pod policy (clock w (ticks ctx))"
    using c(1) by (simp add: now_of_def)
  show "met \<Longrightarrow> ticks ctx < ticks ctx1" using c(4) by simp
  show "global_limiter (rate_limiter ctx1) = global_limiter (rate_limiter ctx)"
    using c(3) by (simp add: changes_condition_def)
  have e1: "loop_effect w pod ps ctx ctx1"
    by (rule loop_effect_trans [OF loop_effect_count loop_effect_condition [OF c(3)]])
      (rule loop_effect_refl [OF assms(1)])
  have e2: "loop_effect w pod ps ctx1 ctx2"
    by (rule loop_effect_limits [OF assms(3)]) (use c(3) in \<open>simp add: changes_condition_def\<close>)
  show "loop_effect w pod ps ctx ctx2" by (rule loop_effect_trans [OF e1 e2])
  have "same_but_limiter ctx1 ctx2" using assms(3) by (rule check_rate_limitsE)
  then show "client ctx2 = client ctx" and "ticks ctx1 \<le> ticks ctx2"
    using c(3) by (simp_all add: same_but_limiter_frame changes_condition_def)
qed

lemma asked_justified:
  assumes "cache_coherent (cel w) (evaluator ctx)"
    and "condition_met w pod policy ttl (count_event PolicyMatches ctx) = (True, ttl', ctx1)"
    and "check_rate_limits w policy ctx1 = Some (allowed, ctx2)"
    and "selected pod policy" and "\<not> protected_by pod policy"
    and "\<not> dry_run (spec_then (policy_spec policy))" and "deletion_request w pod policy = Inr r"
  shows "justified w pod policy (ticks ctx) (ticks ctx2) r"
  using asked_effect [OF assms(1-3)] assms(4-) unfolding justified_def
  by (intro conjI exI [of _ "ticks ctx"]) (auto intro: less_le_trans)

lemma apply_policy_effect:
  assumes ok: "cache_coherent (cel w) (evaluator ctx)"
    and "apply_policy w pod policy ttl ctx = Some (out, ctx')"
  shows "loop_effect w pod {policy} ctx ctx'"
  using assms(2)
proof (cases rule: apply_policyE)
  case skipped
  then show ?thesis using ok by (simp add: loop_effect_refl)
next
  case (idle met ttl')
  have "changes_condition w (count_event PolicyMatches ctx) ctx'"
    by (rule condition_met_result(3) [OF _ idle(2)]) (simp add: ok)
  then show ?thesis
    by (rule loop_effect_trans [OF loop_effect_count [OF loop_effect_refl [OF ok]] loop_effect_condition])
next
  case (limited ttl' ctx1 ctx2)
  then show ?thesis using asked_effect(1) [OF ok limited(2,3)] by (simp add: loop_effect_count)
next
  case (unencodable ttl' ctx1 e)
  then show ?thesis using asked_effect(1) [OF ok unencodable(2,3)] by simp
next
  case (removed ttl' ctx1 ctx2 r)
  have "justified w pod policy (ticks ctx) (ticks ctx2) r"
    by (rule asked_justified [OF ok removed(2,5,1,3,4,6)])
  then show ?thesis using asked_effect(1) [OF ok removed(2,5)] removed
    by (simp add: loop_effect_count loop_effect_send)
next
  case (refused ttl' ctx1 ctx2 r)
  have "justified w pod policy (ticks ctx) (ticks ctx2) r"
    by (rule asked_justified [OF ok refused(2,5,1,3,4,6)])
  then show ?thesis using asked_effect(1) [OF ok refused(2,5)] refused
    by (simp add: loop_effect_count loop_effect_send)
qed

text \<open>
  How the loop runs on: the induction every statement about the loop uses. \<open>P\<close> may speak of
  the policies that are left and of the start context of the rest.
\<close>

lemma apply_policies_induct [consumes 1, case_names Nil Stop Step]:
  assumes "apply_policies w pod ps ttl ctx = Some (out, ctx')"
    and "\<And>ttl ctx. P [] ttl ctx (Next ttl) ctx"
    and "\<And>p ps ttl ctx out ctx'. apply_policy w pod p ttl ctx = Some (out, ctx') \<Longrightarrow>
           (\<forall>ttl. out \<noteq> Next ttl) \<Longrightarrow> P (p # ps) ttl ctx out ctx'"
    and "\<And>p ps ttl ctx ttl1 ctx1 out ctx'. apply_policy w pod p ttl ctx = Some (Next ttl1, ctx1) \<Longrightarrow>
           apply_policies w pod ps ttl1 ctx1 = Some (out, ctx') \<Longrightarrow>
           P ps ttl1 ctx1 out ctx' \<Longrightarrow> P (p # ps) ttl ctx out ctx'"
  shows "P ps ttl ctx out ctx'"
  using assms(1)
proof (induction ps arbitrary: ttl ctx)
  case Nil
  then show ?case using assms(2) by auto
next
  case (Cons p ps)
  then show ?case using assms(3,4)
    by (cases "apply_policy w pod p ttl ctx") (auto split: outcome.splits)
qed

lemma apply_policies_effect:
  assumes "apply_policies w pod ps ttl ctx = Some (out, ctx')"
    and "cache_coherent (cel w) (evaluator ctx)"
  shows "loop_effect w pod (set ps) ctx ctx'"
  using assms
proof (induction rule: apply_policies_induct)
  case (Nil ttl ctx)
  then show ?case by (simp add: loop_effect_refl)
next
  case (Stop p ps ttl ctx out ctx')
  then show ?case using apply_policy_effect by (fastforce intro: loop_effect_mono)
next
  case (Step p ps ttl ctx ttl1 ctx1 out ctx')
  have "loop_effect w pod {p} ctx ctx1" by (rule apply_policy_effect [OF Step.prems Step.hyps(1)])
  moreover from this have "loop_effect w pod (set ps) ctx1 ctx'"
    using Step.IH by (simp add: loop_effect_def)
  ultimately show ?case
    by (auto intro: loop_effect_trans loop_effect_mono [where ps = "{p}"] loop_effect_mono [where ps = "set ps"])
qed

end
