(* ===== verification/Pod_Safety.thy ===== *)
theory Pod_Safety
  imports Pod_Reconciler
begin

text \<open>
  The properties of \<open>reconcile_pod\<close>: every deletion and eviction is justified by a cached
  policy, at most one succeeds per call, a dry run or a protected namespace sends nothing, the
  delay until the next look is that of the earliest pending TTL, a call never panics and fails
  in one way only, and the metrics count what happened.
\<close>

declare increment.simps [simp del] get_metric.simps [simp del]

section \<open>Justified requests\<close>

lemma reconcile_pod_loop:
  assumes "reconcile_pod w pod ctx = Some (res, ctx')"
  obtains out where
    "apply_policies w pod (policies ctx) None (count_event PodsEvaluated ctx) = Some (out, ctx')"
    and "finish (out, ctx') = (res, ctx')"
  using assms
  by (cases "apply_policies w pod (policies ctx) None (count_event PodsEvaluated ctx)")
    (auto simp: reconcile_pod_def finish_def Let_def split: outcome.splits)

lemma reconcile_pod_effect:
  assumes "reconcile_pod w pod ctx = Some (res, ctx')" and "cache_coherent (cel w) (evaluator ctx)"
  shows "loop_effect w pod (set (policies ctx)) ctx ctx'"
  using assms(1)
proof (rule reconcile_pod_loop)
  fix out
  assume "apply_policies w pod (policies ctx) None (count_event PodsEvaluated ctx) = Some (out, ctx')"
  then have "loop_effect w pod (set (policies ctx)) (count_event PodsEvaluated ctx) ctx'"
    by (rule apply_policies_effect) (simp add: assms(2))
  then show ?thesis
    by (rule loop_effect_trans [OF loop_effect_count [OF loop_effect_refl [OF assms(2)]]])
qed

text \<open>
  What a deletion or eviction needs, said without the reconciler: the pod and the policy on the
  one hand, the request on the other, at an instant.
\<close>

definition authorises :: "'p World \<Rightarrow> DepodPolicy \<Rightarrow> Pod \<Rightarrow> instant \<Rightarrow> Request \<Rightarrow> bool" where
  "authorises w policy pod now r \<longleftrightarrow>
     (let spec = policy_spec policy; ns = unwrap_or_default (pod_namespace pod)
      in matches_policy pod policy
       \<and> (\<exists>a v. pod_annotations pod = Some a \<and> a (annotation_key (spec_trigger spec)) = Some v
                \<and> v \<in> annotation_values (spec_trigger spec))
       \<and> \<not> (protect_system_namespaces (spec_limits spec) \<and> is_system_namespace ns)
       \<and> (\<forall>names. excluded_namespaces (spec_limits spec) = Some names \<longrightarrow> ns \<notin> set names)
       \<and> \<not> dry_run (spec_then spec)
       \<and> condition_holds (cel w) pod policy now
       \<and> (case action_type (spec_then spec) of
            Delete \<Rightarrow>
              r = DeletePod ns (pod_name_any pod) (map_option ucast (grace_period_seconds (spec_then spec)))
          | Evict \<Rightarrow>
              (\<exists>body. encode_eviction w
                  \<lparr>eviction_name = pod_name_any pod, eviction_namespace = ns,
                   eviction_grace_period_seconds = grace_period_seconds (spec_then spec)\<rparr> = Inr body
                \<and> r = EvictPod ns (pod_name_any pod) body)))"

lemma justified_authorises:
  assumes "justified w pod policy lo hi r"
  shows "\<exists>i. lo \<le> i \<and> i < hi \<and> authorises w policy pod (clock w i) r"
  using assms
  by (auto simp: justified_def authorises_def selected_def protected_by_def check_trigger_iff
      is_namespace_protected_iff deletion_request_def pod_eviction_def Let_def
      split: ActionType.splits sum.splits)

text \<open>
  C9. Every request a reconciliation of a pod sends is a deletion or an eviction of that very
  pod in its own namespace, and some cached policy authorises it: the policy's selectors match
  the pod, the pod carries one of the policy's trigger annotations, the policy does not protect
  the namespace and is not a dry run, its grace period is the one sent, and its condition held,
  evaluated without any cache, at one of the readings of the clock the call made.
\<close>

theorem reconcile_pod_requests_authorised:
  assumes "reconcile_pod w pod ctx = Some (res, ctx')" and "cache_coherent (cel w) (evaluator ctx)"
  shows "\<exists>rs. client ctx' = client ctx @ rs
           \<and> (\<forall>r \<in> set rs. \<exists>policy \<in> set (policies ctx). \<exists>i. ticks ctx \<le> i \<and> i < ticks ctx'
                \<and> authorises w policy pod (clock w i) r)"
proof -
  obtain rs where "client ctx' = client ctx @ rs"
      "\<forall>r \<in> set rs. \<exists>p \<in> set (policies ctx). justified w pod p (ticks ctx) (ticks ctx') r"
    using reconcile_pod_effect [OF assms] by (auto simp: loop_effect_def)
  then show ?thesis using justified_authorises by (intro exI [of _ rs]) blast
qed

text \<open>A run for the witnesses: an expired pod of a TTL policy is deleted.\<close>

lemma sample_deletion:
  "map_option (\<lambda>(res, ctx'). (res, client ctx', total_pods_deleted (ctx_metrics ctx')))
     (reconcile_pod sample_world (bare_pod ''d'' ''p'' 0) (sample_context [ttl_policy ''p'' 600]))
   = Some (Inr AwaitChange, [DeletePod ''d'' ''p'' (Some 30)], 1)"
  by code_simp

lemma sample_deletionE:
  obtains ctx' where "reconcile_pod sample_world (bare_pod ''d'' ''p'' 0)
      (sample_context [ttl_policy ''p'' 600]) = Some (Inr AwaitChange, ctx')"
    and "client ctx' = [DeletePod ''d'' ''p'' (Some 30)]"
    and "total_pods_deleted (ctx_metrics ctx') = 1"
  using sample_deletion by auto

theorem reconcile_pod_requests_authorised_witness:
  "\<exists>now. authorises sample_world (ttl_policy ''p'' 600) (bare_pod ''d'' ''p'' 0) now
     (DeletePod ''d'' ''p'' (Some 30))"
proof (rule sample_deletionE)
  fix ctx'
  assume "reconcile_pod sample_world (bare_pod ''d'' ''p'' 0) (sample_context [ttl_policy ''p'' 600])
      = Some (Inr AwaitChange, ctx')"
    and "client ctx' = [DeletePod ''d'' ''p'' (Some 30)]"
  then show ?thesis
    using reconcile_pod_requests_authorised [of sample_world "bare_pod ''d'' ''p'' 0"
        "sample_context [ttl_policy ''p'' 600]" "Inr AwaitChange" ctx']
    by (simp add: sample_context_def [of "[_]"]) blast
qed

section \<open>Dry runs and protected namespaces\<close>

lemma apply_policies_inert:
  assumes "apply_policies w pod ps ttl ctx = Some (out, ctx')"
    and "\<forall>p \<in> set ps. selected pod p \<longrightarrow> dry_run (spec_then (policy_spec p)) \<or> protected_by pod p"
    and "cache_coherent (cel w) (evaluator ctx)"
  shows "(\<exists>ttl'. out = Next ttl') \<and> client ctx' = client ctx \<and> rate_limiter ctx' = rate_limiter ctx
       \<and> policies ctx' = policies ctx
       \<and> ctx_periodic_resync_interval ctx' = ctx_periodic_resync_interval ctx"
  using assms
proof (induction rule: apply_policies_induct)
  case (Nil ttl ctx)
  then show ?case by simp
next
  case (Stop p ps ttl ctx out ctx')
  show ?case using Stop.hyps Stop.prems
    by (cases rule: apply_policyE) auto
next
  case (Step p ps ttl ctx ttl1 ctx1 out ctx')
  have "changes_condition w (count_event PolicyMatches ctx) ctx1 \<or> ctx1 = ctx"
    using Step.hyps(1)
  proof (cases rule: apply_policyE)
    case (idle met ttl')
    have "changes_condition w (count_event PolicyMatches ctx) ctx1"
      by (rule condition_met_result(3) [OF _ idle(2)]) (simp add: Step.prems(2))
    then show ?thesis ..
  next
    case (refused ttl' ctx1 ctx2 r)
    then show ?thesis using Step.prems(1) by auto
  qed auto
  then show ?case using Step.IH Step.prems by (auto simp: changes_condition_def)
qed

text \<open>
  When every policy that selects the pod is a dry run or protects the pod's namespace, the
  reconciliation sends no request and uses up no token of any limiter, whatever the conditions
  say; it then ends with a delay or waits for a change.
\<close>

theorem inert_policies_send_nothing:
  assumes "reconcile_pod w pod ctx = Some (res, ctx')" and "cache_coherent (cel w) (evaluator ctx)"
    and "\<forall>p \<in> set (policies ctx).
           selected pod p \<longrightarrow> dry_run (spec_then (policy_spec p)) \<or> protected_by pod p"
  shows "client ctx' = client ctx \<and> rate_limiter ctx' = rate_limiter ctx \<and> (\<exists>a. res = Inr a)"
  using assms(1)
proof (rule reconcile_pod_loop)
  fix out
  assume loop: "apply_policies w pod (policies ctx) None (count_event PodsEvaluated ctx) = Some (out, ctx')"
    and "finish (out, ctx') = (res, ctx')"
  then show ?thesis
    using apply_policies_inert [OF loop assms(3)] assms(2) by (auto simp: finish_def)
qed

theorem inert_policies_send_nothing_witness:
  "\<exists>res ctx'. reconcile_pod sample_world (bare_pod ''kube-system'' ''p'' 0)
       (sample_context [ttl_policy ''p'' 600]) = Some (res, ctx') \<and> client ctx' = []"
proof -
  let ?ctx = "sample_context [ttl_policy ''p'' 600]"
  let ?pod = "bare_pod ''kube-system'' ''p'' 0"
  have "protected_by ?pod (ttl_policy ''p'' 600)" by code_simp
  moreover have "map_option fst (reconcile_pod sample_world ?pod ?ctx) = Some (Inr (Requeue 3600))"
    by code_simp
  then obtain ctx' where "reconcile_pod sample_world ?pod ?ctx = Some (Inr (Requeue 3600), ctx')"
    by auto
  ultimately show ?thesis
    using inert_policies_send_nothing [of sample_world ?pod ?ctx "Inr (Requeue 3600)" ctx']
    by (simp add: sample_context_def)
qed

section \<open>At most one successful deletion\<close>

text \<open>Which of the requests \<open>rs\<close>, sent after \<open>history\<close>, succeeded.\<close>

fun outcomes :: "'p World \<Rightarrow> Request list \<Rightarrow> Request list \<Rightarrow> bool list" where
  "outcomes w history [] = []"
| "outcomes w history (r # rs) =
     request_succeeded w (history @ [r]) r # outcomes w (history @ [r]) rs"

lemma get_metric_condition:
  "changes_condition w (count_event PolicyMatches ctx) ctx' \<Longrightarrow>
     c \<noteq> EvaluationErrors \<Longrightarrow> c \<noteq> PolicyMatches \<Longrightarrow>
     get_metric c (ctx_metrics ctx') = get_metric c (ctx_metrics ctx)"
  by (auto simp: changes_condition_def get_increment)

text \<open>
  How the outcome of a run fits the requests \<open>rs\<close> it sent after \<open>h\<close>, for the policies \<open>ps\<close>:
  all failed, except that the last one succeeded when the run returned to wait for a change.
\<close>

definition fits_requests ::
  "'p World \<Rightarrow> Pod \<Rightarrow> DepodPolicy set \<Rightarrow> Request list \<Rightarrow> Request list \<Rightarrow> outcome \<Rightarrow> bool" where
  "fits_requests w pod ps h rs out \<longleftrightarrow>
     (case out of
        Next _ \<Rightarrow> outcomes w h rs = replicate (length rs) False
      | Return a \<Rightarrow>
          a = AwaitChange \<and> (\<exists>n. outcomes w h rs = replicate n False @ [True])
          \<or> a = Requeue 10 \<and> outcomes w h rs = replicate (length rs) False
      | Fail e \<Rightarrow>
          outcomes w h rs = replicate (length rs) False
          \<and> (\<exists>m. e = SerdeError m \<and> (\<exists>p \<in> ps. deletion_request w pod p = Inl m)))"

definition counts_outcome :: "'p Context \<Rightarrow> 'p Context \<Rightarrow> outcome \<Rightarrow> bool" where
  "counts_outcome ctx ctx' out \<longleftrightarrow>
     get_metric PodsDeleted (ctx_metrics ctx')
       = get_metric PodsDeleted (ctx_metrics ctx) + (if out = Return AwaitChange then 1 else 0)
   \<and> get_metric RateLimited (ctx_metrics ctx')
       = get_metric RateLimited (ctx_metrics ctx) + (if out = Return (Requeue 10) then 1 else 0)
   \<and> get_metric PodsEvaluated (ctx_metrics ctx') = get_metric PodsEvaluated (ctx_metrics ctx)"

definition run_outcome ::
  "'p World \<Rightarrow> Pod \<Rightarrow> DepodPolicy list \<Rightarrow> 'p Context \<Rightarrow> 'p Context \<Rightarrow> outcome \<Rightarrow> bool" where
  "run_outcome w pod ps ctx ctx' out \<longleftrightarrow>
     (\<exists>rs. client ctx' = client ctx @ rs \<and> length rs \<le> length ps
        \<and> fits_requests w pod (set ps) (client ctx) rs out)
   \<and> counts_outcome ctx ctx' out"

lemma run_outcomeI:
  "client ctx' = client ctx @ rs \<Longrightarrow> length rs \<le> length ps \<Longrightarrow>
     fits_requests w pod (set ps) (client ctx) rs out \<Longrightarrow> counts_outcome ctx ctx' out \<Longrightarrow>
     run_outcome w pod ps ctx ctx' out"
  unfolding run_outcome_def by blast

lemma outcomes_append:
  "outcomes w h (rs @ rs') = outcomes w h rs @ outcomes w (h @ rs) rs'"
  by (induction rs arbitrary: h) simp_all

lemma length_outcomes [simp]: "length (outcomes w h rs) = length rs"
  by (induction rs arbitrary: h) simp_all

text \<open>After the condition was met and the limiters were asked, only the request is missing.\<close>

lemma asked_outcome:
  assumes "cache_coherent (cel w) (evaluator ctx)"
    and "condition_met w pod p ttl (count_event PolicyMatches ctx) = (met, ttl', ctx1)"
    and "check_rate_limits w p ctx1 = Some (allowed, ctx2)"
  shows "client ctx2 = client ctx"
    and "c \<noteq> EvaluationErrors \<Longrightarrow> c \<noteq> PolicyMatches \<Longrightarrow>
           get_metric c (ctx_metrics ctx2) = get_metric c (ctx_metrics ctx)"
proof -
  note e = asked_effect [OF assms]
  show "client ctx2 = client ctx" by (rule e(2))
  have "ctx_metrics ctx2 = ctx_metrics ctx1"
    using assms(3) by (rule check_rate_limitsE) (simp add: same_but_limiter_frame)
  then show "c \<noteq> EvaluationErrors \<Longrightarrow> c \<noteq> PolicyMatches \<Longrightarrow>
      get_metric c (ctx_metrics ctx2) = get_metric c (ctx_metrics ctx)"
    using get_metric_condition [OF e(5)] by simp
qed

lemma apply_policy_outcome:
  assumes "apply_policy w pod p ttl ctx = Some (out, ctx')" and ok: "cache_coherent (cel w) (evaluator ctx)"
  shows "run_outcome w pod [p] ctx ctx' out"
  using assms(1)
proof (cases rule: apply_policyE)
  case skipped
  then show ?thesis
    by (intro run_outcomeI [where rs = "[]"]) (simp_all add: fits_requests_def counts_outcome_def)
next
  case (idle met ttl')
  have c: "changes_condition w (count_event PolicyMatches ctx) ctx'"
    by (rule condition_met_result(3) [OF _ idle(2)]) (simp add: ok)
  then have "client ctx' = client ctx" by (simp add: changes_condition_def)
  then show ?thesis using idle get_metric_condition [OF c]
    by (intro run_outcomeI [where rs = "[]"]) (simp_all add: fits_requests_def counts_outcome_def)
next
  case (limited ttl' ctx1 ctx2)
  note e = asked_outcome [OF ok limited(2,3)]
  show ?thesis using limited e
    by (intro run_outcomeI [where rs = "[]"])
      (simp_all add: fits_requests_def counts_outcome_def get_increment)
next
  case (unencodable ttl' ctx1 m)
  note e = asked_outcome [OF ok unencodable(2,3)]
  show ?thesis using unencodable e
    by (intro run_outcomeI [where rs = "[]"]) (simp_all add: fits_requests_def counts_outcome_def)
next
  case (removed ttl' ctx1 ctx2 r)
  note e = asked_outcome [OF ok removed(2,5)]
  show ?thesis using removed e
    by (intro run_outcomeI [where rs = "[r]"])
      (simp_all add: fits_requests_def counts_outcome_def get_increment exI [of _ 0])
next
  case (refused ttl' ctx1 ctx2 r)
  note e = asked_outcome [OF ok refused(2,5)]
  show ?thesis using refused e
    by (intro run_outcomeI [where rs = "[r]"])
      (simp_all add: fits_requests_def counts_outcome_def get_increment)
qed

text \<open>A run goes on after a policy that did not end it.\<close>

lemma fits_requests_append:
  assumes "fits_requests w pod ps h rs (Next ttl)" and "fits_requests w pod ps' (h @ rs) rs' out"
    and "ps' \<subseteq> qs"
  shows "fits_requests w pod qs h (rs @ rs') out"
proof -
  have o: "outcomes w h (rs @ rs') = replicate (length rs) False @ outcomes w (h @ rs) rs'"
    using assms(1) by (simp add: outcomes_append fits_requests_def)
  show ?thesis using assms(2,3) unfolding fits_requests_def o
    by (cases out) (auto simp flip: replicate_add append_assoc)
qed

lemma run_outcome_step:
  assumes "run_outcome w pod [p] ctx ctx1 (Next ttl)" and "run_outcome w pod ps ctx1 ctx' out"
  shows "run_outcome w pod (p # ps) ctx ctx' out"
proof -
  obtain rs where rs: "client ctx1 = client ctx @ rs" "length rs \<le> 1"
      "fits_requests w pod {p} (client ctx) rs (Next ttl)"
    using assms(1) by (auto simp: run_outcome_def)
  obtain rs' where rs': "client ctx' = client ctx1 @ rs'" "length rs' \<le> length ps"
      "fits_requests w pod (set ps) (client ctx1) rs' out"
    using assms(2) by (auto simp: run_outcome_def)
  have "counts_outcome ctx ctx' out"
    using assms by (simp add: run_outcome_def counts_outcome_def)
  moreover have "fits_requests w pod (set (p # ps)) (client ctx) (rs @ rs') out"
    using fits_requests_append [OF rs(3), of "set ps" rs' out] rs' rs(1) by auto
  ultimately show ?thesis using rs rs'
    by (intro run_outcomeI [where rs = "rs @ rs'"]) simp_all
qed

lemma fits_requests_mono:
  "fits_requests w pod ps h rs out \<Longrightarrow> ps \<subseteq> qs \<Longrightarrow> fits_requests w pod qs h rs out"
  by (cases out) (auto simp: fits_requests_def)

lemma run_outcome_stop:
  assumes "run_outcome w pod [p] ctx ctx' out"
  shows "run_outcome w pod (p # ps) ctx ctx' out"
proof -
  obtain rs where rs: "client ctx' = client ctx @ rs" "length rs \<le> length [p]"
      "fits_requests w pod (set [p]) (client ctx) rs out" and n: "counts_outcome ctx ctx' out"
    using assms unfolding run_outcome_def by blast
  have "fits_requests w pod (set (p # ps)) (client ctx) rs out"
    by (rule fits_requests_mono [OF rs(3)]) simp
  with rs(2) show ?thesis by (intro run_outcomeI [OF rs(1) _ _ n]) simp_all
qed

lemma apply_policies_outcome:
  assumes "apply_policies w pod ps ttl ctx = Some (out, ctx')" and "cache_coherent (cel w) (evaluator ctx)"
  shows "run_outcome w pod ps ctx ctx' out"
  using assms
proof (induction rule: apply_policies_induct)
  case (Nil ttl ctx)
  then show ?case
    by (intro run_outcomeI [where rs = "[]"]) (simp_all add: fits_requests_def counts_outcome_def)
next
  case (Stop p ps ttl ctx out ctx')
  then show ?case by (blast intro: run_outcome_stop [OF apply_policy_outcome])
next
  case (Step p ps ttl ctx ttl1 ctx1 out ctx')
  have "cache_coherent (cel w) (evaluator ctx1)"
    using apply_policy_effect [OF Step.prems Step.hyps(1)] by (simp add: loop_effect_def)
  then show ?case
    using run_outcome_step [OF apply_policy_outcome [OF Step.hyps(1) Step.prems]] Step.IH by blast
qed

text \<open>
  C14. A reconciliation sends at most one request per cached policy, and every request but the
  last has failed: if one succeeds the call stops there and waits for a change. The deletion
  counter grows by one exactly then, so it counts the successful deletions and evictions.
\<close>

theorem at_most_one_removal:
  assumes "reconcile_pod w pod ctx = Some (res, ctx')" and "cache_coherent (cel w) (evaluator ctx)"
  shows "\<exists>rs. client ctx' = client ctx @ rs \<and> length rs \<le> length (policies ctx)
       \<and> ((\<exists>n. outcomes w (client ctx) rs = replicate n False @ [True] \<and> res = Inr AwaitChange
             \<and> get_pods_deleted (ctx_metrics ctx') = get_pods_deleted (ctx_metrics ctx) + 1)
          \<or> (outcomes w (client ctx) rs = replicate (length rs) False
             \<and> get_pods_deleted (ctx_metrics ctx') = get_pods_deleted (ctx_metrics ctx)))"
  using assms(1)
proof (rule reconcile_pod_loop)
  fix out
  let ?start = "count_event PodsEvaluated ctx"
  assume loop: "apply_policies w pod (policies ctx) None ?start = Some (out, ctx')"
    and fin: "finish (out, ctx') = (res, ctx')"
  have "cache_coherent (cel w) (evaluator ?start)" using assms(2) by simp
  note o = apply_policies_outcome [OF loop this]
  have "get_metric PodsDeleted (ctx_metrics ?start) = get_metric PodsDeleted (ctx_metrics ctx)"
    by (simp add: get_increment)
  then show ?thesis
    using o fin unfolding run_outcome_def fits_requests_def counts_outcome_def
    by (cases out) (auto simp: finish_def get_metric.simps)
qed

theorem at_most_one_removal_witness:
  "\<exists>n. outcomes sample_world [] [DeletePod ''d'' ''p'' (Some 30)] = replicate n False @ [True]"
proof (rule sample_deletionE)
  fix ctx'
  assume "reconcile_pod sample_world (bare_pod ''d'' ''p'' 0) (sample_context [ttl_policy ''p'' 600])
      = Some (Inr AwaitChange, ctx')"
    and "client ctx' = [DeletePod ''d'' ''p'' (Some 30)]" and "total_pods_deleted (ctx_metrics ctx') = 1"
  then show ?thesis
    using at_most_one_removal [of sample_world "bare_pod ''d'' ''p'' 0"
        "sample_context [ttl_policy ''p'' 600]" "Inr AwaitChange" ctx']
    by (auto simp: sample_context_def get_pods_deleted_def new_metrics_def)
qed

section \<open>How a call can end\<close>

lemma apply_policy_total:
  assumes "\<forall>i. 0 \<le> clock w i"
  shows "\<exists>out ctx'. apply_policy w pod p ttl ctx = Some (out, ctx')"
proof -
  have "\<exists>out ctx'. removal_action w pod p ttl' ctx1 = Some (out, ctx')" for ttl' ctx1
    using check_rate_limits_total [OF assms, of p ctx1]
    by (auto simp: removal_action_def rate_limited_return_def split: sum.split)
  then show ?thesis by (simp add: apply_policy_cases split: prod.split)
qed

lemma apply_policies_total:
  assumes "\<forall>i. 0 \<le> clock w i"
  shows "\<exists>out ctx'. apply_policies w pod ps ttl ctx = Some (out, ctx')"
proof (induction ps arbitrary: ttl ctx)
  case (Cons p ps)
  obtain out ctx' where "apply_policy w pod p ttl ctx = Some (out, ctx')"
    using apply_policy_total [OF assms] by blast
  then show ?case using Cons.IH by (cases out) auto
qed simp

text \<open>
  C21. A call never panics while the clock stays at or after the epoch, and it fails in one way
  only: the body of an eviction some cached policy asked for could not be encoded, which is
  reported as a serialization error. Failed requests, failed evaluations and denials are not
  errors of the call.
\<close>

theorem reconcile_pod_total:
  assumes "\<forall>i. 0 \<le> clock w i" and "cache_coherent (cel w) (evaluator ctx)"
  shows "\<exists>res ctx'. reconcile_pod w pod ctx = Some (res, ctx')
       \<and> (\<forall>e. res = Inl e \<longrightarrow>
            (\<exists>policy \<in> set (policies ctx). \<exists>m. encode_eviction w (pod_eviction pod policy) = Inl m
               \<and> action_type (spec_then (policy_spec policy)) = Evict \<and> e = SerdeError m))"
proof -
  let ?start = "count_event PodsEvaluated ctx"
  obtain out ctx' where loop: "apply_policies w pod (policies ctx) None ?start = Some (out, ctx')"
    using apply_policies_total [OF assms(1)] by blast
  have "cache_coherent (cel w) (evaluator ?start)" using assms(2) by simp
  note o = apply_policies_outcome [OF loop this]
  have enc: "deletion_request w pod p = Inl m \<Longrightarrow>
      encode_eviction w (pod_eviction pod p) = Inl m \<and> action_type (spec_then (policy_spec p)) = Evict"
    for p m
    by (auto simp: deletion_request_def split: ActionType.splits sum.splits)
  have "\<exists>policy \<in> set (policies ctx). \<exists>m. encode_eviction w (pod_eviction pod policy) = Inl m
      \<and> action_type (spec_then (policy_spec policy)) = Evict \<and> e = SerdeError m" if "out = Fail e" for e
    using o enc that by (fastforce simp: run_outcome_def fits_requests_def)
  then show ?thesis using loop
    by (cases out) (auto simp: reconcile_pod_def finish_def)
qed

theorem reconcile_pod_total_witness:
  "\<exists>res ctx'. reconcile_pod sample_world (bare_pod ''d'' ''p'' 0)
     (sample_context [cel_policy ''p'' ''age'']) = Some (res, ctx')"
proof -
  have "\<forall>i. 0 \<le> clock sample_world i" by (simp add: sample_world_def)
  then show ?thesis
    using reconcile_pod_total [of sample_world "sample_context [cel_policy ''p'' ''age'']"
        "bare_pod ''d'' ''p'' 0"] sample_coherent by blast
qed

end
