(* ===== verification/Pod_Timing.thy ===== *)
theory Pod_Timing
  imports Pod_Safety
begin

text \<open>
  When \<open>reconcile_pod\<close> looks at a pod again, what it counts, and that policies that do not
  select a pod have no influence on it.
\<close>

section \<open>Policies that do not select the pod\<close>

text \<open>
  Policies whose selectors or trigger do not fit the pod have no effect at all: the loop
  over all policies is the loop over the selecting ones, in the same order, with the same
  requests, readings, counters and result.
\<close>

theorem unselected_policies_irrelevant:
  "apply_policies w pod ps ttl ctx = apply_policies w pod (filter (selected pod) ps) ttl ctx"
proof (induction ps arbitrary: ttl ctx)
  case (Cons p ps)
  show ?case
  proof (cases "selected pod p")
    case True
    then show ?thesis using Cons.IH by (simp split: option.split outcome.split)
  next
    case False
    then show ?thesis using Cons.IH by (simp add: apply_policy_cases)
  qed
qed simp

section \<open>The delay until the next look\<close>

definition pending_at :: "'p World \<Rightarrow> Pod \<Rightarrow> DepodPolicy \<Rightarrow> nat \<Rightarrow> u64 option" where
  "pending_at w pod p k = (if selected pod p then pending_ttl pod (clock w k) p else None)"

fun earliest :: "u64 option list \<Rightarrow> u64 option" where
  "earliest [] = None"
| "earliest (x # xs) = earlier x (earliest xs)"

lemma earlier_assoc: "earlier (earlier a b) c = earlier a (earlier b c)"
  by (cases a; cases b; cases c) (simp_all add: min.assoc)

lemma earliest_Min:
  "earliest xs = (let S = {x. Some x \<in> set xs} in if S = {} then None else Some (Min S))"
proof (induction xs)
  case (Cons x xs)
  let ?S = "{x. Some x \<in> set xs}"
  have "?S = the ` (set xs - {None})" by force
  then have fin: "finite ?S" by simp
  show ?case
  proof (cases x)
    case None
    then show ?thesis using Cons.IH by simp
  next
    case (Some a)
    have e: "{y. Some y \<in> set (x # xs)} = insert a ?S" using Some by auto
    show ?thesis
    proof (cases "?S = {}")
      case True
      then show ?thesis unfolding e using Cons.IH Some by (simp only: Let_def) simp
    next
      case False
      then show ?thesis unfolding e using Cons.IH Some fin by (simp only: Let_def) simp
    qed
  qed
qed simp

lemma apply_policy_ttl:
  assumes "apply_policy w pod p ttl ctx = Some (Next ttl', ctx')"
    and "cache_coherent (cel w) (evaluator ctx)"
  shows "ttl' = earlier ttl (pending_at w pod p (ticks ctx))"
proof -
  have c: "ttl' = earlier ttl (pending_ttl pod (clock w (ticks ctx)) p)"
    if "condition_met w pod p ttl (count_event PolicyMatches ctx) = (met, ttl', ctx1)" for met ctx1
    using condition_met_result(2) [OF _ that] assms(2) by (simp add: now_of_def)
  show ?thesis using assms(1)
    by (cases rule: apply_policyE) (use c in \<open>auto simp: pending_at_def\<close>)
qed

lemma apply_policies_ttl:
  assumes "apply_policies w pod ps ttl ctx = Some (out, ctx')"
    and "out = Next ttl'" and "cache_coherent (cel w) (evaluator ctx)"
  shows "\<exists>ks. length ks = length ps \<and> (\<forall>k \<in> set ks. ticks ctx \<le> k \<and> k \<le> ticks ctx')
       \<and> ttl' = earlier ttl (earliest (map2 (pending_at w pod) ps ks))"
  using assms
proof (induction rule: apply_policies_induct)
  case (Nil ttl ctx)
  then show ?case by simp
next
  case (Stop p ps ttl ctx out ctx')
  then show ?case by simp
next
  case (Step p ps ttl ctx ttl1 ctx1 out ctx')
  have e: "loop_effect w pod {p} ctx ctx1" by (rule apply_policy_effect [OF Step.prems(2) Step.hyps(1)])
  then have ok: "cache_coherent (cel w) (evaluator ctx1)" by (simp add: loop_effect_def)
  have t1: "ticks ctx \<le> ticks ctx1" using e by (simp add: loop_effect_def)
  have t2: "ticks ctx1 \<le> ticks ctx'"
    using apply_policies_effect [OF Step.hyps(2) ok] by (simp add: loop_effect_def)
  obtain ks where ks: "length ks = length ps" "\<forall>k \<in> set ks. ticks ctx1 \<le> k \<and> k \<le> ticks ctx'"
      "ttl' = earlier ttl1 (earliest (map2 (pending_at w pod) ps ks))"
    using Step.IH [OF Step.prems(1) ok] by blast
  have "ttl1 = earlier ttl (pending_at w pod p (ticks ctx))"
    by (rule apply_policy_ttl [OF Step.hyps(1) Step.prems(2)])
  then have "ttl' = earlier ttl (earliest (map2 (pending_at w pod) (p # ps) (ticks ctx # ks)))"
    using ks(3) by (simp add: earlier_assoc)
  moreover have "\<forall>k \<in> set (ticks ctx # ks). ticks ctx \<le> k \<and> k \<le> ticks ctx'"
    using ks(2) t1 t2 by auto
  ultimately show ?case using ks(1) by (intro exI [of _ "ticks ctx # ks"]) simp
qed

lemma calculate_ttl_requeue_pos:
  assumes "calculate_ttl_requeue pod ttl now = Some left"
  shows "0 < left"
proof -
  obtain d where d: "left = max_i64 d 1" using assms
    by (auto simp: calculate_ttl_requeue_def Let_def split: option.splits)
  have "0 < sint left" by (simp add: d sint_max_i64)
  then show ?thesis by (simp add: word_gt_0) auto
qed

lemma pending_at_pos: "pending_at w pod p k = Some left \<Longrightarrow> 0 < left"
  by (auto simp: pending_at_def pending_ttl_def calculate_ttl_requeue_pos
      split: ConditionType.splits option.splits if_splits)

text \<open>
  The delays found pending, each policy at its reading of the clock, and the action they lead
  to.
\<close>

definition pending_delays :: "'p World \<Rightarrow> Pod \<Rightarrow> DepodPolicy list \<Rightarrow> nat list \<Rightarrow> u64 set" where
  "pending_delays w pod ps ks = {left. Some left \<in> set (map2 (pending_at w pod) ps ks)}"

definition next_look :: "u64 set \<Rightarrow> u64 option \<Rightarrow> Action" where
  "next_look delays resync_interval =
     (if delays \<noteq> {} then Requeue (Min delays)
      else case resync_interval of Some interval \<Rightarrow> Requeue interval | None \<Rightarrow> AwaitChange)"

lemma final_action_earliest:
  "final_action ctx (earliest (map2 (pending_at w pod) ps ks))
     = next_look (pending_delays w pod ps ks) (ctx_periodic_resync_interval ctx)"
  unfolding earliest_Min next_look_def final_action_def pending_delays_def [symmetric] Let_def
  by simp

lemma pending_delays_pos: "left \<in> pending_delays w pod ps ks \<Longrightarrow> 0 < left"
  using pending_at_pos [of w pod _ _ left] by (auto simp: pending_delays_def)

text \<open>
  C15. A call that neither removed the pod nor hit a rate limit comes back for it when the
  first of the TTLs it found pending expires, every selecting TTL policy counted at the reading
  of the clock its condition was evaluated with; that delay is never zero. Without a pending
  TTL it comes back after the resync interval, and without one it waits for a change.
\<close>

theorem requeue_at_earliest_ttl:
  assumes "reconcile_pod w pod ctx = Some (Inr action, ctx')"
    and "cache_coherent (cel w) (evaluator ctx)"
    and "get_pods_deleted (ctx_metrics ctx') = get_pods_deleted (ctx_metrics ctx)"
    and "get_rate_limited (ctx_metrics ctx') = get_rate_limited (ctx_metrics ctx)"
  shows "\<exists>ks. length ks = length (policies ctx)
       \<and> (\<forall>k \<in> set ks. ticks ctx \<le> k \<and> k \<le> ticks ctx')
       \<and> action = next_look (pending_delays w pod (policies ctx) ks) (ctx_periodic_resync_interval ctx)
       \<and> (\<forall>left \<in> pending_delays w pod (policies ctx) ks. 0 < left)"
  using assms(1)
proof (rule reconcile_pod_loop)
  fix out
  let ?start = "count_event PodsEvaluated ctx"
  assume loop: "apply_policies w pod (policies ctx) None ?start = Some (out, ctx')"
    and fin: "finish (out, ctx') = (Inr action, ctx')"
  have ok: "cache_coherent (cel w) (evaluator ?start)" using assms(2) by simp
  note o = apply_policies_outcome [OF loop ok, unfolded run_outcome_def fits_requests_def counts_outcome_def]
  have "get_metric PodsDeleted (ctx_metrics ctx') = get_metric PodsDeleted (ctx_metrics ?start)"
    "get_metric RateLimited (ctx_metrics ctx') = get_metric RateLimited (ctx_metrics ?start)"
    using assms(3,4) by (simp_all add: get_increment) (simp_all add: get_metric.simps)
  then have "out \<noteq> Return AwaitChange" "out \<noteq> Return (Requeue 10)"
    using o by auto
  then obtain ttl where out: "out = Next ttl" using o fin by (cases out) (auto simp: finish_def)
  obtain ks where ks: "length ks = length (policies ctx)" "\<forall>k \<in> set ks. ticks ctx \<le> k \<and> k \<le> ticks ctx'"
      "ttl = earliest (map2 (pending_at w pod) (policies ctx) ks)"
    using apply_policies_ttl [OF loop out ok] by auto
  have "ctx_periodic_resync_interval ctx' = ctx_periodic_resync_interval ctx"
    using apply_policies_effect [OF loop ok] by (simp add: loop_effect_def)
  then have "action = next_look (pending_delays w pod (policies ctx) ks) (ctx_periodic_resync_interval ctx)"
    using fin out ks(3) final_action_earliest [of ctx' w pod "policies ctx" ks]
    by (simp only: finish_def prod.case outcome.case prod.inject sum.inject)
  then show ?thesis using ks(1,2) pending_delays_pos by blast
qed

theorem requeue_at_earliest_ttl_witness:
  "\<exists>ks. length ks = 2 \<and> next_look (pending_delays sample_world (bare_pod ''d'' ''p'' (500 * nanos_per_sec))
       [ttl_policy ''p'' 9000, ttl_policy ''q'' 1002] ks) (Some 3600) = Requeue 501"
proof -
  let ?ctx = "sample_context [ttl_policy ''p'' 9000, ttl_policy ''q'' 1002]"
  let ?pod = "bare_pod ''d'' ''p'' (500 * nanos_per_sec)"
  have "map_option (\<lambda>(res, ctx'). (res, get_pods_deleted (ctx_metrics ctx'), get_rate_limited (ctx_metrics ctx')))
      (reconcile_pod sample_world ?pod ?ctx) = Some (Inr (Requeue 501), 0, 0)"
    by code_simp
  then obtain ctx' where run: "reconcile_pod sample_world ?pod ?ctx = Some (Inr (Requeue 501), ctx')"
    and m: "get_pods_deleted (ctx_metrics ctx') = 0" "get_rate_limited (ctx_metrics ctx') = 0"
    by auto
  have "get_pods_deleted (ctx_metrics ?ctx) = 0" "get_rate_limited (ctx_metrics ?ctx) = 0"
    by code_simp+
  then obtain ks where ks: "length ks = length (policies ?ctx)"
      "Requeue 501 = next_look (pending_delays sample_world ?pod (policies ?ctx) ks)
         (ctx_periodic_resync_interval ?ctx)"
    using requeue_at_earliest_ttl [OF run sample_coherent] m by metis
  have "policies ?ctx = [ttl_policy ''p'' 9000, ttl_policy ''q'' 1002]"
    "ctx_periodic_resync_interval ?ctx = Some 3600" by (simp_all add: sample_context_def)
  then show ?thesis using ks by (intro exI [of _ ks]) simp
qed

section \<open>What the metrics count\<close>

lemma apply_policy_matches:
  assumes "apply_policy w pod p ttl ctx = Some (out, ctx')"
    and ok: "cache_coherent (cel w) (evaluator ctx)"
  shows "get_metric PolicyMatches (ctx_metrics ctx')
       = get_metric PolicyMatches (ctx_metrics ctx) + (if selected pod p then 1 else 0)"
proof -
  have c: "get_metric PolicyMatches (ctx_metrics c) = get_metric PolicyMatches (ctx_metrics ctx) + 1"
    if "condition_met w pod p ttl (count_event PolicyMatches ctx) = (met, ttl', c)" for met ttl' c
    using condition_met_result(3) [OF _ that] ok by (auto simp: changes_condition_def get_increment)
  have l: "ctx_metrics c' = ctx_metrics c"
    if "check_rate_limits w p c = Some (allowed, c')" for allowed c c'
    using that by (rule check_rate_limitsE) (simp add: same_but_limiter_frame)
  show ?thesis using assms(1)
    by (cases rule: apply_policyE) (simp_all add: c l get_increment)
qed

lemma apply_policies_matches:
  assumes "apply_policies w pod ps ttl ctx = Some (out, ctx')"
    and "cache_coherent (cel w) (evaluator ctx)"
  shows "\<exists>n \<le> length ps. get_metric PolicyMatches (ctx_metrics ctx')
       = get_metric PolicyMatches (ctx_metrics ctx) + of_nat (length (filter (selected pod) (take n ps)))
       \<and> ((\<exists>ttl. out = Next ttl) \<longrightarrow> n = length ps)"
  using assms
proof (induction rule: apply_policies_induct)
  case (Nil ttl ctx)
  then show ?case by simp
next
  case (Stop p ps ttl ctx out ctx')
  then show ?case using apply_policy_matches [OF Stop.hyps(1) Stop.prems]
    by (intro exI [of _ 1]) auto
next
  case (Step p ps ttl ctx ttl1 ctx1 out ctx')
  have ok: "cache_coherent (cel w) (evaluator ctx1)"
    using apply_policy_effect [OF Step.prems Step.hyps(1)] by (simp add: loop_effect_def)
  obtain n where "n \<le> length ps" "get_metric PolicyMatches (ctx_metrics ctx')
       = get_metric PolicyMatches (ctx_metrics ctx1) + of_nat (length (filter (selected pod) (take n ps)))"
       "(\<exists>ttl. out = Next ttl) \<longrightarrow> n = length ps"
    using Step.IH [OF ok] by blast
  then show ?case using apply_policy_matches [OF Step.hyps(1) Step.prems]
    by (intro exI [of _ "Suc n"]) auto
qed

text \<open>
  Each call counts one evaluated pod. It counts one match for every selecting policy it
  came to, which is all of them when it ran through the whole list; and it counts a denial at
  most once, in which case it looks again after ten seconds.
\<close>

theorem reconcile_pod_metrics:
  assumes "reconcile_pod w pod ctx = Some (res, ctx')" and "cache_coherent (cel w) (evaluator ctx)"
  shows "get_pods_evaluated (ctx_metrics ctx') = get_pods_evaluated (ctx_metrics ctx) + 1
       \<and> (\<exists>n \<le> length (policies ctx). get_policy_matches (ctx_metrics ctx')
             = get_policy_matches (ctx_metrics ctx)
               + of_nat (length (filter (selected pod) (take n (policies ctx))))
           \<and> (n < length (policies ctx) \<longrightarrow> res = Inr AwaitChange \<or> res = Inr (Requeue 10)
                 \<or> (\<exists>e. res = Inl e)))
       \<and> (get_rate_limited (ctx_metrics ctx') = get_rate_limited (ctx_metrics ctx)
          \<or> get_rate_limited (ctx_metrics ctx') = get_rate_limited (ctx_metrics ctx) + 1
            \<and> res = Inr (Requeue 10))"
  using assms(1)
proof (rule reconcile_pod_loop)
  fix out
  let ?start = "count_event PodsEvaluated ctx"
  assume loop: "apply_policies w pod (policies ctx) None ?start = Some (out, ctx')"
    and fin: "finish (out, ctx') = (res, ctx')"
  have ok: "cache_coherent (cel w) (evaluator ?start)" using assms(2) by simp
  note o = apply_policies_outcome [OF loop ok, unfolded run_outcome_def fits_requests_def counts_outcome_def]
  have stop: "(\<exists>ttl. out = Next ttl) \<or> res = Inr AwaitChange \<or> res = Inr (Requeue 10) \<or> (\<exists>e. res = Inl e)"
    using o fin by (cases out) (auto simp: finish_def)
  have "get_metric PodsEvaluated (ctx_metrics ctx') = get_metric PodsEvaluated (ctx_metrics ctx) + 1"
    using o by (auto simp: get_increment)
  moreover have "get_metric RateLimited (ctx_metrics ctx') = get_metric RateLimited (ctx_metrics ctx)
      \<or> get_metric RateLimited (ctx_metrics ctx') = get_metric RateLimited (ctx_metrics ctx) + 1
        \<and> res = Inr (Requeue 10)"
    using o fin by (cases "out = Return (Requeue 10)") (auto simp: get_increment finish_def)
  moreover obtain n where "n \<le> length (policies ctx)" "get_metric PolicyMatches (ctx_metrics ctx')
       = get_metric PolicyMatches (ctx_metrics ctx)
         + of_nat (length (filter (selected pod) (take n (policies ctx))))"
       "(\<exists>ttl. out = Next ttl) \<longrightarrow> n = length (policies ctx)"
    using apply_policies_matches [OF loop ok] by (auto simp: get_increment)
  moreover from this(3) have "n < length (policies ctx) \<longrightarrow>
      res = Inr AwaitChange \<or> res = Inr (Requeue 10) \<or> (\<exists>e. res = Inl e)"
    using stop by auto
  ultimately show ?thesis unfolding get_metric.simps by blast
qed

theorem reconcile_pod_metrics_witness:
  "\<exists>res ctx'. reconcile_pod sample_world (bare_pod ''d'' ''p'' 0)
         (sample_context [ttl_policy ''p'' 600]) = Some (res, ctx')
     \<and> get_pods_evaluated (ctx_metrics ctx')
         = get_pods_evaluated (ctx_metrics (sample_context [ttl_policy ''p'' 600])) + 1"
proof (rule sample_deletionE)
  fix ctx'
  assume "reconcile_pod sample_world (bare_pod ''d'' ''p'' 0) (sample_context [ttl_policy ''p'' 600])
      = Some (Inr AwaitChange, ctx')"
  then show ?thesis using reconcile_pod_metrics [OF _ sample_coherent] by blast
qed

end
