(* ===== verification/Policy_Reconciler.thy ===== *)
theory Policy_Reconciler
  imports Operator_Context
begin

text \<open>
  \<open>reconcile_policy\<close> of \<open>src/controller.rs\<close> with its error policy: validate a changed
  policy and report the verdict in its status, refresh the cache of policies from the
  reflector's store, and touch the pods the policy selects so that they are reconciled again.
  The concurrent stream of pod patches is run in the order of the list: its answers are only
  logged. A call runs from its start to its end as one step; its steps, and the patches that
  are pending at once, are in Policy_Tasks.
\<close>

section \<open>Reporting a verdict\<close>

definition update_policy_status ::
  "'p World \<Rightarrow> string \<Rightarrow> string \<Rightarrow> PolicyCondition \<Rightarrow> 'p Context \<Rightarrow> unit Result \<times> 'p Context" where
  "update_policy_status w policy_name namespace condition ctx =
     (let status = update_condition condition default_status;
          ctx1 = send (PatchPolicyStatus namespace policy_name status) ctx
      in (case patch_reply w (client ctx1) of
            Inl e \<Rightarrow> (Inl (KubeError e), ctx1)
          | Inr _ \<Rightarrow> (Inr (), ctx1)))"

text \<open>
  \<open>should_update\<close> of the three branches: the verdict is not yet among the conditions. For a
  failure it is recognised by its message, for success by its reason.
\<close>

definition failure_unreported :: "string \<Rightarrow> string \<Rightarrow> DepodPolicyStatus option \<Rightarrow> bool" where
  "failure_unreported ty message status =
     (case status of
        Some st \<Rightarrow>
          \<not> (\<exists>c \<in> set (conditions st).
                cond_condition_type c = ty \<and> cond_status c = ''True'' \<and> cond_message c = Some message)
      | None \<Rightarrow> True)"

definition ready_unreported :: "DepodPolicyStatus option \<Rightarrow> bool" where
  "ready_unreported status =
     (case status of
        Some st \<Rightarrow>
          \<not> (\<exists>c \<in> set (conditions st).
                cond_condition_type c = ''Ready'' \<and> cond_status c = ''True''
              \<and> cond_reason c = Some ''PolicyValidated'')
      | None \<Rightarrow> True)"

text \<open>
  \<open>if should_update { .. update_policy_status(..) .. }\<close>; the condition carries the time of
  its creation, and a failed update is only logged.
\<close>

definition report ::
  "'p World \<Rightarrow> DepodPolicy \<Rightarrow> bool \<Rightarrow> (string \<Rightarrow> PolicyCondition) \<Rightarrow> 'p Context \<Rightarrow> 'p Context" where
  "report w policy should_update condition ctx =
     (if should_update
      then snd (update_policy_status w (policy_name_any policy) (get_policy_namespace policy)
             (condition (to_rfc3339 w (now_of w ctx))) (tick 1 ctx))
      else ctx)"

section \<open>Refreshing the cache\<close>

definition valid_policies :: "DepodPolicy list \<Rightarrow> DepodPolicy list" where
  "valid_policies store = filter (\<lambda>p. validate_spec (policy_spec p) = Inr ()) store"

definition refresh_policies :: "'p Context \<Rightarrow> 'p Context" where
  "refresh_policies ctx = ctx\<lparr>policies := valid_policies (policy_store ctx)\<rparr>"

section \<open>Touching the pods\<close>

definition label_selector :: "DepodPolicy \<Rightarrow> string option" where
  "label_selector policy =
     (case pod_selector (spec_match (policy_spec policy)) of
        Some selector \<Rightarrow>
          (let labels = join '','' (map (\<lambda>(k, v). k @ ''='' @ v) (match_labels selector))
           in if labels \<noteq> [] then Some labels else None)
      | None \<Rightarrow> None)"

definition target_namespaces :: "DepodPolicy \<Rightarrow> string list" where
  "target_namespaces policy =
     (case namespace_selector (spec_match (policy_spec policy)) of
        Some selector \<Rightarrow> if match_names selector = [] then [] else match_names selector
      | None \<Rightarrow> [])"

definition touch_annotations ::
  "'p World \<Rightarrow> string \<Rightarrow> string \<Rightarrow> instant \<Rightarrow> (string \<times> string) list" where
  "touch_annotations w operator policy_name now =
     [(''kube-depod/reconcile-trigger-by'', operator),
      (''kube-depod/reconcile-trigger-by-policy'', policy_name),
      (''kube-depod/reconcile-trigger-time'', to_rfc3339 w now)]"

definition should_touch :: "DepodPolicy \<Rightarrow> Pod \<Rightarrow> bool" where
  "should_touch policy pod =
     (if \<not> check_trigger pod (annotation_key (spec_trigger (policy_spec policy)))
             (annotation_values (spec_trigger (policy_spec policy))) then False
      else if \<not> matches_policy pod policy then False
      else True)"

fun touch_pods ::
  "'p World \<Rightarrow> DepodPolicy \<Rightarrow> string option \<Rightarrow> (string \<times> string) list \<Rightarrow> Pod list \<Rightarrow> 'p Context \<Rightarrow> 'p Context"
where
  "touch_pods w policy ns patch [] ctx = ctx"
| "touch_pods w policy ns patch (pod # pods) ctx =
     (if should_touch policy pod
      then touch_pods w policy ns patch pods (send (PatchPod ns (pod_name_any pod) patch) ctx)
      else touch_pods w policy ns patch pods ctx)"

definition list_pods ::
  "'p World \<Rightarrow> string option \<Rightarrow> string option \<Rightarrow> 'p Context \<Rightarrow> (string + Pod list) \<times> 'p Context" where
  "list_pods w ns labels ctx =
     (let ctx1 = send (ListPods ns labels) ctx in (list_reply w (client ctx1), ctx1))"

fun touch_namespaces ::
  "'p World \<Rightarrow> DepodPolicy \<Rightarrow> (string \<times> string) list \<Rightarrow> string list \<Rightarrow> 'p Context \<Rightarrow> 'p Context" where
  "touch_namespaces w policy patch [] ctx = ctx"
| "touch_namespaces w policy patch (ns # rest) ctx =
     (case list_pods w (Some ns) (label_selector policy) ctx of
        (Inl _, ctx1) \<Rightarrow> touch_namespaces w policy patch rest ctx1
      | (Inr pods, ctx1) \<Rightarrow>
          touch_namespaces w policy patch rest (touch_pods w policy (Some ns) patch pods ctx1))"

definition trigger_pods :: "'p World \<Rightarrow> DepodPolicy \<Rightarrow> 'p Context \<Rightarrow> Action Result \<times> 'p Context" where
  "trigger_pods w policy ctx =
     (let namespaces = target_namespaces policy;
          patch = touch_annotations w (ctx_operator_pod_name ctx) (policy_name_any policy) (now_of w ctx);
          ctx1 = tick 1 ctx
      in if namespaces = [] then
           (case list_pods w None (label_selector policy) ctx1 of
              (Inl _, ctx2) \<Rightarrow> (Inr (Requeue 60), ctx2)
            | (Inr pods, ctx2) \<Rightarrow> (Inr AwaitChange, touch_pods w policy None patch pods ctx2))
         else (Inr AwaitChange, touch_namespaces w policy patch namespaces ctx1))"

section \<open>The reconciler\<close>

text \<open>The validation of the CEL expression, and the message of its failure.\<close>

definition validate_policy_cel :: "'p World \<Rightarrow> DepodPolicy \<Rightarrow> 'p Context \<Rightarrow> unit Result \<times> 'p Context" where
  "validate_policy_cel w policy ctx =
     (case expression (spec_when (policy_spec policy)) of
        Some expr \<Rightarrow>
          if condition_type (spec_when (policy_spec policy)) = CEL
          then (let (r, cache) = validate_expr (cel w) expr (evaluator ctx)
                in (r, ctx\<lparr>evaluator := cache\<rparr>))
          else (Inr (), ctx)
      | None \<Rightarrow> (Inr (), ctx))"

definition cel_message :: "Error \<Rightarrow> string" where
  "cel_message e = ''CEL compilation failed: '' @ error_to_string e"

definition reconcile_policy ::
  "'p World \<Rightarrow> DepodPolicy \<Rightarrow> 'p Context \<Rightarrow> Action Result \<times> 'p Context" where
  "reconcile_policy w policy ctx =
     (case validate_spec (policy_spec policy) of
        Inl e \<Rightarrow>
          (Inr AwaitChange,
           report w policy (failure_unreported ''InvalidSpec'' (error_to_string e) (policy_status policy))
             (\<lambda>t. invalid_spec t (error_to_string e)) ctx)
      | Inr _ \<Rightarrow>
          (case validate_policy_cel w policy ctx of
             (Inl e, ctx1) \<Rightarrow>
               (Inr AwaitChange,
                report w policy (failure_unreported ''InvalidCEL'' (cel_message e) (policy_status policy))
                  (\<lambda>t. invalid_cel t (cel_message e)) ctx1)
           | (Inr _, ctx1) \<Rightarrow>
               trigger_pods w policy
                 (report w policy (ready_unreported (policy_status policy)) ready
                   (refresh_policies ctx1))))"

definition error_policy_policy :: "DepodPolicy \<Rightarrow> Error \<Rightarrow> 'p Context \<Rightarrow> Action" where
  "error_policy_policy policy e ctx = Requeue 60"

section \<open>Effects of the parts\<close>

lemma report_request:
  "client (report w policy u c ctx) =
     client ctx @ (if u then [PatchPolicyStatus (get_policy_namespace policy) (policy_name_any policy)
        (default_status\<lparr>conditions := [c (to_rfc3339 w (now_of w ctx))]\<rparr>)] else [])"
  by (simp add: report_def update_policy_status_def update_condition_def default_status_def Let_def
      split: sum.split)

lemma report_frame [simp, frame_simps]:
  "policies (report w policy u c ctx) = policies ctx"
  "policy_store (report w policy u c ctx) = policy_store ctx"
  "evaluator (report w policy u c ctx) = evaluator ctx"
  "rate_limiter (report w policy u c ctx) = rate_limiter ctx"
  "ctx_metrics (report w policy u c ctx) = ctx_metrics ctx"
  "ctx_operator_pod_name (report w policy u c ctx) = ctx_operator_pod_name ctx"
  "ticks (report w policy u c ctx) = ticks ctx + (if u then 1 else 0)"
  by (simp_all add: report_def update_policy_status_def Let_def split: sum.split)

text \<open>The requests that touching sends, as a list.\<close>

definition touches ::
  "DepodPolicy \<Rightarrow> string option \<Rightarrow> (string \<times> string) list \<Rightarrow> Pod list \<Rightarrow> Request list" where
  "touches policy ns patch pods =
     map (\<lambda>pod. PatchPod ns (pod_name_any pod) patch) (filter (should_touch policy) pods)"

lemma touch_pods_send:
  "touch_pods w policy ns patch pods ctx = ctx\<lparr>client := client ctx @ touches policy ns patch pods\<rparr>"
  by (induction pods arbitrary: ctx) (simp_all add: touches_def send_def)

fun namespace_touches ::
  "'p World \<Rightarrow> DepodPolicy \<Rightarrow> (string \<times> string) list \<Rightarrow> string list \<Rightarrow> Request list \<Rightarrow> Request list" where
  "namespace_touches w policy patch [] history = []"
| "namespace_touches w policy patch (ns # rest) history =
     (let q = ListPods (Some ns) (label_selector policy);
          ts = (case list_reply w (history @ [q]) of
                  Inl _ \<Rightarrow> []
                | Inr pods \<Rightarrow> touches policy (Some ns) patch pods)
      in q # ts @ namespace_touches w policy patch rest (history @ q # ts))"

lemma touch_namespaces_send:
  "touch_namespaces w policy patch nss ctx =
     ctx\<lparr>client := client ctx @ namespace_touches w policy patch nss (client ctx)\<rparr>"
proof (induction nss arbitrary: ctx)
  case (Cons ns nss)
  show ?case
    by (simp add: Cons.IH list_pods_def touch_pods_send Let_def send_def split: sum.split)
qed simp

section \<open>The verdict on a policy\<close>

text \<open>
  What the reconciler is to find out about a policy, without the cache of programs and without
  the control flow: the spec is invalid, the expression does not compile, or the policy is good.
\<close>

datatype verdict = BadSpec string | BadCel string | Good

definition policy_verdict :: "'p cel_lib \<Rightarrow> DepodPolicy \<Rightarrow> verdict" where
  "policy_verdict lib policy =
     (case validate_spec (policy_spec policy) of
        Inl e \<Rightarrow> BadSpec (error_to_string e)
      | Inr _ \<Rightarrow>
          (case (condition_type (spec_when (policy_spec policy)), expression (spec_when (policy_spec policy))) of
             (CEL, Some expr) \<Rightarrow>
               (case compile lib expr of
                  Inl e \<Rightarrow> BadCel (cel_message (CelCompilationError e))
                | Inr _ \<Rightarrow> Good)
           | _ \<Rightarrow> Good))"

fun verdict_condition :: "verdict \<Rightarrow> string \<Rightarrow> PolicyCondition" where
  "verdict_condition (BadSpec m) t = invalid_spec t m"
| "verdict_condition (BadCel m) t = invalid_cel t m"
| "verdict_condition Good t = ready t"

fun unreported :: "verdict \<Rightarrow> DepodPolicyStatus option \<Rightarrow> bool" where
  "unreported (BadSpec m) status = failure_unreported ''InvalidSpec'' m status"
| "unreported (BadCel m) status = failure_unreported ''InvalidCEL'' m status"
| "unreported Good status = ready_unreported status"

lemma verdict_condition_fun:
  "verdict_condition (BadSpec m) = (\<lambda>t. invalid_spec t m)"
  "verdict_condition (BadCel m) = (\<lambda>t. invalid_cel t m)"
  "verdict_condition Good = ready"
  by (simp_all add: fun_eq_iff)

text \<open>A status whose only condition is a verdict reports that verdict.\<close>

lemma verdict_condition_reported:
  "conditions st = [verdict_condition v t] \<Longrightarrow> \<not> unreported v (Some st)"
  by (cases v) (simp_all add: failure_unreported_def ready_unreported_def condition_defs)

lemma validate_policy_cel_verdict:
  assumes "cache_coherent (cel w) (evaluator ctx)" and "validate_spec (policy_spec policy) = Inr ()"
  obtains r cache where "validate_policy_cel w policy ctx = (r, ctx\<lparr>evaluator := cache\<rparr>)"
    and "cache_coherent (cel w) cache"
    and "policy_verdict (cel w) policy = (case r of Inl e \<Rightarrow> BadCel (cel_message e) | Inr _ \<Rightarrow> Good)"
proof (cases "condition_type (spec_when (policy_spec policy)) = CEL
    \<and> expression (spec_when (policy_spec policy)) \<noteq> None")
  case True
  then obtain expr where e: "expression (spec_when (policy_spec policy)) = Some expr" by blast
  obtain r cache where v: "validate_expr (cel w) expr (evaluator ctx) = (r, cache)"
    by (cases "validate_expr (cel w) expr (evaluator ctx)")
  have "cache_coherent (cel w) cache"
    using validate_cache [OF assms(1), of expr] v cache_coherent_update [OF assms(1), of expr] by simp
  moreover have "r = (case compile (cel w) expr of Inl e \<Rightarrow> Inl (CelCompilationError e) | Inr _ \<Rightarrow> Inr ())"
    using validate_compile [OF assms(1), of expr] v by simp
  ultimately show thesis using True e v assms(2)
    by (intro that [of r cache])
      (auto simp: validate_policy_cel_def policy_verdict_def split: sum.split)
next
  case False
  then have "validate_policy_cel w policy ctx = (Inr (), ctx\<lparr>evaluator := evaluator ctx\<rparr>)"
    by (cases "expression (spec_when (policy_spec policy))") (auto simp: validate_policy_cel_def)
  moreover have "policy_verdict (cel w) policy = Good"
    using False assms(2)
    by (auto simp: policy_verdict_def split: ConditionType.split option.split)
  ultimately show thesis using assms(1) by (intro that [of "Inr ()" "evaluator ctx"]) simp_all
qed

text \<open>The reconciler in terms of the verdict.\<close>

lemma reconcile_policy_verdict:
  assumes "cache_coherent (cel w) (evaluator ctx)"
  obtains cache where "cache_coherent (cel w) cache"
    and "reconcile_policy w policy ctx =
      (let v = policy_verdict (cel w) policy;
           report_verdict = report w policy (unreported v (policy_status policy)) (verdict_condition v);
           ctx1 = ctx\<lparr>evaluator := cache\<rparr>
       in if v = Good then trigger_pods w policy (report_verdict (refresh_policies ctx1))
          else (Inr AwaitChange, report_verdict ctx1))"
proof (cases "validate_spec (policy_spec policy)")
  case (Inl e)
  then show thesis using assms
    by (intro that [of "evaluator ctx"])
      (simp_all add: reconcile_policy_def policy_verdict_def verdict_condition_fun Let_def)
next
  case (Inr u)
  then have ok: "validate_spec (policy_spec policy) = Inr ()" by simp
  obtain r cache where v: "validate_policy_cel w policy ctx = (r, ctx\<lparr>evaluator := cache\<rparr>)"
      "cache_coherent (cel w) cache"
      "policy_verdict (cel w) policy = (case r of Inl e \<Rightarrow> BadCel (cel_message e) | Inr _ \<Rightarrow> Good)"
    using validate_policy_cel_verdict [OF assms ok] .
  show thesis
    by (rule that [OF v(2)])
      (use ok v in \<open>simp add: reconcile_policy_def verdict_condition_fun Let_def split: sum.split\<close>)
qed

end
