(* ===== verification/Policy_Safety.thy ===== *)
theory Policy_Safety
  imports Policy_Reconciler
begin

text \<open>
  The properties of \<open>reconcile_policy\<close>: what the cache of policies holds afterwards, which
  verdict is reported and that reporting it does not set off another report, which pods are
  touched, and how the call ends.
\<close>

section \<open>The requests of a call\<close>

definition trigger_requests ::
  "'p World \<Rightarrow> DepodPolicy \<Rightarrow> (string \<times> string) list \<Rightarrow> Request list \<Rightarrow> Request list" where
  "trigger_requests w policy patch history =
     (if target_namespaces policy = []
      then (let q = ListPods None (label_selector policy)
            in q # (case list_reply w (history @ [q]) of
                      Inl _ \<Rightarrow> []
                    | Inr pods \<Rightarrow> touches policy None patch pods))
      else namespace_touches w policy patch (target_namespaces policy) history)"

lemma trigger_pods_client:
  "client (snd (trigger_pods w policy ctx)) = client ctx @
     trigger_requests w policy
       (touch_annotations w (ctx_operator_pod_name ctx) (policy_name_any policy) (now_of w ctx))
       (client ctx)"
  by (simp add: trigger_pods_def trigger_requests_def list_pods_def touch_pods_send
      touch_namespaces_send Let_def split: sum.split)

lemma trigger_pods_frame:
  "policies (snd (trigger_pods w policy ctx)) = policies ctx"
  "policy_store (snd (trigger_pods w policy ctx)) = policy_store ctx"
  "evaluator (snd (trigger_pods w policy ctx)) = evaluator ctx"
  "rate_limiter (snd (trigger_pods w policy ctx)) = rate_limiter ctx"
  "ctx_metrics (snd (trigger_pods w policy ctx)) = ctx_metrics ctx"
  "ticks (snd (trigger_pods w policy ctx)) = ticks ctx + 1"
  by (simp_all add: trigger_pods_def list_pods_def touch_pods_send touch_namespaces_send Let_def
      split: sum.split)

lemma trigger_pods_result:
  "fst (trigger_pods w policy ctx) = Inr AwaitChange
   \<or> fst (trigger_pods w policy ctx) = Inr (Requeue 60) \<and> target_namespaces policy = []
     \<and> (\<exists>e. list_reply w (client ctx @ [ListPods None (label_selector policy)]) = Inl e)"
  by (simp add: trigger_pods_def list_pods_def Let_def split: sum.split)

text \<open>The request that reports a verdict, if it is to be reported.\<close>

definition verdict_requests :: "'p World \<Rightarrow> DepodPolicy \<Rightarrow> verdict \<Rightarrow> string \<Rightarrow> Request list" where
  "verdict_requests w policy v now_text =
     (if unreported v (policy_status policy)
      then [PatchPolicyStatus (get_policy_namespace policy) (policy_name_any policy)
              (default_status\<lparr>conditions := [verdict_condition v now_text]\<rparr>)]
      else [])"

lemma reconcile_policy_effect:
  assumes "cache_coherent (cel w) (evaluator ctx)" and "reconcile_policy w policy ctx = (res, ctx')"
  obtains now_text patch where
    "client ctx' = client ctx @ verdict_requests w policy (policy_verdict (cel w) policy) now_text
       @ (if policy_verdict (cel w) policy = Good
          then trigger_requests w policy patch
                 (client ctx @ verdict_requests w policy (policy_verdict (cel w) policy) now_text)
          else [])"
    and "policies ctx' = (if policy_verdict (cel w) policy = Good
                          then valid_policies (policy_store ctx) else policies ctx)"
    and "policy_store ctx' = policy_store ctx" and "rate_limiter ctx' = rate_limiter ctx"
    and "ctx_metrics ctx' = ctx_metrics ctx" and "cache_coherent (cel w) (evaluator ctx')"
    and "ticks ctx \<le> ticks ctx'"
    and "res = Inr AwaitChange \<or> res = Inr (Requeue 60) \<and> policy_verdict (cel w) policy = Good
       \<and> target_namespaces policy = []
       \<and> (\<exists>h e. list_reply w (h @ [ListPods None (label_selector policy)]) = Inl e)"
proof -
  let ?v = "policy_verdict (cel w) policy"
  obtain cache where cache: "cache_coherent (cel w) cache"
    and eq: "reconcile_policy w policy ctx =
      (let v = ?v;
           report_verdict = report w policy (unreported v (policy_status policy)) (verdict_condition v);
           ctx1 = ctx\<lparr>evaluator := cache\<rparr>
       in if v = Good then trigger_pods w policy (report_verdict (refresh_policies ctx1))
          else (Inr AwaitChange, report_verdict ctx1))"
    using reconcile_policy_verdict [OF assms(1)] .
  let ?r = "report w policy (unreported ?v (policy_status policy)) (verdict_condition ?v)"
  let ?t = "to_rfc3339 w (now_of w ctx)"
  show thesis
  proof (cases "?v = Good")
    case False
    then have "res = Inr AwaitChange" "ctx' = ?r (ctx\<lparr>evaluator := cache\<rparr>)"
      using assms(2) eq by (simp_all add: Let_def)
    then show thesis using False cache
      by (intro that [of ?t]) (simp_all add: report_request verdict_requests_def now_of_def)
  next
    case True
    let ?c = "?r (refresh_policies (ctx\<lparr>evaluator := cache\<rparr>))"
    have r: "res = fst (trigger_pods w policy ?c)" "ctx' = snd (trigger_pods w policy ?c)"
      using assms(2) eq True by (simp_all add: Let_def)
    have c: "client ?c = client ctx @ verdict_requests w policy ?v ?t"
      by (simp add: report_request verdict_requests_def now_of_def refresh_policies_def)
    have res: "res = Inr AwaitChange \<or> res = Inr (Requeue 60) \<and> ?v = Good
        \<and> target_namespaces policy = []
        \<and> (\<exists>h e. list_reply w (h @ [ListPods None (label_selector policy)]) = Inl e)"
      using trigger_pods_result [of w policy ?c] r(1) True by blast
    show thesis
      by (rule that [of ?t "touch_annotations w (ctx_operator_pod_name ?c) (policy_name_any policy) (now_of w ?c)"])
        (use r(2) c True cache res
          in \<open>simp_all add: trigger_pods_client trigger_pods_frame refresh_policies_def\<close>)
  qed
qed

section \<open>The cache of policies\<close>

lemma policy_verdict_Good:
  "policy_verdict lib policy = Good \<longleftrightarrow> validate_spec (policy_spec policy) = Inr ()
     \<and> (\<forall>expr. condition_type (spec_when (policy_spec policy)) = CEL
           \<and> expression (spec_when (policy_spec policy)) = Some expr
           \<longrightarrow> (\<exists>prog. compile lib expr = Inr prog))"
proof (cases "condition_type (spec_when (policy_spec policy))")
  case CEL
  show ?thesis
  proof (cases "expression (spec_when (policy_spec policy))")
    case (Some e)
    then show ?thesis using CEL
      by (cases "validate_spec (policy_spec policy)"; cases "compile lib e")
        (simp_all add: policy_verdict_def)
  qed (use CEL in \<open>cases "validate_spec (policy_spec policy)"; simp add: policy_verdict_def\<close>)
qed (cases "validate_spec (policy_spec policy)"; simp add: policy_verdict_def)

text \<open>
  C17. Reconciling a good policy makes the cache the policies of the store whose spec is valid,
  in the order of the store. Reconciling a policy with an invalid spec or an expression that
  does not compile leaves the cache as it is: a version of the policy that is already cached
  stays in it.
\<close>

theorem reconcile_policy_cache:
  assumes "cache_coherent (cel w) (evaluator ctx)" and "reconcile_policy w policy ctx = (res, ctx')"
  shows "policies ctx' =
           (if well_formed_spec (policy_spec policy)
             \<and> (\<forall>expr. condition_type (spec_when (policy_spec policy)) = CEL
                   \<and> expression (spec_when (policy_spec policy)) = Some expr
                   \<longrightarrow> (\<exists>prog. compile (cel w) expr = Inr prog))
            then filter (\<lambda>p. well_formed_spec (policy_spec p)) (policy_store ctx)
            else policies ctx)
       \<and> policy_store ctx' = policy_store ctx"
proof -
  note good = policy_verdict_Good [of "cel w" policy, unfolded validate_spec_Inr]
  have "policies ctx' = (if policy_verdict (cel w) policy = Good
      then valid_policies (policy_store ctx) else policies ctx)"
    by (rule reconcile_policy_effect [OF assms])
  moreover have "policy_store ctx' = policy_store ctx" by (rule reconcile_policy_effect [OF assms])
  ultimately show ?thesis unfolding good valid_policies_def validate_spec_Inr by (rule conjI)
qed

theorem reconcile_policy_cache_witness:
  "\<exists>res ctx'. reconcile_policy sample_world (ttl_policy ''p'' 600)
        (sample_context [ttl_policy ''p'' 600, ttl_policy ''q'' 0]) = (res, ctx')
     \<and> policies ctx' = [ttl_policy ''p'' 600]"
proof -
  let ?ctx = "sample_context [ttl_policy ''p'' 600, ttl_policy ''q'' 0]"
  obtain res ctx' where r: "reconcile_policy sample_world (ttl_policy ''p'' 600) ?ctx = (res, ctx')"
    by (cases "reconcile_policy sample_world (ttl_policy ''p'' 600) ?ctx")
  have "policies ctx' = [ttl_policy ''p'' 600]"
    using reconcile_policy_cache [OF sample_coherent r]
    by (simp add: sample_policy_defs well_formed_spec_def well_formed_when_def)
  then show ?thesis using r by blast
qed

text \<open>
  A policy whose expression does not compile never enters the cache through its own
  reconciliation, but it does through anybody else's: when the store holds it and a good
  policy is reconciled, the refresh caches it, because the refresh only validates the specs.
\<close>

theorem uncompilable_policy_cached:
  assumes "cache_coherent (cel w) (evaluator ctx)"
    and "broken \<in> set (policy_store ctx)" and "validate_spec (policy_spec broken) = Inr ()"
    and "policy_verdict (cel w) broken = BadCel m" and "policy_verdict (cel w) good = Good"
  shows "broken \<in> set (policies (snd (reconcile_policy w good ctx)))
       \<and> policies (snd (reconcile_policy w broken ctx)) = policies ctx"
proof -
  have "policies (snd (reconcile_policy w p ctx)) = (if policy_verdict (cel w) p = Good
      then valid_policies (policy_store ctx) else policies ctx)" for p
    by (rule reconcile_policy_effect [OF assms(1), of p "fst (reconcile_policy w p ctx)"
          "snd (reconcile_policy w p ctx)"]) (simp, assumption)
  then show ?thesis using assms(2-) by (simp add: valid_policies_def)
qed

text \<open>
  An expression the sample library refuses would have to be empty, which validation refuses
  already; this one only knows the variable \<open>age\<close>.
\<close>

definition age_world :: "string World" where
  "age_world = sample_world\<lparr>cel := var_lib
     \<lparr>compile := (\<lambda>e. if e = ''age'' then Inr e else Inl ''undeclared reference'')\<rparr>\<rparr>"

lemma age_world_coherent [simp]: "cache_coherent (cel age_world) (evaluator (sample_context ps))"
  by (simp add: sample_context_def)

theorem uncompilable_policy_cached_witness:
  "cel_policy ''q'' ''ag'' \<in> set (policies (snd (reconcile_policy age_world (cel_policy ''p'' ''age'')
     (sample_context [cel_policy ''q'' ''ag'', cel_policy ''p'' ''age'']))))"
proof -
  have v: "validate_spec (policy_spec (cel_policy n e)) = Inr ()" if "\<not> trim_is_empty e" for n e
    using that by (simp add: validate_spec_Inr well_formed_spec_def well_formed_when_def cel_policy_def)
  have n: "\<not> trim_is_empty ''age''" "\<not> trim_is_empty ''ag''" by code_simp+
  have "policy_verdict (cel age_world) (cel_policy ''q'' ''ag'')
      = BadCel (cel_message (CelCompilationError ''undeclared reference''))"
    using v [OF n(2), of "''q''"] by (simp add: policy_verdict_def age_world_def cel_policy_def)
  moreover have "policy_verdict (cel age_world) (cel_policy ''p'' ''age'') = Good"
    using v [OF n(1), of "''p''"] by (simp add: policy_verdict_def age_world_def cel_policy_def)
  ultimately show ?thesis
    using uncompilable_policy_cached [OF age_world_coherent _ v [OF n(2)],
        of "''q''" "[cel_policy ''q'' ''ag'', cel_policy ''p'' ''age'']"] by simp
qed

section \<open>Reporting\<close>

fun is_status_patch :: "Request \<Rightarrow> bool" where
  "is_status_patch (PatchPolicyStatus _ _ _) = True"
| "is_status_patch _ = False"

definition sent :: "'p Context \<Rightarrow> 'p Context \<Rightarrow> Request list" where
  "sent ctx ctx' = drop (length (client ctx)) (client ctx')"

lemma touches_no_status: "filter is_status_patch (touches policy ns patch pods) = []"
  by (simp add: touches_def filter_empty_conv)

lemma namespace_touches_no_status:
  "filter is_status_patch (namespace_touches w policy patch nss h) = []"
  by (induction nss arbitrary: h) (simp_all add: touches_no_status Let_def split: sum.split)

lemma trigger_requests_no_status:
  "filter is_status_patch (trigger_requests w policy patch h) = []"
  by (simp add: trigger_requests_def namespace_touches_no_status touches_no_status Let_def
      split: sum.split)

lemma default_conditions:
  "default_status\<lparr>conditions := cs\<rparr> = \<lparr>conditions = cs, last_observed_time = None,
     pods_evaluated = 0, pods_matched = 0, pods_deleted = 0, evaluation_errors = 0\<rparr>"
  by (simp add: default_status_def)

lemma status_patches:
  assumes "cache_coherent (cel w) (evaluator ctx)" and "reconcile_policy w policy ctx = (res, ctx')"
  shows "\<exists>now_text. filter is_status_patch (sent ctx ctx')
           = verdict_requests w policy (policy_verdict (cel w) policy) now_text"
  using assms
proof (rule reconcile_policy_effect)
  fix now_text patch
  let ?v = "policy_verdict (cel w) policy"
  assume "client ctx' = client ctx @ verdict_requests w policy ?v now_text
       @ (if ?v = Good
          then trigger_requests w policy patch (client ctx @ verdict_requests w policy ?v now_text)
          else [])"
  then have "filter is_status_patch (sent ctx ctx') = verdict_requests w policy ?v now_text"
    by (simp add: sent_def trigger_requests_no_status) (simp add: verdict_requests_def)
  then show ?thesis ..
qed

text \<open>
  C20. The status patches of a call are exactly the report of the verdict: none if the policy's
  status reports it already, and otherwise one, to the policy itself, with a fresh status whose
  only condition is the verdict and whose counters are zero.
\<close>

theorem reconcile_policy_reports_verdict:
  assumes "cache_coherent (cel w) (evaluator ctx)" and "reconcile_policy w policy ctx = (res, ctx')"
  shows "\<exists>now_text. filter is_status_patch (sent ctx ctx') =
     (let v = policy_verdict (cel w) policy
      in if unreported v (policy_status policy)
         then [PatchPolicyStatus (get_policy_namespace policy) (policy_name_any policy)
                 \<lparr>conditions = [verdict_condition v now_text], last_observed_time = None,
                  pods_evaluated = 0, pods_matched = 0, pods_deleted = 0, evaluation_errors = 0\<rparr>]
         else [])"
  using status_patches [OF assms] unfolding verdict_requests_def Let_def default_conditions .

theorem reconcile_policy_reports_verdict_witness:
  "\<exists>now_text. filter is_status_patch (sent (sample_context [])
       (snd (reconcile_policy sample_world (ttl_policy ''p'' 0) (sample_context []))))
     = [PatchPolicyStatus ''default'' ''p''
          \<lparr>conditions = [invalid_spec now_text
               ''CRD validation error: when.ttlSeconds must be a positive integer''],
           last_observed_time = None,
           pods_evaluated = 0, pods_matched = 0, pods_deleted = 0, evaluation_errors = 0\<rparr>]"
proof -
  let ?r = "reconcile_policy sample_world (ttl_policy ''p'' 0) (sample_context [])"
  have "policy_verdict (cel sample_world) (ttl_policy ''p'' 0)
      = BadSpec ''CRD validation error: when.ttlSeconds must be a positive integer''"
    by (simp add: policy_verdict_def validate_spec_def validate_when_def ttl_policy_def)
  then show ?thesis
    using reconcile_policy_reports_verdict [OF sample_coherent, of "ttl_policy ''p'' 0" "[]" "fst ?r" "snd ?r"]
    by (simp add: failure_unreported_def ttl_policy_def get_policy_namespace_def)
qed

text \<open>
  C10. Reports do not feed on themselves. Once a report has been applied to the policy, that
  is, the policy has a status whose conditions are the reported ones, reconciling it again
  sends no further status patch, whatever the state of the operator has become, as long as the
  spec is the same.
\<close>

theorem report_is_final:
  assumes "cache_coherent (cel w) (evaluator ctx)" and "reconcile_policy w policy ctx = (res, ctx')"
    and "PatchPolicyStatus ns name st \<in> set (sent ctx ctx')"
    and "policy_spec policy' = policy_spec policy" and "policy_status policy' = Some st'"
    and "conditions st' = conditions st"
    and "cache_coherent (cel w) (evaluator ctx2)" and "reconcile_policy w policy' ctx2 = (res2, ctx2')"
  shows "filter is_status_patch (sent ctx2 ctx2') = []"
proof -
  have v: "policy_verdict (cel w) policy' = policy_verdict (cel w) policy"
    unfolding policy_verdict_def assms(4) ..
  have "PatchPolicyStatus ns name st \<in> set (filter is_status_patch (sent ctx ctx'))"
    using assms(3) by simp
  moreover have "filter is_status_patch (sent ctx ctx') \<noteq> [] \<Longrightarrow> \<exists>t.
      filter is_status_patch (sent ctx ctx') = [PatchPolicyStatus (get_policy_namespace policy)
        (policy_name_any policy) (default_status\<lparr>conditions := [verdict_condition (policy_verdict (cel w) policy) t]\<rparr>)]"
    using status_patches [OF assms(1,2)] by (auto simp: verdict_requests_def split: if_splits)
  ultimately obtain t where "conditions st = [verdict_condition (policy_verdict (cel w) policy) t]"
    by fastforce
  then have "\<not> unreported (policy_verdict (cel w) policy') (policy_status policy')"
    using verdict_condition_reported [of st'] assms(5,6) by (simp add: v)
  then show ?thesis using status_patches [OF assms(7,8)] by (auto simp: verdict_requests_def)
qed

theorem report_is_final_witness:
  "filter is_status_patch (sent (sample_context [])
     (snd (reconcile_policy sample_world
        ((ttl_policy ''p'' 0)\<lparr>policy_status := Some (default_status\<lparr>conditions :=
           [invalid_spec ''now'' ''CRD validation error: when.ttlSeconds must be a positive integer'']\<rparr>)\<rparr>)
        (sample_context [])))) = []"
proof -
  let ?st = "default_status\<lparr>conditions :=
     [invalid_spec ''now'' ''CRD validation error: when.ttlSeconds must be a positive integer'']\<rparr>"
  let ?p = "ttl_policy ''p'' 0" and ?q = "(ttl_policy ''p'' 0)\<lparr>policy_status := Some ?st\<rparr>"
  have "sent (sample_context []) (snd (reconcile_policy sample_world ?p (sample_context [])))
      = [PatchPolicyStatus ''default'' ''p'' ?st]" by code_simp
  then show ?thesis
    using report_is_final [OF sample_coherent, of ?p "[]" "fst (reconcile_policy sample_world ?p (sample_context []))"
        "snd (reconcile_policy sample_world ?p (sample_context []))" "''default''" "''p''" ?st ?q ?st
        "sample_context []" "fst (reconcile_policy sample_world ?q (sample_context []))"
        "snd (reconcile_policy sample_world ?q (sample_context []))"]
    by simp
qed

section \<open>Touching the pods\<close>

lemma should_touch_iff:
  "should_touch policy pod \<longleftrightarrow>
     check_trigger pod (annotation_key (spec_trigger (policy_spec policy)))
       (annotation_values (spec_trigger (policy_spec policy)))
   \<and> matches_policy pod policy"
  by (simp add: should_touch_def)






lemma matches_policy_any_namespace:
  "target_namespaces policy = [] \<Longrightarrow> matches_policy (pod\<lparr>pod_namespace := ns\<rparr>) policy = matches_policy pod policy"
  by (auto simp: matches_policy_def target_namespaces_def Let_def split: option.splits if_splits)

lemma touches_any_namespace:
  assumes "target_namespaces policy = []"
  shows "touches policy ns patch (map (\<lambda>pod. pod\<lparr>pod_namespace := f pod\<rparr>) pods) = touches policy ns patch pods"
proof -
  have "should_touch policy (pod\<lparr>pod_namespace := n\<rparr>) = should_touch policy pod" for pod n
    by (simp add: should_touch_iff matches_policy_any_namespace [OF assms] check_trigger_def)
  then show ?thesis by (induction pods) (simp_all add: touches_def)
qed

text \<open>
  A policy without namespaces in its selector touches pods through a handle without a
  namespace: the requests do not say which namespace the pod is in, so relocating the listed
  pods to any other namespaces changes nothing at all in what the call does.
\<close>

theorem unrestricted_touch_ignores_namespaces:
  assumes "target_namespaces policy = []"
  shows "reconcile_policy (w\<lparr>list_reply := \<lambda>_. Inr (map (\<lambda>pod. pod\<lparr>pod_namespace := f pod\<rparr>) pods)\<rparr>) policy ctx
       = reconcile_policy (w\<lparr>list_reply := \<lambda>_. Inr pods\<rparr>) policy ctx"
proof -
  let ?w = "w\<lparr>list_reply := \<lambda>_. Inr pods\<rparr>"
  let ?w' = "w\<lparr>list_reply := \<lambda>_. Inr (map (\<lambda>pod. pod\<lparr>pod_namespace := f pod\<rparr>) pods)\<rparr>"
  have r: "report ?w' policy u c ctx = report ?w policy u c ctx" for u c ctx
    by (simp add: report_def update_policy_status_def now_of_def)
  have t: "trigger_pods ?w' policy ctx = trigger_pods ?w policy ctx" for ctx
    using assms
    by (simp add: trigger_pods_def list_pods_def touch_pods_send touches_any_namespace
        touch_annotations_def now_of_def)
  have v: "validate_policy_cel ?w' policy ctx = validate_policy_cel ?w policy ctx"
  proof -
    have "cel ?w' = cel ?w" by simp
    then show ?thesis by (simp only: validate_policy_cel_def)
  qed
  show ?thesis unfolding reconcile_policy_def r t v ..
qed

theorem unrestricted_touch_ignores_namespaces_witness:
  "reconcile_policy (sample_world\<lparr>list_reply := \<lambda>_. Inr (map (\<lambda>pod. pod\<lparr>pod_namespace := Some ''other''\<rparr>)
        [bare_pod ''d'' ''p'' 0])\<rparr>) (ttl_policy ''t'' 600) (sample_context [])
   = reconcile_policy (sample_world\<lparr>list_reply := \<lambda>_. Inr [bare_pod ''d'' ''p'' 0]\<rparr>)
       (ttl_policy ''t'' 600) (sample_context [])"
  by (rule unrestricted_touch_ignores_namespaces) (simp add: target_namespaces_def sample_policy_defs)

section \<open>How the call ends\<close>

text \<open>
  Reconciling a policy never fails and never panics. It waits for the next change, except
  when the one listing over all namespaces failed, after which it runs again in a minute; a
  failed report, a failed touch or a failed listing of one namespace is not retried.
\<close>

theorem reconcile_policy_result:
  assumes "cache_coherent (cel w) (evaluator ctx)"
  shows "fst (reconcile_policy w policy ctx) = Inr AwaitChange
       \<or> fst (reconcile_policy w policy ctx) = Inr (Requeue 60)
         \<and> policy_verdict (cel w) policy = Good \<and> target_namespaces policy = []
         \<and> (\<exists>h e. list_reply w (h @ [ListPods None (label_selector policy)]) = Inl e)"
  by (rule reconcile_policy_effect [OF assms, of policy "fst (reconcile_policy w policy ctx)"
        "snd (reconcile_policy w policy ctx)"]) (simp, assumption)

theorem reconcile_policy_result_witness:
  "fst (reconcile_policy sample_world (ttl_policy ''t'' 600) (sample_context [])) = Inr AwaitChange"
  using reconcile_policy_result [OF sample_coherent, of "ttl_policy ''t'' 600" "[]"]
  by (auto simp: sample_world_def)

end
