(* ===== verification/Operator_System.thy ===== *)
theory Operator_System
  imports Pod_Timing Policy_Safety
begin

text \<open>
  The operator as \<open>src/main.rs\<close> puts it together: the context is built from the
  configuration, the reflector updates the store of policies, and the two controllers run their
  reconcilers on it, in any order and for any objects. The invariants of the whole history are
  proved here: which pods are ever deleted, how many in a time span, and what the caches hold.
\<close>

section \<open>Start and steps\<close>

text \<open>
  The context \<open>main\<close> builds; the limiter reads the clock, and a reading before the epoch is a
  panic of the start.
\<close>

definition start_context :: "'p World \<Rightarrow> Config \<Rightarrow> 'p Context option" where
  "start_context w config =
     (case new_limiter (clock w 0) (rate_limit_per_minute config) of
        None \<Rightarrow> None
      | Some limiter \<Rightarrow>
          Some \<lparr>client = [], ctx_metrics = new_metrics, evaluator = new_cache, policies = [],
                policy_store = [], rate_limiter = limiter,
                ctx_operator_pod_name = operator_pod_name config,
                ctx_periodic_resync_interval = periodic_resync_interval config,
                ctx_pod_patch_concurrency_limit = pod_patch_concurrency_limit config,
                ticks = 1\<rparr>)"

text \<open>
  The reflector may replace the store by any list of policies; a controller may reconcile any
  pod or policy. A reconciliation that panics ends the controller and is not a step.
\<close>

inductive operator_step :: "'p World \<Rightarrow> 'p Context \<Rightarrow> 'p Context \<Rightarrow> bool" for w :: "'p World" where
  store_sync: "operator_step w ctx (ctx\<lparr>policy_store := store\<rparr>)"
| pod_event: "reconcile_pod w pod ctx = Some (res, ctx') \<Longrightarrow> operator_step w ctx ctx'"
| policy_event: "reconcile_policy w policy ctx = (res, ctx') \<Longrightarrow> operator_step w ctx ctx'"

inductive_cases operator_stepE [consumes 1, case_names store_sync pod_event policy_event]:
  "operator_step w ctx ctx'"

definition operator_reach :: "'p World \<Rightarrow> Config \<Rightarrow> 'p Context \<Rightarrow> bool" where
  "operator_reach w config = reach (\<lambda>ctx. start_context w config = Some ctx) (operator_step w)"

section \<open>What a removal costs\<close>

fun is_removal :: "Request \<Rightarrow> bool" where
  "is_removal (DeletePod _ _ _) = True"
| "is_removal (EvictPod _ _ _) = True"
| "is_removal _ = False"

definition removals :: "Request list \<Rightarrow> nat" where
  "removals rs = length (filter is_removal rs)"

lemma removals_append [simp]: "removals (rs @ rs') = removals rs + removals rs'"
  by (simp add: removals_def)

lemma removals_Nil [simp]: "removals [] = 0"
  by (simp add: removals_def)

lemma deletion_request_removal: "deletion_request w pod policy = Inr r \<Longrightarrow> removals [r] = 1"
  by (auto simp: deletion_request_def removals_def split: ActionType.splits sum.splits)

text \<open>
  Every removal is paid for: the removals so far are at most what the global bucket may have
  granted since the second \<open>t0\<close>, and the start of its window is a reading of the clock.
\<close>

definition paid :: "'p World \<Rightarrow> u64 \<Rightarrow> int \<Rightarrow> 'p Context \<Rightarrow> bool" where
  "paid w limit t0 ctx \<longleftrightarrow>
     limiter_ok (rate_limiter ctx)
   \<and> max_per_minute (global_limiter (rate_limiter ctx)) = limit
   \<and> t0 \<le> int (unat (last_reset (global_limiter (rate_limiter ctx))))
   \<and> int (removals (client ctx)) \<le> bucket_source.spent limit t0 (global_limiter (rate_limiter ctx))
   \<and> (\<exists>i < ticks ctx. unix_secs (clock w i) = Some (last_reset (global_limiter (rate_limiter ctx))))"

lemma last_reset_new: "last_reset (new_bucket_at now limit) = now"
  by (simp add: new_bucket_at_def)

lemma last_reset_allow: "last_reset (snd (allow_at now b)) = last_reset b \<or> last_reset (snd (allow_at now b)) = now"
  by (simp add: bucket_defs)

lemma paid_check:
  assumes "paid w limit t0 ctx" and "check_rate_limits w policy ctx = Some (allowed, ctx')"
  shows "paid w limit t0 ctx'"
    and "allowed \<Longrightarrow> int (removals (client ctx)) + 1
           \<le> bucket_source.spent limit t0 (global_limiter (rate_limiter ctx'))"
proof -
  let ?b = "global_limiter (rate_limiter ctx)"
  obtain now where now: "unix_secs (now_of w ctx) = Some now" and same: "same_but_limiter ctx ctx'"
    and ticks: "ticks ctx < ticks ctx'" and b': "global_limiter (rate_limiter ctx') = snd (allow_at now ?b)"
    and granted: "allowed \<Longrightarrow> fst (allow_at now ?b)"
    and ok: "limiter_ok (rate_limiter ctx) \<Longrightarrow> limiter_ok (rate_limiter ctx')"
    using assms(2) by (rule check_rate_limitsE) blast
  have valid: "bucket_ok ?b \<and> max_per_minute ?b = limit" using assms(1) by (simp add: paid_def limiter_ok_def)
  have t0: "t0 \<le> int (unat (last_reset ?b))" using assms(1) by (simp add: paid_def)
  note s = bucket_source.spent_allow [OF valid t0, of now]
  have "\<exists>i < ticks ctx'. unix_secs (clock w i) = Some (last_reset (snd (allow_at now ?b)))"
    using last_reset_allow [of now ?b] assms(1) now ticks unfolding paid_def now_of_def
    by (metis less_trans)
  moreover have "int (removals (client ctx)) \<le> bucket_source.spent limit t0 (snd (allow_at now ?b))"
    using s(1) assms(1) by (auto simp: paid_def split: if_splits)
  ultimately show "paid w limit t0 ctx'"
    using assms(1) s(2) ok same_but_limiter_frame [OF same] by (simp add: paid_def b')
  show "int (removals (client ctx)) + 1 \<le> bucket_source.spent limit t0 (global_limiter (rate_limiter ctx'))"
    if allowed
    using s(1) granted [OF that] assms(1) by (simp add: paid_def b')
qed

lemma paid_cong:
  "paid w limit t0 ctx \<Longrightarrow> rate_limiter ctx' = rate_limiter ctx \<Longrightarrow>
     removals (client ctx') = removals (client ctx) \<Longrightarrow> ticks ctx \<le> ticks ctx' \<Longrightarrow> paid w limit t0 ctx'"
  unfolding paid_def by (metis less_le_trans)

lemma paid_asked:
  assumes "paid w limit t0 ctx" and "cache_coherent (cel w) (evaluator ctx)"
    and "condition_met w pod policy ttl (count_event PolicyMatches ctx) = (met, ttl', ctx1)"
  shows "paid w limit t0 ctx1" and "client ctx1 = client ctx"
proof -
  have "changes_condition w (count_event PolicyMatches ctx) ctx1"
    by (rule condition_met_result(3) [OF _ assms(3)]) (simp add: assms(2))
  then show "paid w limit t0 ctx1" and "client ctx1 = client ctx"
    using paid_cong [OF assms(1), of ctx1] by (simp_all add: changes_condition_def)
qed

lemma paid_send:
  assumes "paid w limit t0 ctx" and "check_rate_limits w policy ctx = Some (True, ctx2)"
    and "deletion_request w pod policy = Inr r"
  shows "paid w limit t0 (send r ctx2)"
proof -
  have "same_but_limiter ctx ctx2" using assms(2) by (rule check_rate_limitsE)
  then have "client ctx2 = client ctx" by (rule same_but_limiter_frame)
  then show ?thesis
    using paid_check [OF assms(1,2)] deletion_request_removal [OF assms(3)] by (simp add: paid_def)
qed

lemma apply_policy_paid:
  assumes "apply_policy w pod policy ttl ctx = Some (out, ctx')"
    and "cache_coherent (cel w) (evaluator ctx)" and "paid w limit t0 ctx"
  shows "paid w limit t0 ctx'"
  using assms(1)
proof (cases rule: apply_policyE)
  case skipped
  then show ?thesis using assms(3) by simp
next
  case (idle met ttl')
  then show ?thesis using paid_asked(1) [OF assms(3,2)] by simp
next
  case (limited ttl' ctx1 ctx2)
  then show ?thesis using paid_check(1) [OF paid_asked(1) [OF assms(3,2) limited(2)] limited(3)]
    by (auto intro: paid_cong)
next
  case (unencodable ttl' ctx1 e)
  then show ?thesis using paid_check(1) [OF paid_asked(1) [OF assms(3,2) unencodable(2)]] by simp
next
  case (removed ttl' ctx1 ctx2 r)
  then show ?thesis using paid_send [OF paid_asked(1) [OF assms(3,2) removed(2)] removed(5,6)]
    by (auto intro: paid_cong)
next
  case (refused ttl' ctx1 ctx2 r)
  then show ?thesis using paid_send [OF paid_asked(1) [OF assms(3,2) refused(2)] refused(5,6)]
    by (auto intro: paid_cong)
qed

lemma apply_policies_paid:
  assumes "apply_policies w pod ps ttl ctx = Some (out, ctx')"
    and "cache_coherent (cel w) (evaluator ctx)" and "paid w limit t0 ctx"
  shows "paid w limit t0 ctx'"
  using assms
proof (induction rule: apply_policies_induct)
  case (Step p ps ttl ctx ttl1 ctx1 out ctx')
  have "cache_coherent (cel w) (evaluator ctx1)"
    using apply_policy_effect [OF Step.prems(1) Step.hyps(1)] by (simp add: loop_effect_def)
  then show ?case using Step.IH apply_policy_paid [OF Step.hyps(1) Step.prems] by simp
qed (auto intro: apply_policy_paid)

lemma reconcile_pod_paid:
  assumes "reconcile_pod w pod ctx = Some (res, ctx')"
    and "cache_coherent (cel w) (evaluator ctx)" and "paid w limit t0 ctx"
  shows "paid w limit t0 ctx'"
  using assms(1)
proof (rule reconcile_pod_loop)
  fix out
  assume "apply_policies w pod (policies ctx) None (count_event PodsEvaluated ctx) = Some (out, ctx')"
  then show ?thesis
    by (rule apply_policies_paid) (use assms(2,3) in \<open>auto intro: paid_cong\<close>)
qed

lemma no_removal_touches [simp]: "filter is_removal (touches policy ns patch pods) = []"
  by (simp add: touches_def filter_empty_conv)

lemma removals_trigger: "removals (trigger_requests w policy patch h) = 0"
proof -
  have "filter is_removal (namespace_touches w policy patch nss h) = []" for nss h
    by (induction nss arbitrary: h) (simp_all add: Let_def split: sum.split)
  then show ?thesis
    by (simp add: trigger_requests_def removals_def Let_def split: sum.split)
qed

lemma removals_verdict: "removals (verdict_requests w policy v t) = 0"
  by (simp add: verdict_requests_def removals_def)

lemma reconcile_policy_no_removal:
  assumes "cache_coherent (cel w) (evaluator ctx)" and "reconcile_policy w policy ctx = (res, ctx')"
  shows "\<exists>rs. client ctx' = client ctx @ rs \<and> filter is_removal rs = []"
proof (rule reconcile_policy_effect [OF assms])
  fix now_text patch
  let ?v = "policy_verdict (cel w) policy"
  let ?rs = "verdict_requests w policy ?v now_text
       @ (if ?v = Good
          then trigger_requests w policy patch (client ctx @ verdict_requests w policy ?v now_text)
          else [])"
  assume "client ctx' = client ctx @ ?rs"
  moreover have "removals ?rs = 0" by (simp add: removals_trigger removals_verdict)
  then have "filter is_removal ?rs = []" by (simp only: removals_def length_0_conv)
  ultimately show ?thesis by blast
qed

section \<open>The invariant of the operator\<close>

definition authorised_removal :: "'p World \<Rightarrow> nat \<Rightarrow> Request \<Rightarrow> bool" where
  "authorised_removal w n r \<longleftrightarrow>
     (\<exists>pod policy i. i < n \<and> well_formed_spec (policy_spec policy)
        \<and> authorises w policy pod (clock w i) r)"

definition operator_ok :: "'p World \<Rightarrow> u64 \<Rightarrow> int \<Rightarrow> 'p Context \<Rightarrow> bool" where
  "operator_ok w limit t0 ctx \<longleftrightarrow>
     cache_coherent (cel w) (evaluator ctx)
   \<and> (\<forall>p \<in> set (policies ctx). well_formed_spec (policy_spec p))
   \<and> paid w limit t0 ctx
   \<and> (\<forall>r \<in> set (client ctx). is_removal r \<longrightarrow> authorised_removal w (ticks ctx) r)"

lemma authorised_removal_mono:
  "authorised_removal w n r \<Longrightarrow> n \<le> m \<Longrightarrow> authorised_removal w m r"
  unfolding authorised_removal_def by (meson less_le_trans)

lemma operator_ok_store: "operator_ok w limit t0 ctx \<Longrightarrow> operator_ok w limit t0 (ctx\<lparr>policy_store := store\<rparr>)"
  by (simp add: operator_ok_def paid_def)

lemma operator_ok_pod:
  assumes "operator_ok w limit t0 ctx" and run: "reconcile_pod w pod ctx = Some (res, ctx')"
  shows "operator_ok w limit t0 ctx'"
proof -
  have coherent: "cache_coherent (cel w) (evaluator ctx)" using assms(1) by (simp add: operator_ok_def)
  note e = reconcile_pod_effect [OF run coherent]
  obtain rs where rs: "client ctx' = client ctx @ rs"
      "\<forall>r \<in> set rs. \<exists>p \<in> set (policies ctx). justified w pod p (ticks ctx) (ticks ctx') r"
    using e by (auto simp: loop_effect_def)
  have "authorised_removal w (ticks ctx') r" if "r \<in> set (client ctx')" "is_removal r" for r
  proof (cases "r \<in> set rs")
    case True
    then obtain p where "p \<in> set (policies ctx)" "justified w pod p (ticks ctx) (ticks ctx') r"
      using rs(2) by blast
    then show ?thesis using justified_authorises assms(1)
      unfolding authorised_removal_def operator_ok_def by blast
  next
    case False
    then have "authorised_removal w (ticks ctx) r"
      using that rs(1) assms(1) by (simp add: operator_ok_def)
    then show ?thesis
      by (rule authorised_removal_mono) (use e in \<open>simp add: loop_effect_def\<close>)
  qed
  then show ?thesis
    using assms(1) e reconcile_pod_paid [OF run coherent] by (simp add: operator_ok_def loop_effect_def)
qed

lemma operator_ok_policy:
  assumes "operator_ok w limit t0 ctx" and run: "reconcile_policy w policy ctx = (res, ctx')"
  shows "operator_ok w limit t0 ctx'"
proof -
  have coherent: "cache_coherent (cel w) (evaluator ctx)" using assms(1) by (simp add: operator_ok_def)
  note e = reconcile_policy_effect [OF coherent run]
  obtain rs where rs: "client ctx' = client ctx @ rs" "filter is_removal rs = []"
    using reconcile_policy_no_removal [OF coherent run] by blast
  have ticks: "ticks ctx \<le> ticks ctx'" by (rule e)
  have limiter: "rate_limiter ctx' = rate_limiter ctx" by (rule e)
  have "policies ctx' = (if policy_verdict (cel w) policy = Good
      then valid_policies (policy_store ctx) else policies ctx)" by (rule e)
  then have "\<forall>p \<in> set (policies ctx'). well_formed_spec (policy_spec p)"
    using assms(1) by (simp add: operator_ok_def valid_policies_def validate_spec_Inr)
  moreover have "cache_coherent (cel w) (evaluator ctx')" by (rule e)
  moreover have "paid w limit t0 ctx'"
    by (rule paid_cong [of w limit t0 ctx])
      (use assms(1) limiter ticks rs in \<open>simp_all add: operator_ok_def removals_def\<close>)
  moreover have "authorised_removal w (ticks ctx') r" if "r \<in> set (client ctx')" "is_removal r" for r
  proof -
    have "r \<in> set (client ctx)" using that rs by (auto simp: filter_empty_conv)
    then have "authorised_removal w (ticks ctx) r"
      using assms(1) that(2) by (simp add: operator_ok_def)
    then show ?thesis using ticks by (rule authorised_removal_mono)
  qed
  ultimately show ?thesis by (simp add: operator_ok_def)
qed

lemma operator_ok_start:
  assumes "start_context w config = Some ctx"
  obtains t0 where "unix_secs (clock w 0) = Some t0"
    and "operator_ok w (rate_limit_per_minute config) (int (unat t0)) ctx"
proof -
  obtain l where l: "new_limiter (clock w 0) (rate_limit_per_minute config) = Some l"
    using assms by (auto simp: start_context_def split: option.splits)
  then obtain t0 where t0: "unix_secs (clock w 0) = Some t0"
      "l = \<lparr>global_limiter = new_bucket_at t0 (rate_limit_per_minute config), policy_limiters = Map.empty\<rparr>"
    by (auto simp: new_limiter_def new_bucket_def split: option.splits)
  have "0 \<le> bucket_source.spent (rate_limit_per_minute config) (int (unat t0))
      (new_bucket_at t0 (rate_limit_per_minute config))"
    unfolding bucket_source.spent_def by (simp add: new_bucket_at_def)
  then have "operator_ok w (rate_limit_per_minute config) (int (unat t0)) ctx"
    using assms l t0
    by (auto simp: start_context_def operator_ok_def paid_def limiter_ok_def last_reset_new)
  then show thesis using t0(1) that by blast
qed

interpretation operator_run: invariant_system
    "\<lambda>ctx. start_context w config = Some ctx" "operator_step w"
    "\<lambda>ctx. \<exists>t0. unix_secs (clock w 0) = Some t0
        \<and> operator_ok w (rate_limit_per_minute config) (int (unat t0)) ctx"
  for w :: "'p World" and config :: Config
proof
  show "\<exists>t0. unix_secs (clock w 0) = Some t0
      \<and> operator_ok w (rate_limit_per_minute config) (int (unat t0)) ctx"
    if "start_context w config = Some ctx" for ctx
    using that by (rule operator_ok_start) blast
  show "\<exists>t0. unix_secs (clock w 0) = Some t0
      \<and> operator_ok w (rate_limit_per_minute config) (int (unat t0)) ctx'"
    if "\<exists>t0. unix_secs (clock w 0) = Some t0
      \<and> operator_ok w (rate_limit_per_minute config) (int (unat t0)) ctx" "operator_step w ctx ctx'"
    for ctx ctx'
    using that(2,1)
    by (cases rule: operator_stepE) (blast intro: operator_ok_store operator_ok_pod operator_ok_policy)+
qed

lemma operator_reach_ok:
  assumes "operator_reach w config ctx"
  obtains t0 where "unix_secs (clock w 0) = Some t0"
    and "operator_ok w (rate_limit_per_minute config) (int (unat t0)) ctx"
  using operator_run.reach_inv [OF assms [unfolded operator_reach_def]] by blast

text \<open>What is paid for stays within the limit of every started minute.\<close>

lemma paid_rate_limited:
  assumes t0: "unix_secs (clock w 0) = Some t0" and paid: "paid w limit (int (unat t0)) ctx"
    and "T < 2 ^ 64 - 1" and "\<forall>i < ticks ctx. clock w i < (T + 1) * nanos_per_sec"
  shows "0 \<le> clock w 0 \<and> int (removals (client ctx))
           \<le> int (unat limit) * (1 + (T - clock w 0 div nanos_per_sec) div 60)"
proof -
  let ?b = "global_limiter (rate_limiter ctx)"
  have secs: "int (unat s) = c div nanos_per_sec \<and> int (unat s) \<le> T" "0 \<le> c"
    if "unix_secs c = Some s" "c < (T + 1) * nanos_per_sec" for c s
    using that unat_unix_secs [OF that(1)] assms(3)
    by (auto simp: unix_secs_def split: if_splits)
  obtain i where i: "i < ticks ctx" "unix_secs (clock w i) = Some (last_reset ?b)"
    using paid by (auto simp: paid_def)
  have last: "int (unat (last_reset ?b)) \<le> T" using secs [OF i(2)] i(1) assms(4) by blast
  have "0 < ticks ctx" using i(1) by simp
  then have start: "int (unat t0) = clock w 0 div nanos_per_sec" "0 \<le> clock w 0"
    using secs [OF t0] assms(4) by blast+
  have "int (removals (client ctx)) \<le> bucket_source.spent limit (int (unat t0)) ?b"
    using paid by (simp add: paid_def)
  also have "\<dots> \<le> int (unat limit) * (1 + (int (unat (last_reset ?b)) - int (unat t0)) div 60)"
    by (rule bucket_source.spent_le)
  also have "\<dots> \<le> int (unat limit) * (1 + (T - int (unat t0)) div 60)"
    using last by (intro mult_left_mono add_left_mono zdiv_mono1) simp_all
  finally show ?thesis using start by simp
qed

section \<open>Properties of every history\<close>

text \<open>
  In whatever order the store is synchronised and pods and policies are reconciled, every
  deletion or eviction the operator has ever sent was authorised: some policy with a valid spec
  selected that pod, was triggered by its annotation, did not protect its namespace, was not a
  dry run, and its condition held at a reading of the clock before the request.
\<close>

theorem every_removal_authorised:
  assumes "operator_reach w config ctx" and "r \<in> set (client ctx)" and "is_removal r"
  shows "\<exists>pod policy i. i < ticks ctx \<and> validate_spec (policy_spec policy) = Inr ()
           \<and> authorises w policy pod (clock w i) r"
  using assms(1)
proof (rule operator_reach_ok)
  fix t0 :: u64
  assume "operator_ok w (rate_limit_per_minute config) (int (unat t0)) ctx"
  then show ?thesis using assms(2,3)
    by (auto simp: operator_ok_def authorised_removal_def validate_spec_Inr)
qed

text \<open>
  The operator as a whole keeps its global limit: from its start to any later moment it has
  sent at most \<open>RATE_LIMIT_PER_MINUTE\<close> deletions and evictions for every started minute, if no
  reading of the clock was later than the second \<open>T\<close>; failed requests count too. Neither jumps
  of the clock backwards nor the number of policies, pods or reconciliations weaken the bound.
\<close>

theorem removals_rate_limited:
  assumes "operator_reach w config ctx" and "T < 2 ^ 64 - 1"
    and "\<forall>i < ticks ctx. clock w i < (T + 1) * nanos_per_sec"
  shows "0 \<le> clock w 0 \<and> int (length (filter is_removal (client ctx)))
           \<le> int (unat (rate_limit_per_minute config)) * (1 + (T - clock w 0 div nanos_per_sec) div 60)"
  using assms(1)
proof (rule operator_reach_ok)
  fix t0 :: u64
  assume t0: "unix_secs (clock w 0) = Some t0"
    and "operator_ok w (rate_limit_per_minute config) (int (unat t0)) ctx"
  then show ?thesis using paid_rate_limited [OF t0 _ assms(2,3)]
    unfolding operator_ok_def removals_def by blast
qed

text \<open>What validation says of the condition.\<close>

lemma well_formed_shape:
  "well_formed_spec (policy_spec p) \<Longrightarrow> validate_spec (policy_spec p) = Inr ()
           \<and> (case condition_type (spec_when (policy_spec p)) of
                Builtin \<Rightarrow> (\<exists>ttl. ttl_seconds (spec_when (policy_spec p)) = Some ttl \<and> 0 < sint ttl)
                         \<and> expression (spec_when (policy_spec p)) = None
              | CEL \<Rightarrow> (\<exists>expr. expression (spec_when (policy_spec p)) = Some expr \<and> \<not> trim_is_empty expr)
                     \<and> ttl_seconds (spec_when (policy_spec p)) = None)"
  unfolding validate_spec_Inr
  by (auto simp: well_formed_spec_def well_formed_when_def split: ConditionType.splits)

text \<open>
  At any moment every cached policy passed validation: a TTL policy has a positive TTL and
  no expression, a CEL policy an expression that is not blank and no TTL. So the branches of the
  pod reconciler for a missing TTL or a missing expression are never taken, and every program in
  the evaluator's cache is the compiled form of its expression.
\<close>

theorem operator_caches_sound:
  assumes "operator_reach w config ctx"
  shows "(\<forall>p \<in> set (policies ctx). validate_spec (policy_spec p) = Inr ()
           \<and> (case condition_type (spec_when (policy_spec p)) of
                Builtin \<Rightarrow> (\<exists>ttl. ttl_seconds (spec_when (policy_spec p)) = Some ttl \<and> 0 < sint ttl)
                         \<and> expression (spec_when (policy_spec p)) = None
              | CEL \<Rightarrow> (\<exists>expr. expression (spec_when (policy_spec p)) = Some expr \<and> \<not> trim_is_empty expr)
                     \<and> ttl_seconds (spec_when (policy_spec p)) = None))
       \<and> (\<forall>expr prog. evaluator ctx expr = Some prog \<longrightarrow> compile (cel w) expr = Inr prog)"
  using assms
proof (rule operator_reach_ok)
  fix t0 :: u64
  assume ok: "operator_ok w (rate_limit_per_minute config) (int (unat t0)) ctx"
  have "\<forall>expr prog. evaluator ctx expr = Some prog \<longrightarrow> compile (cel w) expr = Inr prog"
    using ok unfolding operator_ok_def cache_coherent_def by blast
  moreover have "\<forall>p \<in> set (policies ctx). well_formed_spec (policy_spec p)"
    using ok by (simp add: operator_ok_def)
  ultimately show ?thesis using well_formed_shape by blast
qed

section \<open>A sample history\<close>

text \<open>
  The store is synchronised, the policy reconciled, then an expired pod.
\<close>

definition sample_config :: Config where
  "sample_config = from_env Map.empty"

definition sample_history :: "string Context option" where
  "sample_history =
     (case start_context sample_world sample_config of
        None \<Rightarrow> None
      | Some ctx \<Rightarrow>
          map_option snd (reconcile_pod sample_world (bare_pod ''d'' ''p'' 0)
            (snd (reconcile_policy sample_world (ttl_policy ''t'' 600)
              (ctx\<lparr>policy_store := [ttl_policy ''t'' 600]\<rparr>)))))"

lemma sample_history_requests:
  "map_option (\<lambda>ctx. (filter is_removal (client ctx), ticks ctx)) sample_history
     = Some ([DeletePod ''d'' ''p'' (Some 30)], 7)"
  by code_simp

lemma sample_history_reach:
  assumes "sample_history = Some ctx"
  shows "operator_reach sample_world sample_config ctx"
proof -
  obtain a where a: "start_context sample_world sample_config = Some a"
    using assms by (auto simp: sample_history_def split: option.splits)
  define b where "b = a\<lparr>policy_store := [ttl_policy ''t'' 600]\<rparr>"
  define c where "c = snd (reconcile_policy sample_world (ttl_policy ''t'' 600) b)"
  obtain res where res: "reconcile_pod sample_world (bare_pod ''d'' ''p'' 0) c = Some (res, ctx)"
    using assms a by (auto simp: sample_history_def b_def [symmetric] c_def [symmetric])
  let ?R = "reach (\<lambda>ctx. start_context sample_world sample_config = Some ctx) (operator_step sample_world)"
  have "?R a" using a by (rule reach_init)
  then have "?R b" unfolding b_def using store_sync by (rule reach_step)
  moreover have "operator_step sample_world b c"
    unfolding c_def by (rule policy_event [OF prod.collapse [symmetric]])
  ultimately have "?R c" by (rule reach_step)
  then have "?R ctx" using pod_event [OF res] by (rule reach_step)
  then show ?thesis by (simp add: operator_reach_def)
qed

lemma sample_historyE:
  obtains ctx where "operator_reach sample_world sample_config ctx"
    and "filter is_removal (client ctx) = [DeletePod ''d'' ''p'' (Some 30)]" and "ticks ctx = 7"
proof -
  obtain ctx where ctx: "sample_history = Some ctx"
      "filter is_removal (client ctx) = [DeletePod ''d'' ''p'' (Some 30)]" "ticks ctx = 7"
    using sample_history_requests by auto
  show thesis by (rule that [OF sample_history_reach [OF ctx(1)] ctx(2,3)])
qed

theorem every_removal_authorised_witness:
  "\<exists>pod policy now. authorises sample_world policy pod now (DeletePod ''d'' ''p'' (Some 30))"
proof (rule sample_historyE)
  fix ctx
  assume r: "operator_reach sample_world sample_config ctx"
    and f: "filter is_removal (client ctx) = [DeletePod ''d'' ''p'' (Some 30)]"
  have "DeletePod ''d'' ''p'' (Some 30) \<in> set (filter is_removal (client ctx))" by (simp add: f)
  then show ?thesis using every_removal_authorised [OF r] by fastforce
qed

theorem removals_rate_limited_witness:
  "int (length [DeletePod ''d'' ''p'' (Some 30)])
     \<le> int (unat (rate_limit_per_minute sample_config))
         * (1 + (1010 - clock sample_world 0 div nanos_per_sec) div 60)"
proof (rule sample_historyE)
  fix ctx
  assume r: "operator_reach sample_world sample_config ctx"
    and f: "filter is_removal (client ctx) = [DeletePod ''d'' ''p'' (Some 30)]" and n: "ticks ctx = 7"
  have "\<forall>i < ticks ctx. clock sample_world i < (1010 + 1) * nanos_per_sec"
    by (simp add: n sample_world_def)
  then show ?thesis using removals_rate_limited [OF r, of 1010] unfolding f by simp
qed

theorem operator_caches_sound_witness:
  "\<exists>ctx. operator_reach sample_world sample_config ctx
     \<and> (\<forall>p \<in> set (policies ctx). validate_spec (policy_spec p) = Inr ())"
proof (rule sample_historyE)
  fix ctx
  assume r: "operator_reach sample_world sample_config ctx"
  show ?thesis using operator_caches_sound [OF r] r by blast
qed

end
