(* ===== verification/Pod_Tasks.thy ===== *)
theory Pod_Tasks
  imports Pod_Reconciler
begin

text \<open>
  \<open>reconcile_pod\<close> of \<open>src/controller.rs\<close> as the task that the controller runtime spawns for
  it: the places where a call can be interrupted are states of their own, and what other tasks
  do to the shared context can happen between them. A state holds the locals of the call that are
  still needed, in particular the guard of the cached policies, which stays as it was loaded.
  Run without interruption a task is the function \<^const>\<open>reconcile_pod\<close>, and every
  task comes to its end within a number of steps that is fixed once it has loaded the policies.
\<close>

section \<open>The states of a task\<close>

text \<open>
  The policies in a state are the one at work and those still to come; the number is the
  pending requeue. A task in \<open>Awaiting\<close> has sent a request and waits for the answer, with the
  history of requests that determines it.
\<close>

datatype task =
    Called Pod
  | Loading Pod
  | Looping Pod "DepodPolicy list" "u64 option"
  | Evaluating Pod DepodPolicy "DepodPolicy list" "u64 option"
  | AskingGlobal Pod DepodPolicy "DepodPolicy list" "u64 option"
  | AskingPolicy bool Pod DepodPolicy "DepodPolicy list" "u64 option"
  | Sending Pod DepodPolicy "DepodPolicy list" "u64 option"
  | Awaiting "Request list" Request Pod "DepodPolicy list" "u64 option"
  | Finished "Action Result"

fun is_finished :: "task \<Rightarrow> bool" where
  "is_finished (Finished _) = True"
| "is_finished _ = False"

section \<open>The step of a task\<close>

text \<open>
  One step on the shared context: one access to the cache of policies, to a limiter, to the
  API server, or one evaluation of the condition. A panic is \<^term>\<open>None\<close>.
\<close>

definition evaluate_step ::
  "'p World \<Rightarrow> Pod \<Rightarrow> DepodPolicy \<Rightarrow> DepodPolicy list \<Rightarrow> u64 option \<Rightarrow> 'p Context \<Rightarrow> task \<times> 'p Context"
where
  "evaluate_step w pod policy rest ttl_requeue ctx =
     (let (met, ttl_requeue', ctx1) = condition_met w pod policy ttl_requeue ctx
      in if \<not> met then (Looping pod rest ttl_requeue', ctx1)
         else if protected_by pod policy then (Looping pod rest ttl_requeue', ctx1)
         else if dry_run (spec_then (policy_spec policy)) then (Looping pod rest ttl_requeue', ctx1)
         else (AskingGlobal pod policy rest ttl_requeue', ctx1))"

fun task_step :: "'p World \<Rightarrow> task \<Rightarrow> 'p Context \<Rightarrow> (task \<times> 'p Context) option" where
  "task_step w (Called pod) ctx = Some (Loading pod, count_event PodsEvaluated ctx)"
| "task_step w (Loading pod) ctx = Some (Looping pod (policies ctx) None, ctx)"
| "task_step w (Looping pod [] ttl_requeue) ctx =
     Some (Finished (Inr (final_action ctx ttl_requeue)), ctx)"
| "task_step w (Looping pod (policy # rest) ttl_requeue) ctx =
     (if \<not> matches_policy pod policy then Some (Looping pod rest ttl_requeue, ctx)
      else if \<not> check_trigger pod (annotation_key (spec_trigger (policy_spec policy)))
                 (annotation_values (spec_trigger (policy_spec policy)))
      then Some (Looping pod rest ttl_requeue, ctx)
      else Some (Evaluating pod policy rest ttl_requeue, count_event PolicyMatches ctx))"
| "task_step w (Evaluating pod policy rest ttl_requeue) ctx =
     Some (evaluate_step w pod policy rest ttl_requeue ctx)"
| "task_step w (AskingGlobal pod policy rest ttl_requeue) ctx =
     (case ask_global w ctx of
        None \<Rightarrow> None
      | Some (global_allowed, ctx1) \<Rightarrow>
          Some (AskingPolicy global_allowed pod policy rest ttl_requeue, ctx1))"
| "task_step w (AskingPolicy global_allowed pod policy rest ttl_requeue) ctx =
     (case ask_policy w (policy_name_any policy)
             (max_deletes_per_minute (spec_limits (policy_spec policy))) ctx of
        None \<Rightarrow> None
      | Some (policy_allowed, ctx1) \<Rightarrow>
          if \<not> global_allowed \<or> \<not> policy_allowed
          then Some (Finished (Inr (Requeue 10)), count_event RateLimited ctx1)
          else Some (Sending pod policy rest ttl_requeue, ctx1))"
| "task_step w (Sending pod policy rest ttl_requeue) ctx =
     (case deletion_request w pod policy of
        Inl e \<Rightarrow> Some (Finished (Inl (SerdeError e)), ctx)
      | Inr r \<Rightarrow> Some (Awaiting (client ctx @ [r]) r pod rest ttl_requeue, send r ctx))"
| "task_step w (Awaiting history r pod rest ttl_requeue) ctx =
     (if request_succeeded w history r
      then Some (Finished (Inr AwaitChange), count_event PodsDeleted ctx)
      else Some (Looping pod rest ttl_requeue, count_event EvaluationErrors ctx))"
| "task_step w (Finished res) ctx = Some (Finished res, ctx)"

text \<open>
  How many steps a task still takes at most; before the policies are loaded this depends on how
  many there are.
\<close>

fun steps_left :: "'p Context \<Rightarrow> task \<Rightarrow> nat" where
  "steps_left ctx (Called pod) = 6 * length (policies ctx) + 3"
| "steps_left ctx (Loading pod) = 6 * length (policies ctx) + 2"
| "steps_left ctx (Looping pod ps ttl) = 6 * length ps + 1"
| "steps_left ctx (Evaluating pod p ps ttl) = 6 * length ps + 6"
| "steps_left ctx (AskingGlobal pod p ps ttl) = 6 * length ps + 5"
| "steps_left ctx (AskingPolicy g pod p ps ttl) = 6 * length ps + 4"
| "steps_left ctx (Sending pod p ps ttl) = 6 * length ps + 3"
| "steps_left ctx (Awaiting h r pod ps ttl) = 6 * length ps + 2"
| "steps_left ctx (Finished res) = 0"

fun has_loaded :: "task \<Rightarrow> bool" where
  "has_loaded (Called _) = False"
| "has_loaded (Loading _) = False"
| "has_loaded _ = True"

lemma steps_left_loaded: "has_loaded t \<Longrightarrow> steps_left ctx t = steps_left ctx' t"
  by (cases t) simp_all

lemma has_loaded_step: "task_step w t ctx = Some (t', ctx') \<Longrightarrow> has_loaded t \<Longrightarrow> has_loaded t'"
  by (induction w t ctx rule: task_step.induct)
    (auto simp: evaluate_step_def split: if_splits option.splits sum.splits prod.splits)

lemma steps_left_step:
  "task_step w t ctx = Some (t', ctx') \<Longrightarrow> \<not> is_finished t \<Longrightarrow>
     steps_left ctx' t' < steps_left ctx t"
  by (induction w t ctx rule: task_step.induct)
    (auto simp: evaluate_step_def split: if_splits option.splits sum.splits prod.splits)

lemma task_step_total:
  assumes "\<forall>i. 0 \<le> clock w i"
  shows "\<exists>t' ctx'. task_step w t ctx = Some (t', ctx')"
proof (cases t)
  case (AskingGlobal pod p ps ttl)
  then show ?thesis using ask_global_total [of w ctx] assms
    by (auto simp: now_of_def split: option.splits)
next
  case (AskingPolicy g pod p ps ttl)
  then show ?thesis using ask_policy_total [of w ctx] assms
    by (auto split: option.splits) 
next
  case (Looping pod ps ttl)
  then show ?thesis by (cases ps) auto
next
  case (Sending pod p ps ttl)
  then show ?thesis by (cases "deletion_request w pod p") auto
qed (auto simp: prod.exhaust)

section \<open>A task on its own\<close>

text \<open>The task stepped to its end.\<close>

function run_task :: "'p World \<Rightarrow> task \<Rightarrow> 'p Context \<Rightarrow> (Action Result \<times> 'p Context) option" where
  "run_task w t ctx =
     (case t of
        Finished res \<Rightarrow> Some (res, ctx)
      | _ \<Rightarrow>
          (case task_step w t ctx of
             None \<Rightarrow> None
           | Some (t', ctx') \<Rightarrow> run_task w t' ctx'))"
  by pat_completeness auto
termination
  by (relation "measure (\<lambda>(w, t, ctx). steps_left ctx t)") (auto dest: steps_left_step simp del: task_step.simps steps_left.simps)

declare run_task.simps [simp del]

lemma run_task_finished [simp]: "run_task w (Finished res) ctx = Some (res, ctx)"
  by (simp add: run_task.simps)


text \<open>How the task goes on after the body of the loop.\<close>

definition resume ::
  "'p World \<Rightarrow> Pod \<Rightarrow> DepodPolicy list \<Rightarrow> (outcome \<times> 'p Context) option \<Rightarrow>
     (Action Result \<times> 'p Context) option" where
  "resume w pod rest r =
     (case r of
        None \<Rightarrow> None
      | Some (Next ttl, ctx) \<Rightarrow> run_task w (Looping pod rest ttl) ctx
      | Some (Return action, ctx) \<Rightarrow> Some (Inr action, ctx)
      | Some (Fail e, ctx) \<Rightarrow> Some (Inl e, ctx))"

lemma resume_simps [simp]:
  "resume w pod rest None = None"
  "resume w pod rest (Some (Next ttl, ctx)) = run_task w (Looping pod rest ttl) ctx"
  "resume w pod rest (Some (Return action, ctx)) = Some (Inr action, ctx)"
  "resume w pod rest (Some (Fail e, ctx)) = Some (Inl e, ctx)"
  by (simp_all add: resume_def)






end
