(* ===== verification/Policy_Tasks.thy ===== *)
theory Policy_Tasks
  imports Policy_Safety
begin

text \<open>
  \<open>reconcile_policy\<close> of \<open>src/controller.rs\<close> as the task that the controller runtime spawns for
  it, with a state for each place where a call can be interrupted, and with the patches of the
  pods concurrent, as many at once as \<open>POD_PATCH_CONCURRENCY_LIMIT\<close> allows. Whatever the order
  in which the patches are answered, a task that is not interrupted is the function
  \<^const>\<open>reconcile_policy\<close>, which runs them one after the other, and every task ends.
\<close>

section \<open>The states of a task\<close>

text \<open>
  What is to be listed is a namespace, or \<^term>\<open>None\<close> for \<open>Api::all\<close>; the lists of these in
  the states are still to come. A task in \<open>Reporting\<close> has a verdict to write that the
  policy's status does not show. A task in \<open>Touching\<close> has the pods that the stream has still
  to yield and the patches that have been sent but not answered.
\<close>

datatype policy_task =
    PolicyCalled DepodPolicy
  | Refreshing DepodPolicy
  | Storing DepodPolicy "DepodPolicy list"
  | Reporting DepodPolicy verdict
  | AwaitingReport DepodPolicy verdict
  | Triggering DepodPolicy
  | Listing DepodPolicy "(string \<times> string) list" "string option list"
  | AwaitingList "Request list" DepodPolicy "(string \<times> string) list" "string option" "string option list"
  | Touching DepodPolicy "(string \<times> string) list" "string option" "Pod list" "Request list"
      "string option list"
  | PolicyDone "Action Result"

fun is_done :: "policy_task \<Rightarrow> bool" where
  "is_done (PolicyDone _) = True"
| "is_done _ = False"

fun task_result :: "policy_task \<Rightarrow> Action Result option" where
  "task_result (PolicyDone res) = Some res"
| "task_result _ = None"

lemma task_result_Some: "task_result t = Some res \<longleftrightarrow> t = PolicyDone res"
  by (cases t) auto

section \<open>The step of a task\<close>

definition list_targets :: "DepodPolicy \<Rightarrow> string option list" where
  "list_targets policy =
     (if target_namespaces policy = [] then [None] else map Some (target_namespaces policy))"

text \<open>
  The validations, up to the first report or to the refresh of the cache. A failure that the
  status shows already ends the call.
\<close>

definition validation_step :: "'p World \<Rightarrow> DepodPolicy \<Rightarrow> 'p Context \<Rightarrow> policy_task \<times> 'p Context" where
  "validation_step w policy ctx =
     (case validate_spec (policy_spec policy) of
        Inl e \<Rightarrow>
          (if failure_unreported ''InvalidSpec'' (error_to_string e) (policy_status policy)
           then Reporting policy (BadSpec (error_to_string e)) else PolicyDone (Inr AwaitChange), ctx)
      | Inr _ \<Rightarrow>
          (case validate_policy_cel w policy ctx of
             (Inl e, ctx1) \<Rightarrow>
               (if failure_unreported ''InvalidCEL'' (cel_message e) (policy_status policy)
                then Reporting policy (BadCel (cel_message e)) else PolicyDone (Inr AwaitChange), ctx1)
           | (Inr _, ctx1) \<Rightarrow> (Refreshing policy, ctx1)))"

text \<open>
  A step is either the task going on, or the answer to the \<open>k\<close>-th pending patch, which is only
  logged. The result is \<^term>\<open>None\<close> where the task has to wait or no such patch is pending. Each
  step makes one access to the evaluator, the store, the cache or the API server. The filtered
  stream yields its next pod when \<open>for_each_concurrent\<close> has room, and the patch is sent then.
\<close>

datatype progress = GoOn | PatchAnswered nat

fun policy_step ::
  "'p World \<Rightarrow> progress \<Rightarrow> policy_task \<Rightarrow> 'p Context \<Rightarrow> (policy_task \<times> 'p Context) option" where
  "policy_step w GoOn (PolicyCalled policy) ctx = Some (validation_step w policy ctx)"
| "policy_step w GoOn (Refreshing policy) ctx =
     Some (Storing policy (valid_policies (policy_store ctx)), ctx)"
| "policy_step w GoOn (Storing policy all_policies) ctx =
     Some (if ready_unreported (policy_status policy) then Reporting policy Good else Triggering policy,
           ctx\<lparr>policies := all_policies\<rparr>)"
| "policy_step w GoOn (Reporting policy v) ctx =
     Some (AwaitingReport policy v,
           snd (update_policy_status w (policy_name_any policy) (get_policy_namespace policy)
                  (verdict_condition v (to_rfc3339 w (now_of w ctx))) (tick 1 ctx)))"
| "policy_step w GoOn (AwaitingReport policy v) ctx =
     Some (if v = Good then Triggering policy else PolicyDone (Inr AwaitChange), ctx)"
| "policy_step w GoOn (Triggering policy) ctx =
     Some (Listing policy
             (touch_annotations w (ctx_operator_pod_name ctx) (policy_name_any policy) (now_of w ctx))
             (list_targets policy), tick 1 ctx)"
| "policy_step w GoOn (Listing policy patch []) ctx = Some (PolicyDone (Inr AwaitChange), ctx)"
| "policy_step w GoOn (Listing policy patch (ns # rest)) ctx =
     (let ctx1 = send (ListPods ns (label_selector policy)) ctx
      in Some (AwaitingList (client ctx1) policy patch ns rest, ctx1))"
| "policy_step w GoOn (AwaitingList history policy patch ns rest) ctx =
     (case list_reply w history of
        Inl _ \<Rightarrow>
          Some (if ns = None then PolicyDone (Inr (Requeue 60)) else Listing policy patch rest, ctx)
      | Inr pods \<Rightarrow> Some (Touching policy patch ns pods [] rest, ctx))"
| "policy_step w GoOn (Touching policy patch ns [] pending rest) ctx =
     (if pending = [] then Some (Listing policy patch rest, ctx) else None)"
| "policy_step w GoOn (Touching policy patch ns (pod # pods) pending rest) ctx =
     (if \<not> has_room w (ctx_pod_patch_concurrency_limit ctx) (length pending) then None
      else if should_touch policy pod
      then (let r = PatchPod ns (pod_name_any pod) patch
            in Some (Touching policy patch ns pods (pending @ [r]) rest, send r ctx))
      else Some (Touching policy patch ns pods pending rest, ctx))"
| "policy_step w (PatchAnswered k) (Touching policy patch ns pods pending rest) ctx =
     (if k < length pending
      then Some (Touching policy patch ns pods (take k pending @ drop (Suc k) pending) rest, ctx)
      else None)"
| "policy_step w _ _ ctx = None"

section \<open>A task on its own\<close>

fun policy_task_run ::
  "'p World \<Rightarrow> progress list \<Rightarrow> policy_task \<Rightarrow> 'p Context \<Rightarrow> (policy_task \<times> 'p Context) option" where
  "policy_task_run w [] t ctx = Some (t, ctx)"
| "policy_task_run w (c # cs) t ctx =
     (case policy_step w c t ctx of
        None \<Rightarrow> None
      | Some (t', ctx') \<Rightarrow> policy_task_run w cs t' ctx')"

text \<open>The pods are touched target by target; only a failed \<open>Api::all\<close> listing ends this early.\<close>

fun touch_targets ::
  "'p World \<Rightarrow> DepodPolicy \<Rightarrow> (string \<times> string) list \<Rightarrow> string option list \<Rightarrow> 'p Context \<Rightarrow>
     Action Result \<times> 'p Context" where
  "touch_targets w policy patch [] ctx = (Inr AwaitChange, ctx)"
| "touch_targets w policy patch (ns # rest) ctx =
     (case list_pods w ns (label_selector policy) ctx of
        (Inl _, ctx1) \<Rightarrow>
          if ns = None then (Inr (Requeue 60), ctx1) else touch_targets w policy patch rest ctx1
      | (Inr pods, ctx1) \<Rightarrow>
          touch_targets w policy patch rest (touch_pods w policy ns patch pods ctx1))"

lemma touch_targets_namespaces:
  "touch_targets w policy patch (map Some nss) ctx = (Inr AwaitChange, touch_namespaces w policy patch nss ctx)"
  by (induction nss arbitrary: ctx) (simp_all add: list_pods_def Let_def split: sum.split)

lemma trigger_pods_targets:
  "trigger_pods w policy ctx = touch_targets w policy
     (touch_annotations w (ctx_operator_pod_name ctx) (policy_name_any policy) (now_of w ctx))
     (list_targets policy) (tick 1 ctx)"
  by (simp add: trigger_pods_def list_targets_def touch_targets_namespaces list_pods_def Let_def
      split: sum.split)

text \<open>What the function would still do from each state of the task.\<close>

fun remaining :: "'p World \<Rightarrow> policy_task \<Rightarrow> 'p Context \<Rightarrow> Action Result \<times> 'p Context" where
  "remaining w (PolicyCalled policy) ctx = reconcile_policy w policy ctx"
| "remaining w (Refreshing policy) ctx =
     trigger_pods w policy (report w policy (ready_unreported (policy_status policy)) ready (refresh_policies ctx))"
| "remaining w (Storing policy ps) ctx =
     trigger_pods w policy (report w policy (ready_unreported (policy_status policy)) ready (ctx\<lparr>policies := ps\<rparr>))"
| "remaining w (Reporting policy v) ctx =
     (let ctx1 = report w policy True (verdict_condition v) ctx
      in if v = Good then trigger_pods w policy ctx1 else (Inr AwaitChange, ctx1))"
| "remaining w (AwaitingReport policy v) ctx =
     (if v = Good then trigger_pods w policy ctx else (Inr AwaitChange, ctx))"
| "remaining w (Triggering policy) ctx = trigger_pods w policy ctx"
| "remaining w (Listing policy patch ts) ctx = touch_targets w policy patch ts ctx"
| "remaining w (AwaitingList history policy patch ns ts) ctx =
     (case list_reply w history of
        Inl _ \<Rightarrow> if ns = None then (Inr (Requeue 60), ctx) else touch_targets w policy patch ts ctx
      | Inr pods \<Rightarrow> touch_targets w policy patch ts (touch_pods w policy ns patch pods ctx))"
| "remaining w (Touching policy patch ns pods pending ts) ctx =
     touch_targets w policy patch ts (touch_pods w policy ns patch pods ctx)"
| "remaining w (PolicyDone res) ctx = (res, ctx)"

lemma remaining_validation:
  "validation_step w policy ctx = (t', ctx') \<Longrightarrow> remaining w t' ctx' = reconcile_policy w policy ctx"
  by (auto simp: validation_step_def reconcile_policy_def report_def verdict_condition_fun Let_def
      split: sum.splits prod.splits if_splits)

lemma remaining_step:
  "policy_step w c t ctx = Some (t', ctx') \<Longrightarrow> remaining w t' ctx' = remaining w t ctx"
proof (induction w c t ctx rule: policy_step.induct)
  case (1 w policy ctx)
  then show ?case using remaining_validation [of w policy ctx t' ctx'] by simp
next
  case (3 w policy ps ctx)
  then show ?case by (auto simp: report_def Let_def verdict_condition_fun)
next
  case (4 w policy v ctx)
  then show ?case by (auto simp: report_def Let_def)
qed (auto simp: refresh_policies_def trigger_pods_targets list_pods_def Let_def split: sum.splits if_splits)

lemma remaining_run:
  "policy_task_run w cs t ctx = Some (t', ctx') \<Longrightarrow> remaining w t' ctx' = remaining w t ctx"
proof (induction cs arbitrary: t ctx)
  case (Cons c cs)
  then show ?case using remaining_step by (fastforce split: option.splits)
qed simp

text \<open>
  C7. A task that nothing else interrupts computes what \<open>reconcile_policy\<close> computes, however
  the answers to its concurrent patches are ordered and however many may be pending: the same
  result, the same requests in the same order and the same caches.
\<close>

theorem policy_run_is_reconcile_policy:
  assumes "policy_task_run w cs (PolicyCalled policy) ctx = Some (PolicyDone res, ctx')"
  shows "reconcile_policy w policy ctx = (res, ctx')"
  using remaining_run [OF assms] by simp

text \<open>Two pods, one of them selected; the limit allows ten patches at once.\<close>

definition listing_world :: "string World" where
  "listing_world = sample_world\<lparr>list_reply := (\<lambda>_. Inr [bare_pod ''d'' ''p'' 0, bare_pod ''d'' ''q'' 0])\<rparr>"

theorem policy_run_is_reconcile_policy_witness:
  "\<exists>ctx'. reconcile_policy listing_world (ttl_policy ''t'' 600) (sample_context []) = (Inr AwaitChange, ctx')
     \<and> length (client ctx') = 4"
proof -
  let ?cs = "replicate 10 GoOn @ [PatchAnswered 1, PatchAnswered 0, GoOn, GoOn]"
  have "map_option (\<lambda>(t, ctx). (task_result t, length (client ctx)))
      (policy_task_run listing_world ?cs (PolicyCalled (ttl_policy ''t'' 600)) (sample_context []))
    = Some (Some (Inr AwaitChange), 4)"
    by code_simp
  then obtain ctx' where "policy_task_run listing_world ?cs (PolicyCalled (ttl_policy ''t'' 600)) (sample_context [])
      = Some (PolicyDone (Inr AwaitChange), ctx')" and "length (client ctx') = 4"
    by (auto simp: task_result_Some)
  then show ?thesis using policy_run_is_reconcile_policy by blast
qed

section \<open>Pending patches\<close>

text \<open>No more patches of a task are pending than the limit.\<close>

fun pending_patches :: "policy_task \<Rightarrow> Request list" where
  "pending_patches (Touching policy patch ns pods pending ts) = pending"
| "pending_patches t = []"

definition within_limit :: "usize \<Rightarrow> policy_task \<Rightarrow> bool" where
  "within_limit limit t \<longleftrightarrow> length (pending_patches t) \<le> unat limit"

lemma within_limit_step:
  "policy_step w c t ctx = Some (t', ctx') \<Longrightarrow> within_limit (ctx_pod_patch_concurrency_limit ctx) t \<Longrightarrow>
     \<forall>k. has_room w (ctx_pod_patch_concurrency_limit ctx) k \<longrightarrow> k < unat (ctx_pod_patch_concurrency_limit ctx) \<Longrightarrow>
     within_limit (ctx_pod_patch_concurrency_limit ctx) t'"
  by (induction w c t ctx rule: policy_step.induct)
    (auto simp: within_limit_def validation_step_def Let_def Suc_le_eq
      split: sum.splits if_splits prod.splits)

section \<open>Every task ends\<close>

fun targets_left :: "policy_task \<Rightarrow> nat" where
  "targets_left (PolicyCalled policy) = 3 * length (list_targets policy) + 7"
| "targets_left (Refreshing policy) = 3 * length (list_targets policy) + 6"
| "targets_left (Storing policy ps) = 3 * length (list_targets policy) + 5"
| "targets_left (Reporting policy v) = 3 * length (list_targets policy) + 4"
| "targets_left (AwaitingReport policy v) = 3 * length (list_targets policy) + 3"
| "targets_left (Triggering policy) = 3 * length (list_targets policy) + 2"
| "targets_left (Listing policy patch ts) = 3 * length ts + 1"
| "targets_left (AwaitingList h policy patch ns ts) = 3 * length ts + 3"
| "targets_left (Touching policy patch ns pods pending ts) = 3 * length ts + 2"
| "targets_left (PolicyDone res) = 0"

fun patches_left :: "policy_task \<Rightarrow> nat" where
  "patches_left (Touching policy patch ns pods pending ts) = 2 * length pods + length pending"
| "patches_left t = 0"

lemma policy_step_decreases:
  "policy_step w c t ctx = Some (t', ctx') \<Longrightarrow>
     targets_left t' < targets_left t \<or> targets_left t' = targets_left t \<and> patches_left t' < patches_left t"
  by (induction w c t ctx rule: policy_step.induct)
    (auto simp: validation_step_def Let_def split: sum.splits if_splits prod.splits)

lemma policy_step_wf: "wf {(t', t). \<exists>c ctx ctx'. policy_step w c t ctx = Some (t', ctx')}"
proof -
  have "{(t', t). \<exists>c ctx ctx'. policy_step w c t ctx = Some (t', ctx')} \<subseteq> measures [targets_left, patches_left]"
    using policy_step_decreases by (fastforce simp: measures_def inv_image_def lex_prod_def)
  then show ?thesis by (rule wf_subset [OF wf_measures])
qed

lemma policy_step_possible:
  assumes "has_room w (ctx_pod_patch_concurrency_limit ctx) 0"
  shows "is_done t \<or> policy_step w GoOn t ctx \<noteq> None \<or> policy_step w (PatchAnswered 0) t ctx \<noteq> None"
proof (cases t)
  case (Listing policy patch ts)
  then show ?thesis by (cases ts) (simp_all add: Let_def)
next
  case (AwaitingList h policy patch ns ts)
  then show ?thesis by (simp split: sum.split)
next
  case (Touching policy patch ns pods pending ts)
  then show ?thesis using assms by (cases pending; cases pods) (simp_all add: Let_def)
qed simp_all

lemma policy_run_ends:
  assumes "\<forall>limit. has_room w limit 0"
  shows "\<exists>cs res ctx'. policy_task_run w cs t ctx = Some (PolicyDone res, ctx')"
proof (induction t arbitrary: ctx rule: wf_induct_rule [OF policy_step_wf [of w]])
  case (1 t)
  show ?case
  proof (cases "is_done t")
    case True
    then obtain res where "t = PolicyDone res" by (cases t) auto
    then have "policy_task_run w [] t ctx = Some (PolicyDone res, ctx)" by simp
    then show ?thesis by blast
  next
    case False
    then obtain c t' ctx' where step: "policy_step w c t ctx = Some (t', ctx')"
      using policy_step_possible [of w ctx t] assms by auto
    then obtain cs res ctx'' where "policy_task_run w cs t' ctx' = Some (PolicyDone res, ctx'')"
      using 1 by blast
    then have "policy_task_run w (c # cs) t ctx = Some (PolicyDone res, ctx'')" using step by simp
    then show ?thesis by blast
  qed
qed

text \<open>
  C13. A reconciliation of a policy always comes to its end: there is no endless sequence of its
  steps, whatever other tasks do to the context between them and however many pods the API
  server lists, and until it has returned it can go on or waits for the answer to a patch that
  it has sent, if \<open>for_each_concurrent\<close> has room when nothing is pending. So every task can be
  run to its end.
\<close>

theorem policy_tasks_terminate:
  assumes "\<forall>limit. has_room w limit 0"
  shows "wf {(t', t). \<exists>c ctx ctx'. policy_step w c t ctx = Some (t', ctx')}
       \<and> (is_done t \<or> (\<exists>c t' ctx'. policy_step w c t ctx = Some (t', ctx')))
       \<and> (\<exists>cs res ctx'. policy_task_run w cs t ctx = Some (PolicyDone res, ctx'))"
proof (intro conjI)
  show "is_done t \<or> (\<exists>c t' ctx'. policy_step w c t ctx = Some (t', ctx'))"
    using policy_step_possible [of w ctx t] assms by auto
qed (rule policy_step_wf policy_run_ends [OF assms])+

theorem policy_tasks_terminate_witness:
  "\<exists>cs res ctx'. policy_task_run listing_world cs (PolicyCalled (ttl_policy ''t'' 600)) (sample_context [])
      = Some (PolicyDone res, ctx')"
proof -
  have "\<forall>limit. has_room listing_world limit 0"
    by (simp add: listing_world_def sample_world_def unat_gt_0)
  then show ?thesis using policy_tasks_terminate by blast
qed

end
