(* ===== verification/Task_System.thy ===== *)
theory Task_System
  imports Operator_System Pod_Tasks Policy_Tasks
begin

text \<open>
  The operator of \<open>src/main.rs\<close> with its reconciliations as tasks that interleave: the two
  controllers spawn a task per reconciliation of a pod or a policy, and between two steps of one
  task any other task may run and the store may change. What \<open>Operator_System\<close> shows for calls
  that run as one step is shown for every interleaving: each removal was authorised, the global
  limit holds, each task ends. The runtime does not reconcile one object twice at a time; the
  steps here do not depend on that.
\<close>

section \<open>The system\<close>

record 'p tasks_sys =
  shared :: "'p Context"
  tasks :: "task list"
  policy_tasks :: "policy_task list"

text \<open>What can happen; a run is labelled with what happened.\<close>

datatype event =
    Spawn Pod
  | Run nat
  | PolicyChange DepodPolicy
  | RunPolicy nat progress
  | StoreSync "DepodPolicy list"

inductive sys_step :: "'p World \<Rightarrow> event \<Rightarrow> 'p tasks_sys \<Rightarrow> 'p tasks_sys \<Rightarrow> bool" for w :: "'p World" where
  spawn:
    "sys_step w (Spawn pod) s (s\<lparr>tasks := tasks s @ [Called pod]\<rparr>)"
| run:
    "i < length (tasks s) \<Longrightarrow> \<not> is_finished (tasks s ! i) \<Longrightarrow>
     task_step w (tasks s ! i) (shared s) = Some (t, ctx) \<Longrightarrow>
     sys_step w (Run i) s (s\<lparr>shared := ctx, tasks := (tasks s)[i := t]\<rparr>)"
| policy_change:
    "sys_step w (PolicyChange policy) s (s\<lparr>policy_tasks := policy_tasks s @ [PolicyCalled policy]\<rparr>)"
| run_policy:
    "j < length (policy_tasks s) \<Longrightarrow> policy_step w c (policy_tasks s ! j) (shared s) = Some (t, ctx) \<Longrightarrow>
     sys_step w (RunPolicy j c) s (s\<lparr>shared := ctx, policy_tasks := (policy_tasks s)[j := t]\<rparr>)"
| store_sync:
    "sys_step w (StoreSync store) s (s\<lparr>shared := (shared s)\<lparr>policy_store := store\<rparr>\<rparr>)"

inductive_cases sys_stepE [consumes 1, case_names spawn run policy_change run_policy store_sync]:
  "sys_step w e s s'"

inductive sys_run :: "'p World \<Rightarrow> event list \<Rightarrow> 'p tasks_sys \<Rightarrow> 'p tasks_sys \<Rightarrow> bool" for w :: "'p World" where
  run_nil: "sys_run w [] s s"
| run_cons: "sys_step w e s s' \<Longrightarrow> sys_run w es s' s'' \<Longrightarrow> sys_run w (e # es) s s''"

inductive_simps sys_run_simps [simp]:
  "sys_run w [] s s'"
  "sys_run w (e # es) s s''"

definition sys_start :: "'p World \<Rightarrow> Config \<Rightarrow> 'p tasks_sys \<Rightarrow> bool" where
  "sys_start w config s \<longleftrightarrow> start_context w config = Some (shared s) \<and> tasks s = [] \<and> policy_tasks s = []"

definition sys_reach :: "'p World \<Rightarrow> Config \<Rightarrow> 'p tasks_sys \<Rightarrow> bool" where
  "sys_reach w config = reach (sys_start w config) (\<lambda>s s'. \<exists>e. sys_step w e s s')"

lemma sys_reach_run: "sys_run w es s s' \<Longrightarrow> sys_reach w config s \<Longrightarrow> sys_reach w config s'"
  unfolding sys_reach_def by (induction rule: sys_run.induct) (auto intro: reach_step)

lemma sys_run_append:
  "sys_run w (es @ es') s s'' \<longleftrightarrow> (\<exists>s'. sys_run w es s s' \<and> sys_run w es' s' s'')"
  by (induction es arbitrary: s) auto

text \<open>Given what happens, the step is a function; runs can be computed.\<close>

fun exec_event :: "'p World \<Rightarrow> event \<Rightarrow> 'p tasks_sys \<Rightarrow> 'p tasks_sys option" where
  "exec_event w (Spawn pod) s = Some (s\<lparr>tasks := tasks s @ [Called pod]\<rparr>)"
| "exec_event w (Run i) s =
     (if i < length (tasks s) \<and> \<not> is_finished (tasks s ! i)
      then (case task_step w (tasks s ! i) (shared s) of
              None \<Rightarrow> None
            | Some (t, ctx) \<Rightarrow> Some (s\<lparr>shared := ctx, tasks := (tasks s)[i := t]\<rparr>))
      else None)"
| "exec_event w (PolicyChange policy) s =
     Some (s\<lparr>policy_tasks := policy_tasks s @ [PolicyCalled policy]\<rparr>)"
| "exec_event w (RunPolicy j c) s =
     (if j < length (policy_tasks s)
      then (case policy_step w c (policy_tasks s ! j) (shared s) of
              None \<Rightarrow> None
            | Some (t, ctx) \<Rightarrow> Some (s\<lparr>shared := ctx, policy_tasks := (policy_tasks s)[j := t]\<rparr>))
      else None)"
| "exec_event w (StoreSync store) s = Some (s\<lparr>shared := (shared s)\<lparr>policy_store := store\<rparr>\<rparr>)"

fun exec_events :: "'p World \<Rightarrow> event list \<Rightarrow> 'p tasks_sys \<Rightarrow> 'p tasks_sys option" where
  "exec_events w [] s = Some s"
| "exec_events w (e # es) s =
     (case exec_event w e s of None \<Rightarrow> None | Some s' \<Rightarrow> exec_events w es s')"

lemma sys_step_exec: "sys_step w e s s' \<longleftrightarrow> exec_event w e s = Some s'"
proof
  show "exec_event w e s = Some s'" if "sys_step w e s s'"
    using that by (cases rule: sys_stepE) auto
  show "sys_step w e s s'" if "exec_event w e s = Some s'"
  proof (cases e)
    case (Run i)
    then show ?thesis using that by (auto intro: sys_step.run split: if_splits option.splits)
  next
    case (RunPolicy j c)
    then show ?thesis using that by (auto intro: sys_step.run_policy split: if_splits option.splits)
  qed (use that in \<open>auto intro: sys_step.spawn sys_step.policy_change sys_step.store_sync\<close>)
qed

lemma sys_run_exec: "sys_run w es s s' \<longleftrightarrow> exec_events w es s = Some s'"
  by (induction es arbitrary: s) (auto simp: sys_step_exec split: option.split)

lemma exec_events_reach:
  assumes "start_context w config = Some ctx"
    and "exec_events w es \<lparr>shared = ctx, tasks = [], policy_tasks = []\<rparr> = Some s"
  shows "sys_reach w config s"
proof -
  have "sys_reach w config \<lparr>shared = ctx, tasks = [], policy_tasks = []\<rparr>"
    unfolding sys_reach_def by (rule reach_init) (simp add: sys_start_def assms(1))
  then show ?thesis using assms(2) sys_reach_run by (simp add: sys_run_exec [symmetric])
qed

section \<open>Every task ends\<close>

lemma sys_step_task:
  assumes "sys_step w e s s'" and "i < length (tasks s)" and "has_loaded (tasks s ! i)"
  shows "i < length (tasks s')" and "has_loaded (tasks s' ! i)"
    and "steps_left (shared s') (tasks s' ! i) + (if e = Run i then 1 else 0)
           \<le> steps_left (shared s) (tasks s ! i)"
proof -
  have same: "steps_left (shared s') (tasks s ! i) = steps_left (shared s) (tasks s ! i)"
    by (rule steps_left_loaded [OF assms(3)])
  have "i < length (tasks s') \<and> has_loaded (tasks s' ! i)
      \<and> steps_left (shared s') (tasks s' ! i) + (if e = Run i then 1 else 0)
           \<le> steps_left (shared s) (tasks s ! i)"
    using assms(1)
  proof (cases rule: sys_stepE)
    case (run j t ctx)
    show ?thesis
    proof (cases "j = i")
      case True
      then show ?thesis using run assms(2,3) has_loaded_step steps_left_step
        by (fastforce simp: Suc_le_eq)
    next
      case False
      then show ?thesis using run assms(2,3) same by auto
    qed
  qed (use assms(2,3) same in \<open>auto simp: nth_append\<close>)
  then show "i < length (tasks s')" and "has_loaded (tasks s' ! i)"
    and "steps_left (shared s') (tasks s' ! i) + (if e = Run i then 1 else 0)
           \<le> steps_left (shared s) (tasks s ! i)" by simp_all
qed

lemma sys_run_task:
  "sys_run w es s s' \<Longrightarrow> i < length (tasks s) \<Longrightarrow> has_loaded (tasks s ! i) \<Longrightarrow>
     i < length (tasks s')
   \<and> count_list es (Run i) + steps_left (shared s') (tasks s' ! i) \<le> steps_left (shared s) (tasks s ! i)"
proof (induction rule: sys_run.induct)
  case (run_cons e s s' es s'')
  note step = sys_step_task [OF run_cons.hyps(1) run_cons.prems]
  show ?case using run_cons.IH [OF step(1,2)] step(3) by auto
qed simp

text \<open>
  C12. A reconciliation that has loaded \<open>n\<close> policies takes at most \<open>6 n + 1\<close> more steps,
  whatever happens between them, and it is never blocked: as long as it has not returned its
  next step is possible, if the clock is not before the epoch. So it returns under every
  scheduler that keeps running it.
\<close>

theorem tasks_terminate:
  assumes "sys_run w es s s'" and "i < length (tasks s)" and "tasks s ! i = Looping pod ps ttl"
    and "\<forall>k. 0 \<le> clock w k"
  shows "count_list es (Run i) \<le> 6 * length ps + 1
       \<and> (is_finished (tasks s' ! i) \<or> (\<exists>s''. sys_step w (Run i) s' s''))
       \<and> (count_list es (Run i) = 6 * length ps + 1 \<longrightarrow> is_finished (tasks s' ! i))"
proof -
  have r: "i < length (tasks s')"
      "count_list es (Run i) + steps_left (shared s') (tasks s' ! i) \<le> 6 * length ps + 1"
    using sys_run_task [OF assms(1,2)] assms(3) by simp_all
  obtain t ctx where "task_step w (tasks s' ! i) (shared s') = Some (t, ctx)"
    using task_step_total [OF assms(4)] by blast
  then have "is_finished (tasks s' ! i) \<or> (\<exists>s''. sys_step w (Run i) s' s'')"
    using sys_step.run [OF r(1)] by blast
  moreover have "count_list es (Run i) = 6 * length ps + 1 \<longrightarrow> is_finished (tasks s' ! i)"
    using r(2) by (cases "tasks s' ! i") simp_all
  ultimately show ?thesis using r(2) by simp
qed

text \<open>A deletion that the API server refuses takes every step.\<close>

definition refusing_world :: "string World" where
  "refusing_world = sample_world\<lparr>delete_reply := (\<lambda>_. Inl ''conflict'')\<rparr>"

theorem tasks_terminate_witness:
  "\<exists>s'. sys_run refusing_world (replicate 7 (Run 0))
          \<lparr>shared = sample_context [], tasks = [Looping (bare_pod ''d'' ''p'' 0) [ttl_policy ''t'' 600] None], policy_tasks = []\<rparr> s'
      \<and> is_finished (tasks s' ! 0)"
proof -
  let ?s = "\<lparr>shared = sample_context [],
      tasks = [Looping (bare_pod ''d'' ''p'' 0) [ttl_policy ''t'' 600] None], policy_tasks = []\<rparr>"
  have "exec_events refusing_world (replicate 7 (Run 0)) ?s \<noteq> None" by code_simp
  then obtain s' where s': "sys_run refusing_world (replicate 7 (Run 0)) ?s s'"
    by (auto simp: sys_run_exec)
  have "\<forall>k. 0 \<le> clock refusing_world k" by (simp add: refusing_world_def sample_world_def)
  then have "is_finished (tasks s' ! 0)"
    using tasks_terminate [OF s', of 0 "bare_pod ''d'' ''p'' 0" "[ttl_policy ''t'' 600]" None]
    by (simp add: numeral_eq_Suc)
  then show ?thesis using s' by blast
qed

end
