(* ===== verification/Task_Safety.thy ===== *)
theory Task_Safety
  imports Task_System
begin

text \<open>
  The invariant of the interleaved operator and what follows from it: every deletion and eviction
  was authorised, and the global limit holds although a token is taken steps before the request
  it pays for is sent.
\<close>

section \<open>What a task has established\<close>

text \<open>A task that asks the limiters has found all that a removal needs, at an earlier reading.\<close>

definition decided :: "'p World \<Rightarrow> nat \<Rightarrow> Pod \<Rightarrow> DepodPolicy \<Rightarrow> bool" where
  "decided w n pod p \<longleftrightarrow>
     well_formed_spec (policy_spec p) \<and> selected pod p \<and> \<not> protected_by pod p
   \<and> \<not> dry_run (spec_then (policy_spec p))
   \<and> (\<exists>i < n. condition_holds (cel w) pod p (clock w i))"

abbreviation well_formed_policies :: "DepodPolicy list \<Rightarrow> bool" where
  "well_formed_policies ps \<equiv> \<forall>p \<in> set ps. well_formed_spec (policy_spec p)"

fun task_ok :: "'p World \<Rightarrow> nat \<Rightarrow> task \<Rightarrow> bool" where
  "task_ok w n (Looping pod ps ttl) \<longleftrightarrow> well_formed_policies ps"
| "task_ok w n (Evaluating pod p ps ttl) \<longleftrightarrow> well_formed_policies (p # ps) \<and> selected pod p"
| "task_ok w n (AskingGlobal pod p ps ttl) \<longleftrightarrow> well_formed_policies ps \<and> decided w n pod p"
| "task_ok w n (AskingPolicy g pod p ps ttl) \<longleftrightarrow> well_formed_policies ps \<and> decided w n pod p"
| "task_ok w n (Sending pod p ps ttl) \<longleftrightarrow> well_formed_policies ps \<and> decided w n pod p"
| "task_ok w n (Awaiting h r pod ps ttl) \<longleftrightarrow> well_formed_policies ps"
| "task_ok w n t \<longleftrightarrow> True"

text \<open>The tokens of the global bucket that a task holds: taken, but not yet used for a request.\<close>

fun tokens_held :: "task \<Rightarrow> nat" where
  "tokens_held (AskingPolicy g pod p ps ttl) = (if g then 1 else 0)"
| "tokens_held (Sending pod p ps ttl) = 1"
| "tokens_held t = 0"

lemma decided_mono: "decided w n pod p \<Longrightarrow> n \<le> m \<Longrightarrow> decided w m pod p"
  unfolding decided_def by (meson less_le_trans)

lemma task_ok_mono: "task_ok w n t \<Longrightarrow> n \<le> m \<Longrightarrow> task_ok w m t"
  by (cases t) (auto intro: decided_mono)

lemma decided_authorises:
  assumes "decided w n pod p" and "deletion_request w pod p = Inr r"
  shows "authorised_removal w n r"
proof -
  have "justified w pod p 0 n r" using assms by (auto simp: decided_def justified_def)
  then show ?thesis using justified_authorises assms(1)
    unfolding authorised_removal_def decided_def by blast
qed

section \<open>Tokens and requests\<close>

text \<open>
  As \<^const>\<open>paid\<close>, with \<open>k\<close> tokens that were granted and not yet spent on a request.
\<close>

definition covered :: "'p World \<Rightarrow> u64 \<Rightarrow> int \<Rightarrow> nat \<Rightarrow> 'p Context \<Rightarrow> bool" where
  "covered w limit t0 k ctx \<longleftrightarrow>
     paid w limit t0 ctx
   \<and> int (removals (client ctx) + k) \<le> bucket_source.spent limit t0 (global_limiter (rate_limiter ctx))"

lemma covered_0: "paid w limit t0 ctx \<Longrightarrow> covered w limit t0 0 ctx"
  by (simp add: covered_def paid_def)

lemma covered_cong:
  "covered w limit t0 k ctx \<Longrightarrow> rate_limiter ctx' = rate_limiter ctx \<Longrightarrow>
     removals (client ctx') = removals (client ctx) \<Longrightarrow> ticks ctx \<le> ticks ctx' \<Longrightarrow>
     covered w limit t0 k ctx'"
  unfolding covered_def using paid_cong [of w limit t0 ctx ctx'] by simp

lemma covered_less: "covered w limit t0 k ctx \<Longrightarrow> k' \<le> k \<Longrightarrow> covered w limit t0 k' ctx"
  by (simp add: covered_def)

lemma covered_send:
  assumes "covered w limit t0 (Suc k) ctx" and "removals [r] = 1"
  shows "covered w limit t0 k (send r ctx)"
  using assms by (auto simp: covered_def paid_def)

lemma covered_ask_global:
  assumes "covered w limit t0 k ctx" and "ask_global w ctx = Some (g, ctx')"
  shows "covered w limit t0 (k + (if g then 1 else 0)) ctx'"
proof -
  let ?b = "global_limiter (rate_limiter ctx)"
  obtain l where l: "allow_global (now_of w ctx) (rate_limiter ctx) = Some (g, l)"
      "ctx' = tick 1 (ctx\<lparr>rate_limiter := l\<rparr>)"
    using assms(2) by (auto simp: ask_global_def split: option.splits)
  obtain now where now: "unix_secs (now_of w ctx) = Some now" "g = fst (allow_at now ?b)"
      "l = (rate_limiter ctx)\<lparr>global_limiter := snd (allow_at now ?b)\<rparr>"
    using l(1) by (rule allow_globalE)
  have valid: "bucket_ok ?b \<and> max_per_minute ?b = limit" and t0: "t0 \<le> int (unat (last_reset ?b))"
    using assms(1) by (simp_all add: covered_def paid_def limiter_ok_def)
  note s = bucket_source.spent_allow [OF valid t0, of now]
  have b': "global_limiter (rate_limiter ctx') = snd (allow_at now ?b)" using l(2) now(3) by simp
  have tokens: "int (removals (client ctx') + (k + (if g then 1 else 0)))
      \<le> bucket_source.spent limit t0 (snd (allow_at now ?b))"
    using s(1) now(2) assms(1) l(2) by (auto simp: covered_def split: if_splits)
  moreover have "limiter_ok (rate_limiter ctx')"
    using limiter_ok_allow_global [OF l(1)] assms(1) l(2) by (simp add: covered_def paid_def)
  moreover have "\<exists>i < ticks ctx'. unix_secs (clock w i) = Some (last_reset (snd (allow_at now ?b)))"
    using last_reset_allow [of now ?b] assms(1) now(1) l(2)
    unfolding covered_def paid_def now_of_def by (auto simp: less_Suc_eq)
  ultimately show ?thesis
    using s(2) valid tokens by (simp add: covered_def paid_def b') 
qed

lemma covered_ask_policy:
  assumes "covered w limit t0 k ctx" and "ask_policy w name m ctx = Some (a, ctx')"
  shows "covered w limit t0 k ctx'"
proof -
  obtain l where l: "allow_policy (clock w (ticks ctx)) (clock w (ticks ctx + 1)) name m
        (rate_limiter ctx) = Some (a, l)" "ctx' = tick 2 (ctx\<lparr>rate_limiter := l\<rparr>)"
    using assms(2) by (auto simp: ask_policy_def split: option.splits)
  have "global_limiter (rate_limiter ctx') = global_limiter (rate_limiter ctx)"
    using allow_policy_global [OF l(1)] l(2) by simp
  moreover have "limiter_ok (rate_limiter ctx')"
    using limiter_ok_allow_policy [OF l(1)] assms(1) l(2) by (simp add: covered_def paid_def)
  ultimately show ?thesis using assms(1) l(2)
    by (auto simp: covered_def paid_def intro: less_trans)
qed

section \<open>What one step of a task does\<close>

text \<open>
  The requests \<open>rs\<close> are those the step sent; \<open>k\<close> are the tokens other tasks hold.
\<close>

definition step_effect ::
  "'p World \<Rightarrow> task \<Rightarrow> 'p Context \<Rightarrow> task \<Rightarrow> 'p Context \<Rightarrow> bool" where
  "step_effect w t ctx t' ctx' \<longleftrightarrow>
     policies ctx' = policies ctx \<and> policy_store ctx' = policy_store ctx
   \<and> cache_coherent (cel w) (evaluator ctx') \<and> ticks ctx \<le> ticks ctx'
   \<and> task_ok w (ticks ctx') t'
   \<and> (\<exists>rs. client ctx' = client ctx @ rs \<and> (\<forall>r \<in> set rs. authorised_removal w (ticks ctx') r))
   \<and> (\<forall>limit t0 k. covered w limit t0 (tokens_held t + k) ctx \<longrightarrow>
        covered w limit t0 (tokens_held t' + k) ctx')"

text \<open>A step that leaves requests and limiters alone and holds no more tokens than before.\<close>

lemma step_effect_quiet:
  assumes "client ctx' = client ctx" and "rate_limiter ctx' = rate_limiter ctx"
    and "policies ctx' = policies ctx" and "policy_store ctx' = policy_store ctx"
    and "cache_coherent (cel w) (evaluator ctx')" and "ticks ctx \<le> ticks ctx'"
    and "task_ok w (ticks ctx') t'" and "tokens_held t' \<le> tokens_held t"
  shows "step_effect w t ctx t' ctx'"
proof -
  have "covered w limit t0 (tokens_held t' + k) ctx'"
    if "covered w limit t0 (tokens_held t + k) ctx" for limit t0 k
    by (rule covered_less [OF covered_cong [OF that]]) (use assms in simp_all)
  then show ?thesis unfolding step_effect_def using assms by auto
qed

lemma step_effect_evaluate:
  assumes "evaluate_step w pod p ps ttl ctx = (t', ctx')"
    and "cache_coherent (cel w) (evaluator ctx)" and "task_ok w (ticks ctx) (Evaluating pod p ps ttl)"
  shows "step_effect w (Evaluating pod p ps ttl) ctx t' ctx'"
proof -
  obtain met ttl' ctx1 where c: "condition_met w pod p ttl ctx = (met, ttl', ctx1)"
    by (rule prod_cases3)
  note r = condition_met_result [OF assms(2) c]
  have "ctx' = ctx1" and t': "t' = (if \<not> met \<or> protected_by pod p \<or> dry_run (spec_then (policy_spec p))
      then Looping pod ps ttl' else AskingGlobal pod p ps ttl')"
    using assms(1) c by (auto simp: evaluate_step_def split: if_splits)
  have "task_ok w (ticks ctx') t'"
  proof (cases "\<not> met \<or> protected_by pod p \<or> dry_run (spec_then (policy_spec p))")
    case False
    then have "condition_holds (cel w) pod p (clock w (ticks ctx))" and "ticks ctx < ticks ctx'"
      using r(1,4) \<open>ctx' = ctx1\<close> by (simp_all add: now_of_def)
    then show ?thesis using False t' assms(3) by (auto simp: decided_def)
  qed (use t' assms(3) in auto)
  then show ?thesis using r(3) t' \<open>ctx' = ctx1\<close>
    by (intro step_effect_quiet) (auto simp: changes_condition_def)
qed

lemma same_but_limiter_ok:
  assumes "same_but_limiter ctx ctx'" and "task_ok w (ticks ctx) t" and "cache_coherent (cel w) (evaluator ctx)"
  shows "policies ctx' = policies ctx \<and> policy_store ctx' = policy_store ctx
    \<and> cache_coherent (cel w) (evaluator ctx') \<and> ticks ctx \<le> ticks ctx' \<and> task_ok w (ticks ctx') t
    \<and> client ctx' = client ctx"
  using assms(3) task_ok_mono [OF assms(2) same_but_limiter_frame(8) [OF assms(1)]]
  by (simp add: same_but_limiter_frame [OF assms(1)])

lemma step_effect_global:
  assumes "ask_global w ctx = Some (g, ctx')" and "cache_coherent (cel w) (evaluator ctx)"
    and "task_ok w (ticks ctx) (AskingGlobal pod p ps ttl)"
  shows "step_effect w (AskingGlobal pod p ps ttl) ctx (AskingPolicy g pod p ps ttl) ctx'"
proof -
  have "covered w limit t0 (tokens_held (AskingPolicy g pod p ps ttl) + k) ctx'"
    if "covered w limit t0 k ctx" for limit t0 k
    using covered_ask_global [OF that assms(1)] by (simp add: add.commute split: if_splits)
  then show ?thesis
    using same_but_limiter_ok [OF ask_global_same [OF assms(1)] assms(3,2)]
    by (simp add: step_effect_def)
qed

lemma step_effect_policy:
  assumes "ask_policy w name m ctx = Some (a, ctx1)" and "cache_coherent (cel w) (evaluator ctx)"
    and "task_ok w (ticks ctx) (AskingPolicy g pod p ps ttl)"
    and "(t', ctx') = (if \<not> g \<or> \<not> a then (Finished (Inr (Requeue 10)), count_event RateLimited ctx1)
                       else (Sending pod p ps ttl, ctx1))"
  shows "step_effect w (AskingPolicy g pod p ps ttl) ctx t' ctx'"
proof -
  note same = same_but_limiter_ok [OF ask_policy_same [OF assms(1)] assms(3,2)]
  have "covered w limit t0 (tokens_held t' + k) ctx'"
    if "covered w limit t0 (tokens_held (AskingPolicy g pod p ps ttl) + k) ctx" for limit t0 k
  proof -
    have "covered w limit t0 (tokens_held t' + k) ctx1"
      using covered_ask_policy [OF that assms(1)] assms(4)
      by (auto intro: covered_less split: if_splits)
    then show ?thesis using assms(4) by (auto intro: covered_cong split: if_splits)
  qed
  then show ?thesis using same assms(4) by (auto simp: step_effect_def split: if_splits)
qed

lemma step_effect_send:
  assumes "deletion_request w pod p = Inr r" and "cache_coherent (cel w) (evaluator ctx)"
    and "task_ok w (ticks ctx) (Sending pod p ps ttl)"
  shows "step_effect w (Sending pod p ps ttl) ctx (Awaiting h r pod ps ttl) (send r ctx)"
  using assms decided_authorises [of w "ticks ctx" pod p r]
    covered_send [OF _ deletion_request_removal [OF assms(1)]]
  by (auto simp: step_effect_def)

lemma task_step_effect:
  assumes "task_step w t ctx = Some (t', ctx')" and ok: "cache_coherent (cel w) (evaluator ctx)"
    and "task_ok w (ticks ctx) t" and "well_formed_policies (policies ctx)"
  shows "step_effect w t ctx t' ctx'"
proof (cases t)
  case (Looping pod ps ttl)
  then show ?thesis using assms
    by (cases ps) (auto intro!: step_effect_quiet simp: selected_def split: if_splits)
next
  case (Evaluating pod p ps ttl)
  then show ?thesis using assms step_effect_evaluate by simp
next
  case (AskingGlobal pod p ps ttl)
  then obtain g where "ask_global w ctx = Some (g, ctx')" "t' = AskingPolicy g pod p ps ttl"
    using assms(1) by (auto split: option.splits)
  then show ?thesis using step_effect_global [OF _ ok] assms(3) AskingGlobal by blast
next
  case (AskingPolicy g pod p ps ttl)
  obtain a ctx1 where a: "ask_policy w (policy_name_any p)
      (max_deletes_per_minute (spec_limits (policy_spec p))) ctx = Some (a, ctx1)"
    using assms(1) AskingPolicy by (auto split: option.splits)
  then show ?thesis using assms AskingPolicy
    by (auto intro!: step_effect_policy [OF a] split: if_splits)
next
  case (Sending pod p ps ttl)
  show ?thesis
  proof (cases "deletion_request w pod p")
    case (Inl e)
    then show ?thesis using assms Sending by (auto intro: step_effect_quiet)
  next
    case (Inr r)
    then show ?thesis using step_effect_send [OF Inr ok] assms(1,3) Sending by auto
  qed
next
  case (Awaiting h r pod ps ttl)
  then show ?thesis using assms by (auto intro!: step_effect_quiet split: if_splits)
qed (use assms in \<open>auto intro!: step_effect_quiet\<close>)

section \<open>What one step of a policy's task does\<close>

text \<open>The policies that a task is about to cache have valid specs.\<close>

fun policy_task_ok :: "policy_task \<Rightarrow> bool" where
  "policy_task_ok (Storing policy ps) \<longleftrightarrow> well_formed_policies ps"
| "policy_task_ok t \<longleftrightarrow> True"

text \<open>Only the step that stores the refreshed policies changes the cache.\<close>

fun policies_after :: "policy_task \<Rightarrow> progress \<Rightarrow> DepodPolicy list \<Rightarrow> DepodPolicy list" where
  "policies_after (Storing policy ps) GoOn old = ps"
| "policies_after t c old = old"

definition policy_step_effect ::
  "'p World \<Rightarrow> progress \<Rightarrow> policy_task \<Rightarrow> 'p Context \<Rightarrow> policy_task \<Rightarrow> 'p Context \<Rightarrow> bool" where
  "policy_step_effect w c t ctx t' ctx' \<longleftrightarrow>
     policies ctx' = policies_after t c (policies ctx) \<and> policy_store ctx' = policy_store ctx
   \<and> rate_limiter ctx' = rate_limiter ctx \<and> ticks ctx \<le> ticks ctx'
   \<and> cache_coherent (cel w) (evaluator ctx') \<and> policy_task_ok t'
   \<and> (\<exists>rs. client ctx' = client ctx @ rs \<and> filter is_removal rs = [])"

lemma validation_step_effect:
  assumes "cache_coherent (cel w) (evaluator ctx)" and "validation_step w policy ctx = (t', ctx')"
  shows "(\<exists>cache. ctx' = ctx\<lparr>evaluator := cache\<rparr> \<and> cache_coherent (cel w) cache)
       \<and> (t' = Refreshing policy \<and> policy_verdict (cel w) policy = Good
          \<or> t' = PolicyDone (Inr AwaitChange) \<and> policy_verdict (cel w) policy \<noteq> Good
          \<or> t' = Reporting policy (policy_verdict (cel w) policy) \<and> policy_verdict (cel w) policy \<noteq> Good)"
proof (cases "validate_spec (policy_spec policy)")
  case (Inl e)
  have "\<exists>cache. ctx = ctx\<lparr>evaluator := cache\<rparr> \<and> cache_coherent (cel w) cache"
    using assms(1) by (intro exI [of _ "evaluator ctx"]) simp
  then show ?thesis using Inl assms(2) by (auto simp: validation_step_def policy_verdict_def)
next
  case (Inr u)
  then have "validate_spec (policy_spec policy) = Inr ()" by simp
  then obtain r cache where "validate_policy_cel w policy ctx = (r, ctx\<lparr>evaluator := cache\<rparr>)"
      "cache_coherent (cel w) cache"
      "policy_verdict (cel w) policy = (case r of Inl e \<Rightarrow> BadCel (cel_message e) | Inr _ \<Rightarrow> Good)"
    using validate_policy_cel_verdict [OF assms(1)] by blast
  then show ?thesis using Inr assms(2) by (auto simp: validation_step_def split: sum.splits if_splits)
qed

lemma policy_step_ok:
  "policy_step w c t ctx = Some (t', ctx') \<Longrightarrow> cache_coherent (cel w) (evaluator ctx) \<Longrightarrow>
     policy_task_ok t \<Longrightarrow> policy_step_effect w c t ctx t' ctx'"
proof (induction w c t ctx rule: policy_step.induct)
  case (1 w policy ctx)
  then show ?case using validation_step_effect [OF 1(2), of policy t' ctx']
    by (auto simp: policy_step_effect_def)
qed (auto simp: policy_step_effect_def valid_policies_def validate_spec_Inr update_policy_status_def Let_def
    split: sum.splits if_splits)

section \<open>The invariant of the interleaved operator\<close>

text \<open>What holds whatever the limiters answer, and what they guarantee.\<close>

definition tasks_ok :: "'p World \<Rightarrow> 'p tasks_sys \<Rightarrow> bool" where
  "tasks_ok w s \<longleftrightarrow>
     cache_coherent (cel w) (evaluator (shared s))
   \<and> well_formed_policies (policies (shared s))
   \<and> (\<forall>t \<in> set (tasks s). task_ok w (ticks (shared s)) t)
   \<and> (\<forall>t \<in> set (policy_tasks s). policy_task_ok t)
   \<and> (\<forall>r \<in> set (client (shared s)). is_removal r \<longrightarrow> authorised_removal w (ticks (shared s)) r)"

definition sys_ok :: "'p World \<Rightarrow> u64 \<Rightarrow> int \<Rightarrow> 'p tasks_sys \<Rightarrow> bool" where
  sys_ok_parts: "sys_ok w limit t0 s \<longleftrightarrow>
     tasks_ok w s \<and> covered w limit t0 (sum_list (map tokens_held (tasks s))) (shared s)"

lemmas sys_ok_def = sys_ok_parts [unfolded tasks_ok_def, simplified conj_assoc]

lemma sys_ok_tasks: "sys_ok w limit t0 s \<Longrightarrow> tasks_ok w s"
  by (simp add: sys_ok_parts)

text \<open>What the other tasks contribute to a sum over the tasks.\<close>

lemma sum_map_update:
  fixes f :: "'a \<Rightarrow> nat"
  assumes "i < length ts"
  obtains k where "sum_list (map f ts) = f (ts ! i) + k"
    and "\<And>t. sum_list (map f (ts[i := t])) = f t + k"
proof
  let ?k = "sum_list (map f (take i ts)) + sum_list (map f (drop (Suc i) ts))"
  show "sum_list (map f (ts[i := t])) = f t + ?k" for t
    using assms by (simp add: upd_conv_take_nth_drop)
  show "sum_list (map f ts) = f (ts ! i) + ?k"
    by (subst id_take_nth_drop [OF assms]) simp
qed

lemma tasks_ok_run:
  assumes ok: "tasks_ok w s" and i: "i < length (tasks s)"
    and e: "step_effect w (tasks s ! i) (shared s) t ctx"
  shows "tasks_ok w (s\<lparr>shared := ctx, tasks := (tasks s)[i := t]\<rparr>)"
proof -
  obtain rs where rs: "client ctx = client (shared s) @ rs"
      "\<forall>r \<in> set rs. authorised_removal w (ticks ctx) r"
    and e': "policies ctx = policies (shared s)" "cache_coherent (cel w) (evaluator ctx)"
      "ticks (shared s) \<le> ticks ctx" "task_ok w (ticks ctx) t"
    using e by (auto simp: step_effect_def)
  have "task_ok w (ticks ctx) t'" if "t' \<in> set ((tasks s)[i := t])" for t'
    using set_update_subset_insert [of "tasks s" i t] that e'(3,4) ok task_ok_mono
    unfolding tasks_ok_def by blast
  moreover have "authorised_removal w (ticks ctx) r" if "r \<in> set (client ctx)" "is_removal r" for r
    using that rs e'(3) ok authorised_removal_mono unfolding tasks_ok_def by fastforce
  ultimately show ?thesis using e' ok by (simp add: tasks_ok_def)
qed

lemma run_effect:
  "tasks_ok w s \<Longrightarrow> i < length (tasks s) \<Longrightarrow> task_step w (tasks s ! i) (shared s) = Some (t, ctx) \<Longrightarrow>
     step_effect w (tasks s ! i) (shared s) t ctx"
  by (rule task_step_effect) (auto simp: tasks_ok_def)

lemma run_policy_effect:
  "tasks_ok w s \<Longrightarrow> j < length (policy_tasks s) \<Longrightarrow>
     policy_step w c (policy_tasks s ! j) (shared s) = Some (t, ctx) \<Longrightarrow>
     policy_step_effect w c (policy_tasks s ! j) (shared s) t ctx"
  by (rule policy_step_ok) (auto simp: tasks_ok_def)

lemma tasks_ok_run_policy:
  assumes ok: "tasks_ok w s" and j: "j < length (policy_tasks s)"
    and e: "policy_step_effect w c (policy_tasks s ! j) (shared s) t ctx"
  shows "tasks_ok w (s\<lparr>shared := ctx, policy_tasks := (policy_tasks s)[j := t]\<rparr>)"
proof -
  have ok_j: "policy_task_ok (policy_tasks s ! j)" using ok j by (simp add: tasks_ok_def)
  have ticks: "ticks (shared s) \<le> ticks ctx" using e by (simp add: policy_step_effect_def)
  have "well_formed_policies (policies_after (policy_tasks s ! j) c (policies (shared s)))"
    using ok ok_j by (cases "(policy_tasks s ! j, c, policies (shared s))" rule: policies_after.cases)
      (auto simp: tasks_ok_def)
  moreover have "authorised_removal w (ticks ctx) r" if "r \<in> set (client ctx)" "is_removal r" for r
  proof -
    have "r \<in> set (filter is_removal (client ctx))" using that by simp
    also have "filter is_removal (client ctx) = filter is_removal (client (shared s))"
      using e by (auto simp: policy_step_effect_def)
    finally have "authorised_removal w (ticks (shared s)) r" using ok by (simp add: tasks_ok_def)
    then show ?thesis using ticks by (rule authorised_removal_mono)
  qed
  moreover have "task_ok w (ticks ctx) t'" if "t' \<in> set (tasks s)" for t'
    using ok that task_ok_mono [OF _ ticks] unfolding tasks_ok_def by blast
  moreover have "policy_task_ok t'" if "t' \<in> set ((policy_tasks s)[j := t])" for t'
    using set_update_subset_insert [of "policy_tasks s" j t] that e ok
    unfolding tasks_ok_def policy_step_effect_def by blast
  ultimately show ?thesis using e by (simp add: tasks_ok_def policy_step_effect_def)
qed

lemma tasks_ok_step:
  assumes "sys_step w e s s'" and "tasks_ok w s"
  shows "tasks_ok w s'"
  using assms(1)
proof (cases rule: sys_stepE)
  case (run i t ctx)
  show ?thesis unfolding run(2) by (rule tasks_ok_run [OF assms(2) run(3) run_effect [OF assms(2) run(3,5)]])
next
  case (run_policy j c t ctx)
  show ?thesis unfolding run_policy(2)
    by (rule tasks_ok_run_policy [OF assms(2) run_policy(3) run_policy_effect [OF assms(2) run_policy(3,4)]])
qed (use assms(2) in \<open>auto simp: tasks_ok_def\<close>)

lemma covered_step:
  assumes "sys_step w e s s'" and ok: "tasks_ok w s"
    and cov: "covered w limit t0 (sum_list (map tokens_held (tasks s))) (shared s)"
  shows "covered w limit t0 (sum_list (map tokens_held (tasks s'))) (shared s')"
  using assms(1)
proof (cases rule: sys_stepE)
  case (run i t ctx)
  have "covered w limit t0 (tokens_held (tasks s ! i) + k) (shared s) \<Longrightarrow>
      covered w limit t0 (tokens_held t + k) ctx" for k
    using run_effect [OF ok run(3,5)] by (simp add: step_effect_def)
  then show ?thesis using sum_map_update [OF run(3), of tokens_held] cov run(2) by simp metis
next
  case (run_policy j c t ctx)
  have "policy_step_effect w c (policy_tasks s ! j) (shared s) t ctx"
    by (rule run_policy_effect [OF ok run_policy(3,4)])
  then show ?thesis using run_policy(2)
    by (intro covered_cong [OF cov, THEN covered_less]) (auto simp: policy_step_effect_def removals_def)
next
  case (store_sync store)
  then show ?thesis by (intro covered_cong [OF cov, THEN covered_less]) simp_all
qed (use cov in simp_all)

lemma sys_ok_step:
  "sys_ok w limit t0 s \<Longrightarrow> sys_step w e s s' \<Longrightarrow> sys_ok w limit t0 s'"
  unfolding sys_ok_parts using tasks_ok_step covered_step by blast

interpretation interleaved_run: invariant_system "sys_start w config" "\<lambda>s s'. \<exists>e. sys_step w e s s'"
    "\<lambda>s. \<exists>t0. unix_secs (clock w 0) = Some t0
        \<and> sys_ok w (rate_limit_per_minute config) (int (unat t0)) s"
  for w :: "'p World" and config :: Config
proof
  fix s :: "'p tasks_sys"
  assume "sys_start w config s"
  then have "start_context w config = Some (shared s)" and "tasks s = []" and "policy_tasks s = []"
    by (simp_all add: sys_start_def)
  then show "\<exists>t0. unix_secs (clock w 0) = Some t0
      \<and> sys_ok w (rate_limit_per_minute config) (int (unat t0)) s"
    by (rule_tac operator_ok_start) (auto simp: sys_ok_def operator_ok_def covered_0)
qed (blast intro: sys_ok_step)

lemma sys_reach_ok:
  assumes "sys_reach w config s"
  obtains t0 where "unix_secs (clock w 0) = Some t0"
    and "sys_ok w (rate_limit_per_minute config) (int (unat t0)) s"
  using interleaved_run.reach_inv [OF assms [unfolded sys_reach_def]] by blast

section \<open>Properties of every interleaving\<close>

text \<open>
  C1. However the steps of the reconciliations interleave with each other, with reconciled
  policies and with changes of the store, every deletion or eviction ever sent was authorised:
  some policy with a valid spec selected that pod, was triggered by its annotation, did not
  protect its namespace, was not a dry run, and its condition held at an earlier reading of the
  clock. A cache that is replaced while a call is under way cannot make it send anything else.
\<close>

theorem interleaved_removals_authorised:
  assumes "sys_reach w config s" and "r \<in> set (client (shared s))" and "is_removal r"
  shows "\<exists>pod policy i. i < ticks (shared s) \<and> validate_spec (policy_spec policy) = Inr ()
           \<and> authorises w policy pod (clock w i) r"
  using assms(1)
proof (rule sys_reach_ok)
  fix t0 :: u64
  assume "sys_ok w (rate_limit_per_minute config) (int (unat t0)) s"
  then show ?thesis using assms(2,3)
    by (auto simp: sys_ok_def authorised_removal_def validate_spec_Inr)
qed


text \<open>
  C27. At every moment of every interleaving each cached policy passed validation: a TTL policy has
  a positive TTL and no expression, a CEL policy an expression that is not blank and no TTL. So
  the branches of the pod reconciler for a missing TTL or a missing expression are never taken,
  and every program in the evaluator's cache is the compiled form of its expression.
\<close>

theorem interleaved_caches_sound:
  assumes "sys_reach w config s"
  shows "(\<forall>p \<in> set (policies (shared s)). validate_spec (policy_spec p) = Inr ()
           \<and> (case condition_type (spec_when (policy_spec p)) of
                Builtin \<Rightarrow> (\<exists>ttl. ttl_seconds (spec_when (policy_spec p)) = Some ttl \<and> 0 < sint ttl)
                         \<and> expression (spec_when (policy_spec p)) = None
              | CEL \<Rightarrow> (\<exists>expr. expression (spec_when (policy_spec p)) = Some expr \<and> \<not> trim_is_empty expr)
                     \<and> ttl_seconds (spec_when (policy_spec p)) = None))
       \<and> (\<forall>expr prog. evaluator (shared s) expr = Some prog \<longrightarrow> compile (cel w) expr = Inr prog)"
  using assms
proof (rule sys_reach_ok)
  fix t0 :: u64
  assume ok: "sys_ok w (rate_limit_per_minute config) (int (unat t0)) s"
  have "\<forall>expr prog. evaluator (shared s) expr = Some prog \<longrightarrow> compile (cel w) expr = Inr prog"
    using ok unfolding sys_ok_def cache_coherent_def by blast
  moreover have "well_formed_policies (policies (shared s))" using ok by (simp add: sys_ok_def)
  ultimately show ?thesis using well_formed_shape by blast
qed

section \<open>A sample interleaving\<close>

text \<open>
  Two expired pods are reconciled at once; while both wait to send, the store is emptied and
  another policy is reconciled, so that nothing is cached any more.
\<close>

definition sample_events :: "event list" where
  "sample_events =
     [StoreSync [ttl_policy ''t'' 600], PolicyChange (ttl_policy ''t'' 600)]
     @ replicate 10 (RunPolicy 0 GoOn) @ [
      Spawn (bare_pod ''d'' ''p'' 0), Spawn (bare_pod ''d'' ''q'' 0)]
     @ concat (replicate 6 [Run 0, Run 1])
     @ [StoreSync [], PolicyChange (ttl_policy ''u'' 60)] @ replicate 3 (RunPolicy 1 GoOn)
     @ [Run 1, Run 0, Run 0, Run 1]"

definition sample_interleaving :: "string tasks_sys option" where
  "sample_interleaving =
     (case start_context sample_world sample_config of
        None \<Rightarrow> None
      | Some ctx \<Rightarrow> exec_events sample_world sample_events \<lparr>shared = ctx, tasks = [], policy_tasks = []\<rparr>)"

lemma sample_interleaving_requests:
  "map_option (\<lambda>s. (filter is_removal (client (shared s)), map is_finished (tasks s), ticks (shared s))) sample_interleaving
     = Some ([DeletePod ''d'' ''q'' (Some 30), DeletePod ''d'' ''p'' (Some 30)],
             [True, True], 11)"
  by code_simp

lemma sample_interleavingE:
  obtains s where "sys_reach sample_world sample_config s"
    and "filter is_removal (client (shared s)) = [DeletePod ''d'' ''q'' (Some 30), DeletePod ''d'' ''p'' (Some 30)]"
    and "ticks (shared s) = 11"
proof -
  obtain ctx where ctx: "start_context sample_world sample_config = Some ctx"
    using sample_interleaving_requests by (auto simp: sample_interleaving_def split: option.splits)
  obtain s where s: "sample_interleaving = Some s"
      "filter is_removal (client (shared s)) = [DeletePod ''d'' ''q'' (Some 30), DeletePod ''d'' ''p'' (Some 30)]"
      "ticks (shared s) = 11"
    using sample_interleaving_requests by auto
  have "sys_run sample_world sample_events \<lparr>shared = ctx, tasks = [], policy_tasks = []\<rparr> s"
    using s(1) ctx by (simp add: sys_run_exec sample_interleaving_def)
  moreover have "sys_reach sample_world sample_config \<lparr>shared = ctx, tasks = [], policy_tasks = []\<rparr>"
    unfolding sys_reach_def by (rule reach_init) (simp add: sys_start_def ctx)
  ultimately have "sys_reach sample_world sample_config s" by (rule sys_reach_run)
  then show thesis using s(2,3) by (rule that)
qed

theorem interleaved_removals_authorised_witness:
  "\<exists>pod policy now. authorises sample_world policy pod now (DeletePod ''d'' ''p'' (Some 30))"
proof (rule sample_interleavingE)
  fix s
  assume r: "sys_reach sample_world sample_config s"
    and f: "filter is_removal (client (shared s))
      = [DeletePod ''d'' ''q'' (Some 30), DeletePod ''d'' ''p'' (Some 30)]"
  have "DeletePod ''d'' ''p'' (Some 30) \<in> set (filter is_removal (client (shared s)))" by (simp add: f)
  then show ?thesis using interleaved_removals_authorised [OF r] by fastforce
qed


theorem interleaved_caches_sound_witness:
  "\<exists>s. sys_reach sample_world sample_config s
     \<and> (\<forall>p \<in> set (policies (shared s)). validate_spec (policy_spec p) = Inr ())"
proof (rule sample_interleavingE)
  fix s
  assume r: "sys_reach sample_world sample_config s"
  show ?thesis using interleaved_caches_sound [OF r] r by blast
qed

end
