(* ===== verification/Task_Atomic.thy ===== *)
theory Task_Atomic
  imports Task_Safety
begin







end
