(* ===== verification/Task_Patches.thy ===== *)
theory Task_Patches
  imports Task_Safety
begin

text \<open>
  \<open>POD_PATCH_CONCURRENCY_LIMIT\<close> in the interleaved operator: what the configuration sets bounds
  the pending patches of every reconciliation, not those of the operator.
\<close>

section \<open>The limit of a reconciliation\<close>

text \<open>No step changes the configured limit.\<close>

lemma ask_global_limit:
  "ask_global w ctx = Some (g, ctx') \<Longrightarrow>
     ctx_pod_patch_concurrency_limit ctx' = ctx_pod_patch_concurrency_limit ctx"
  by (auto simp: ask_global_def tick_def split: option.splits)

lemma ask_policy_limit:
  "ask_policy w name m ctx = Some (g, ctx') \<Longrightarrow>
     ctx_pod_patch_concurrency_limit ctx' = ctx_pod_patch_concurrency_limit ctx"
  by (auto simp: ask_policy_def tick_def split: option.splits)

lemma condition_met_limit:
  "condition_met w pod p ttl ctx = (met, ttl', ctx') \<Longrightarrow>
     ctx_pod_patch_concurrency_limit ctx' = ctx_pod_patch_concurrency_limit ctx"
  by (auto simp: condition_met_def builtin_condition_def cel_condition_def count_event_def tick_def Let_def
      split: ConditionType.splits option.splits sum.splits prod.splits if_splits Error.splits)

lemma task_step_limit:
  "task_step w t ctx = Some (t', ctx') \<Longrightarrow>
     ctx_pod_patch_concurrency_limit ctx' = ctx_pod_patch_concurrency_limit ctx"
  by (induction w t ctx rule: task_step.induct)
    (auto simp: evaluate_step_def count_event_def send_def
      dest: ask_global_limit ask_policy_limit condition_met_limit
      split: if_splits option.splits sum.splits prod.splits)

lemma policy_step_limit:
  "policy_step w c t ctx = Some (t', ctx') \<Longrightarrow>
     ctx_pod_patch_concurrency_limit ctx' = ctx_pod_patch_concurrency_limit ctx"
  by (induction w c t ctx rule: policy_step.induct)
    (auto simp: validation_step_def validate_policy_cel_def update_policy_status_def tick_def send_def Let_def
      split: if_splits option.splits sum.splits prod.splits)

text \<open>The invariant: the limit is the configured one and every task keeps it.\<close>

definition patches_ok :: "usize \<Rightarrow> 'p tasks_sys \<Rightarrow> bool" where
  "patches_ok limit s \<longleftrightarrow>
     ctx_pod_patch_concurrency_limit (shared s) = limit
   \<and> (\<forall>t \<in> set (policy_tasks s). within_limit limit t)"

lemma patches_ok_step:
  assumes "patches_ok limit s" and "sys_step w e s s'" and room: "\<forall>k. has_room w limit k \<longrightarrow> k < unat limit"
  shows "patches_ok limit s'"
  using assms(2)
proof (cases rule: sys_stepE)
  case (run i t ctx)
  then show ?thesis using assms(1) task_step_limit [OF run(5)] by (simp add: patches_ok_def)
next
  case (policy_change policy)
  then show ?thesis using assms(1) by (auto simp: patches_ok_def within_limit_def)
next
  case (run_policy j c t ctx)
  have "within_limit limit t"
    using within_limit_step [OF run_policy(4)] assms(1) room run_policy(3) by (simp add: patches_ok_def)
  then have "\<forall>t' \<in> set (policy_tasks s'). within_limit limit t'"
    using assms(1) set_update_subset_insert [of "policy_tasks s" j t] run_policy(2)
    by (auto simp: patches_ok_def)
  then show ?thesis
    using assms(1) policy_step_limit [OF run_policy(4)] run_policy(2) by (simp add: patches_ok_def)
qed (use assms(1) in \<open>simp_all add: patches_ok_def\<close>)

lemma start_context_limit:
  "start_context w config = Some ctx \<Longrightarrow>
     ctx_pod_patch_concurrency_limit ctx = pod_patch_concurrency_limit config"
  by (auto simp: start_context_def split: option.splits)

interpretation patches_run: invariant_system "sys_start w config" "\<lambda>s s'. \<exists>e. sys_step w e s s'"
    "\<lambda>s. (\<forall>k. has_room w (pod_patch_concurrency_limit config) k \<longrightarrow> k < unat (pod_patch_concurrency_limit config))
       \<longrightarrow> patches_ok (pod_patch_concurrency_limit config) s"
  for w :: "'p World" and config :: Config
proof
  fix s :: "'p tasks_sys"
  assume "sys_start w config s"
  then have "patches_ok (pod_patch_concurrency_limit config) s"
    using start_context_limit by (auto simp: sys_start_def patches_ok_def)
  then show "(\<forall>k. has_room w (pod_patch_concurrency_limit config) k \<longrightarrow> k < unat (pod_patch_concurrency_limit config))
      \<longrightarrow> patches_ok (pod_patch_concurrency_limit config) s" ..
qed (blast intro: patches_ok_step)

text \<open>
  C28. In every interleaving no reconciliation of a policy has more patches pending than
  \<open>POD_PATCH_CONCURRENCY_LIMIT\<close>, unless that is zero: then \<open>for_each_concurrent\<close>, which
  otherwise has room only below its limit, has none. The limit is one of each reconciliation, so as many times that number can be pending as
  policies are reconciled at once.
\<close>

theorem pending_patches_bounded:
  assumes "sys_reach w config s" and "pod_patch_concurrency_limit config \<noteq> 0"
    and "\<forall>limit k. limit \<noteq> 0 \<and> has_room w limit k \<longrightarrow> k < unat limit"
  shows "(\<forall>t \<in> set (policy_tasks s). length (pending_patches t) \<le> unat (pod_patch_concurrency_limit config))
       \<and> length (concat (map pending_patches (policy_tasks s)))
           \<le> length (policy_tasks s) * unat (pod_patch_concurrency_limit config)"
proof -
  have each: "length (pending_patches t) \<le> unat (pod_patch_concurrency_limit config)"
    if "t \<in> set (policy_tasks s)" for t
    using patches_run.reach_inv [OF assms(1) [unfolded sys_reach_def]] that assms(2,3)
    by (simp add: patches_ok_def within_limit_def)
  have "length (concat (map pending_patches ts)) \<le> length ts * n"
    if "\<forall>t \<in> set ts. length (pending_patches t) \<le> n" for ts n
    using that by (induction ts) auto
  then show ?thesis using each by blast
qed

text \<open>Two reconciliations with a limit of one, each with a patch pending.\<close>

definition patching_config :: Config where
  "patching_config = sample_config\<lparr>pod_patch_concurrency_limit := 1\<rparr>"

definition patching_events :: "event list" where
  "patching_events = [PolicyChange (ttl_policy ''t'' 600), PolicyChange (ttl_policy ''u'' 600)]
     @ replicate 9 (RunPolicy 0 GoOn) @ replicate 9 (RunPolicy 1 GoOn)"

definition patching_run :: "string tasks_sys option" where
  "patching_run = (case start_context listing_world patching_config of
     None \<Rightarrow> None
   | Some ctx \<Rightarrow> exec_events listing_world patching_events \<lparr>shared = ctx, tasks = [], policy_tasks = []\<rparr>)"

lemma patching_run_result:
  "map_option (\<lambda>s. map (\<lambda>t. length (pending_patches t)) (policy_tasks s)) patching_run = Some [1, 1]"
  by code_simp

theorem pending_patches_bounded_witness:
  "\<exists>s. sys_reach listing_world patching_config s
     \<and> map (\<lambda>t. length (pending_patches t)) (policy_tasks s) = [1, 1]
     \<and> length (concat (map pending_patches (policy_tasks s))) \<le> length (policy_tasks s) * 1"
proof -
  obtain s where s: "patching_run = Some s" "map (\<lambda>t. length (pending_patches t)) (policy_tasks s) = [1, 1]"
    using patching_run_result by auto
  have r: "sys_reach listing_world patching_config s"
    using s(1) by (auto simp: patching_run_def split: option.splits intro: exec_events_reach)
  have "pod_patch_concurrency_limit patching_config = 1" by (simp add: patching_config_def)
  moreover have "\<forall>limit k. limit \<noteq> 0 \<and> has_room listing_world limit k \<longrightarrow> k < unat limit"
    by (auto simp: listing_world_def sample_world_def)
  ultimately show ?thesis using pending_patches_bounded [OF r] r s(2) by (intro exI [of _ s]) simp
qed

end
