(* ===== verification/Http_Server.thy ===== *)
theory Http_Server
  imports Metrics_Registry
begin

text \<open>
  \<open>src/server.rs\<close>: the operator's HTTP endpoint with its two handlers, from the binding of the
  address until the shutdown. The socket and the answers to anything but a registered GET are
  axum's and tokio's: the arguments \<open>bind\<close> and \<open>otherwise\<close>.
\<close>

record ServerState =
  metrics :: Metrics

text \<open>\<open>StatusCode::OK\<close>.\<close>

abbreviation status_ok :: u16 where
  "status_ok \<equiv> 200"

definition metrics_handler :: "ServerState \<Rightarrow> u16 \<times> string" where
  "metrics_handler state =
     (let output = prometheus_format (metrics state) in (status_ok, output))"

definition health_handler :: "u16 \<times> string" where
  "health_handler = (status_ok, ''OK'')"

section \<open>The server\<close>

text \<open>The routes of the router, with the answer of the handler in the given state.\<close>

definition routes :: "ServerState \<Rightarrow> (string \<times> (u16 \<times> string)) list" where
  "routes state = [(''/metrics'', metrics_handler state), (''/health'', health_handler)]"

text \<open>
  What happens to the server: a request, an increment of one of the counters it shares with the
  reconcilers, the shutdown signal, or an error of the serving socket.
\<close>

datatype http_event = Get string | OtherRequest string string | Count Metric | StopSignal | ServeError string

text \<open>The answers, and the result of \<open>server.await\<close> if it has returned.\<close>

fun serve ::
  "(string \<Rightarrow> string \<Rightarrow> u16 \<times> string) \<Rightarrow> ServerState \<Rightarrow> http_event list \<Rightarrow>
     (u16 \<times> string) list \<times> (string + unit) option" where
  "serve otherwise state [] = ([], None)"
| "serve otherwise state (Get path # es) =
     (let (answers, res) = serve otherwise state es
      in ((case map_of (routes state) path of Some r \<Rightarrow> r | None \<Rightarrow> otherwise ''GET'' path) # answers, res))"
| "serve otherwise state (OtherRequest verb path # es) =
     (let (answers, res) = serve otherwise state es in (otherwise verb path # answers, res))"
| "serve otherwise state (Count c # es) =
     serve otherwise (state\<lparr>metrics := increment c (metrics state)\<rparr>) es"
| "serve otherwise state (StopSignal # es) = ([], Some (Inr ()))"
| "serve otherwise state (ServeError e # es) = ([], Some (Inl e))"

definition start_server ::
  "(string \<Rightarrow> string + unit) \<Rightarrow> (string \<Rightarrow> string \<Rightarrow> u16 \<times> string) \<Rightarrow> Metrics \<Rightarrow> u16 \<Rightarrow> http_event list \<Rightarrow>
     (u16 \<times> string) list \<times> (string + unit) option" where
  "start_server bind otherwise m port es =
     (case bind (''0.0.0.0:'' @ show_uint port) of
        Inl e \<Rightarrow> ([], Some (Inl e))
      | Inr _ \<Rightarrow> serve otherwise \<lparr>metrics = m\<rparr> es)"

lemma serve_count:
  "serve otherwise state (map Count cs @ es)
     = serve otherwise (state\<lparr>metrics := fold increment cs (metrics state)\<rparr>) es"
  by (induction cs arbitrary: state) simp_all

lemma serve_stopped: "snd (serve otherwise state es) = Some r \<Longrightarrow> serve otherwise state (es @ es') = serve otherwise state es"
  by (induction otherwise state es rule: serve.induct) (auto simp: split_beta Let_def)

text \<open>
  The metrics endpoint tells the truth about what the operator has counted: once it listens,
  a scraper that asks it after the increments \<open>cs\<close>, in whatever order the threads performed
  them, reads for each metric its value at the start plus the number of its increments, modulo
  \<open>2 ^ 64\<close>; and the health check is answered until the server stops.
\<close>

theorem endpoint_reports_counters:
  assumes "bind (''0.0.0.0:'' @ show_uint port) = Inr ()"
  shows "\<exists>body answers res.
       start_server bind otherwise m port (map Count cs @ Get ''/metrics'' # Get ''/health'' # es)
         = ((200, body) # (200, ''OK'') # answers, res)
     \<and> scrape (metric_name c) body = Some (get_metric c m + of_nat (count_list cs c))"
proof -
  let ?m = "fold increment cs m"
  have "start_server bind otherwise m port (map Count cs @ Get ''/metrics'' # Get ''/health'' # es)
      = ((200, prometheus_format ?m) # (200, ''OK'') # fst (serve otherwise \<lparr>metrics = ?m\<rparr> es),
         snd (serve otherwise \<lparr>metrics = ?m\<rparr> es))"
    using assms
    by (simp add: start_server_def serve_count routes_def metrics_handler_def health_handler_def
        split_beta)
  moreover have "scrape (metric_name c) (prometheus_format ?m) = Some (get_metric c m + of_nat (count_list cs c))"
    by (simp add: scrape_prometheus_format metrics_count_increments)
  ultimately show ?thesis by blast
qed

theorem endpoint_reports_counters_witness:
  "\<exists>body answers res.
     start_server (\<lambda>_. Inr ()) (\<lambda>_ _. (404, [])) new_metrics 8080
         (map Count [PodsEvaluated, PodsDeleted, PodsEvaluated] @ Get ''/metrics'' # Get ''/health'' # [StopSignal])
       = ((200, body) # (200, ''OK'') # answers, res)
   \<and> scrape (metric_name PodsEvaluated) body
       = Some (get_metric PodsEvaluated new_metrics + of_nat (count_list [PodsEvaluated, PodsDeleted, PodsEvaluated] PodsEvaluated))"
  by (rule endpoint_reports_counters) simp

end
