(* ===== verification/Task_Metrics.thy ===== *)
theory Task_Metrics
  imports Task_Safety Http_Server
begin

text \<open>
  The \<open>/metrics\<close> endpoint while the reconciliations interleave: what a scrape between any two
  steps of the tasks reads off for the counters of \<open>src/metrics.rs\<close>, in terms of what the
  operator has done. A counter is raised a step after what it counts, so the tasks in between are
  part of the statement.
\<close>

section \<open>What the counters should say\<close>

text \<open>The removals that the API server accepted.\<close>

definition accepted :: "'p World \<Rightarrow> Request list \<Rightarrow> nat" where
  "accepted w rs = count_list (outcomes w [] rs) True"

lemma accepted_snoc:
  "accepted w (rs @ [r]) = accepted w rs + (if request_succeeded w (rs @ [r]) r then 1 else 0)"
  by (simp add: accepted_def outcomes_append)

lemma accepted_other:
  "filter is_removal rs' = [] \<Longrightarrow> accepted w (rs @ rs') = accepted w rs"
proof (induction rs' arbitrary: rs)
  case (Cons r rs')
  then have "\<not> request_succeeded w (rs @ [r]) r" by (cases r) (simp_all split: if_splits)
  moreover have "accepted w ((rs @ [r]) @ rs') = accepted w (rs @ [r])"
    using Cons.prems by (intro Cons.IH) (simp split: if_splits)
  ultimately show ?case by (simp add: accepted_snoc)
qed simp

text \<open>A task that has begun, and one whose removal was accepted but is not counted yet.\<close>

fun has_begun :: "task \<Rightarrow> bool" where
  "has_begun (Called pod) = False"
| "has_begun t = True"

fun uncounted :: "'p World \<Rightarrow> task \<Rightarrow> bool" where
  "uncounted w (Awaiting h r pod ps ttl) = request_succeeded w h r"
| "uncounted w t = False"

abbreviation how_many :: "(task \<Rightarrow> bool) \<Rightarrow> task list \<Rightarrow> nat" where
  "how_many P ts \<equiv> length (filter P ts)"

lemma how_many_update:
  assumes "i < length ts"
  obtains k where "how_many P ts = of_bool (P (ts ! i)) + k"
    and "\<And>t. how_many P (ts[i := t]) = of_bool (P t) + k"
proof -
  have sum: "how_many P xs = (\<Sum>t\<leftarrow>xs. of_bool (P t))" for xs by (induction xs) simp_all
  show thesis using sum_map_update [OF assms, of "\<lambda>t. of_bool (P t)"] that unfolding sum by metis
qed

section \<open>The invariant\<close>

declare increment.simps [simp del] get_metric.simps [simp del]

definition metrics_true :: "'p World \<Rightarrow> 'p tasks_sys \<Rightarrow> bool" where
  "metrics_true w s \<longleftrightarrow>
     get_metric PodsEvaluated (ctx_metrics (shared s)) = of_nat (how_many has_begun (tasks s))
   \<and> (\<exists>n. get_metric PodsDeleted (ctx_metrics (shared s)) = of_nat n
        \<and> n + how_many (uncounted w) (tasks s) = accepted w (client (shared s)))"

lemma evaluate_step_metrics:
  assumes "evaluate_step w pod p ps ttl ctx = (t', ctx')" and "cache_coherent (cel w) (evaluator ctx)"
  shows "client ctx' = client ctx" and "has_begun t'" and "\<not> uncounted w t'"
    and "c \<noteq> EvaluationErrors \<Longrightarrow> get_metric c (ctx_metrics ctx') = get_metric c (ctx_metrics ctx)"
proof -
  obtain met ttl' ctx1 where c: "condition_met w pod p ttl ctx = (met, ttl', ctx1)"
    by (rule prod_cases3)
  have "changes_condition w ctx ctx'" and "has_begun t' \<and> \<not> uncounted w t'"
    using condition_met_result(3) [OF assms(2) c] assms(1) c
    by (auto simp: evaluate_step_def split: if_splits)
  then show "client ctx' = client ctx" and "has_begun t'" and "\<not> uncounted w t'"
    and "c \<noteq> EvaluationErrors \<Longrightarrow> get_metric c (ctx_metrics ctx') = get_metric c (ctx_metrics ctx)"
    by (auto simp: changes_condition_def get_increment)
qed

text \<open>What a step adds to the two counters.\<close>

definition counts_step :: "'p World \<Rightarrow> task \<Rightarrow> 'p Context \<Rightarrow> task \<Rightarrow> 'p Context \<Rightarrow> bool" where
  "counts_step w t ctx t' ctx' \<longleftrightarrow>
     (\<exists>b d. get_metric PodsEvaluated (ctx_metrics ctx') = get_metric PodsEvaluated (ctx_metrics ctx) + of_nat b
        \<and> b + of_bool (has_begun t) = of_bool (has_begun t')
        \<and> get_metric PodsDeleted (ctx_metrics ctx') = get_metric PodsDeleted (ctx_metrics ctx) + of_nat d
        \<and> d + of_bool (uncounted w t') + accepted w (client ctx)
            = of_bool (uncounted w t) + accepted w (client ctx'))"

lemma counts_stepI:
  assumes "get_metric PodsEvaluated (ctx_metrics ctx') = get_metric PodsEvaluated (ctx_metrics ctx) + of_nat b"
    and "b + of_bool (has_begun t) = of_bool (has_begun t')"
    and "get_metric PodsDeleted (ctx_metrics ctx') = get_metric PodsDeleted (ctx_metrics ctx) + of_nat d"
    and "d + of_bool (uncounted w t') + accepted w (client ctx)
          = of_bool (uncounted w t) + accepted w (client ctx')"
  shows "counts_step w t ctx t' ctx'"
  unfolding counts_step_def using assms by blast

lemma counts_step_same:
  "ctx_metrics ctx' = ctx_metrics ctx \<Longrightarrow> client ctx' = client ctx \<Longrightarrow>
     has_begun t' = has_begun t \<Longrightarrow> uncounted w t' = uncounted w t \<Longrightarrow> counts_step w t ctx t' ctx'"
  by (rule counts_stepI [where b = 0 and d = 0]) simp_all

lemma task_step_metrics:
  assumes step: "task_step w t ctx = Some (t', ctx')" and ok: "cache_coherent (cel w) (evaluator ctx)"
  shows "counts_step w t ctx t' ctx'"
proof (cases t)
  case (Called pod)
  then show ?thesis using step
    by (intro counts_stepI [where b = 1 and d = 0]) (auto simp: get_increment)
next
  case (Looping pod ps ttl)
  then show ?thesis using step
    by (cases ps) (auto simp: get_increment intro!: counts_stepI [where b = 0 and d = 0] split: if_splits)
next
  case (Evaluating pod p ps ttl)
  then have e: "evaluate_step w pod p ps ttl ctx = (t', ctx')" using step by simp
  show ?thesis using evaluate_step_metrics [OF e ok] Evaluating
    by (intro counts_stepI [where b = 0 and d = 0]) simp_all
next
  case (AskingGlobal pod p ps ttl)
  then obtain g where g: "ask_global w ctx = Some (g, ctx')" "t' = AskingPolicy g pod p ps ttl"
    using step by (auto split: option.splits)
  show ?thesis using same_but_limiter_frame(1,2) [OF ask_global_same [OF g(1)]] g(2) AskingGlobal
    by (intro counts_step_same) simp_all
next
  case (AskingPolicy g pod p ps ttl)
  then obtain a ctx1 where a: "ask_policy w (policy_name_any p)
        (max_deletes_per_minute (spec_limits (policy_spec p))) ctx = Some (a, ctx1)"
      "(t', ctx') = (if \<not> g \<or> \<not> a then (Finished (Inr (Requeue 10)), count_event RateLimited ctx1)
        else (Sending pod p ps ttl, ctx1))"
    using step by (auto split: option.splits if_splits)
  show ?thesis using same_but_limiter_frame(1,2) [OF ask_policy_same [OF a(1)]] a(2) AskingPolicy
    by (intro counts_stepI [where b = 0 and d = 0]) (auto simp: get_increment split: if_splits)
next
  case (Sending pod p ps ttl)
  then show ?thesis using step
    by (intro counts_stepI [where b = 0 and d = 0]) (auto simp: accepted_snoc split: sum.splits)
next
  case (Awaiting h r pod ps ttl)
  then show ?thesis using step
    by (intro counts_stepI [where b = 0 and d = "of_bool (request_succeeded w h r)"])
      (auto simp: get_increment split: if_splits)
qed (use step in \<open>auto intro: counts_step_same\<close>)

lemma policy_step_metrics:
  "policy_step w c t ctx = Some (t', ctx') \<Longrightarrow> cache_coherent (cel w) (evaluator ctx) \<Longrightarrow>
     ctx_metrics ctx' = ctx_metrics ctx"
proof (induction w c t ctx rule: policy_step.induct)
  case (1 w policy ctx)
  then show ?case using validation_step_effect [OF 1(2), of policy t' ctx'] by auto
qed (auto simp: update_policy_status_def Let_def split: sum.splits if_splits)

lemma metrics_true_step:
  assumes "sys_step w e s s'" and ok: "sys_ok w limit t0 s" and m: "metrics_true w s"
  shows "metrics_true w s'"
  using assms(1)
proof (cases rule: sys_stepE)
  case (spawn pod)
  then show ?thesis using m by (simp add: metrics_true_def)
next
  case (run i t ctx)
  have coherent: "cache_coherent (cel w) (evaluator (shared s))" using ok by (simp add: sys_ok_def)
  obtain b d where step:
      "get_metric PodsEvaluated (ctx_metrics ctx) = get_metric PodsEvaluated (ctx_metrics (shared s)) + of_nat b"
      "b + of_bool (has_begun (tasks s ! i)) = of_bool (has_begun t)"
      "get_metric PodsDeleted (ctx_metrics ctx) = get_metric PodsDeleted (ctx_metrics (shared s)) + of_nat d"
      "d + of_bool (uncounted w t) + accepted w (client (shared s))
         = of_bool (uncounted w (tasks s ! i)) + accepted w (client ctx)"
    using task_step_metrics [OF run(5) coherent] unfolding counts_step_def by blast
  obtain k where k: "how_many has_begun (tasks s) = of_bool (has_begun (tasks s ! i)) + k"
      "how_many has_begun ((tasks s)[i := t]) = of_bool (has_begun t) + k"
    using how_many_update [OF run(3)] by metis
  obtain l where l: "how_many (uncounted w) (tasks s) = of_bool (uncounted w (tasks s ! i)) + l"
      "how_many (uncounted w) ((tasks s)[i := t]) = of_bool (uncounted w t) + l"
    using how_many_update [OF run(3)] by metis
  obtain n where n: "get_metric PodsDeleted (ctx_metrics (shared s)) = of_nat n"
      "n + how_many (uncounted w) (tasks s) = accepted w (client (shared s))"
    using m by (auto simp: metrics_true_def)
  have "get_metric PodsEvaluated (ctx_metrics ctx) = of_nat (how_many has_begun (tasks s) + b)"
    using step(1) m by (simp add: metrics_true_def)
  also have "how_many has_begun (tasks s) + b = how_many has_begun ((tasks s)[i := t])"
    using step(2) k by linarith
  finally have evaluated: "get_metric PodsEvaluated (ctx_metrics ctx) = of_nat (how_many has_begun ((tasks s)[i := t]))" .
  have "get_metric PodsDeleted (ctx_metrics ctx) = of_nat (n + d)" using step(3) n(1) by simp
  moreover have "n + d + how_many (uncounted w) ((tasks s)[i := t]) = accepted w (client ctx)"
    using step(4) n(2) l by linarith
  ultimately show ?thesis using evaluated unfolding run(2) metrics_true_def by (auto simp del: of_nat_add)
next
  case (policy_change policy)
  then show ?thesis using m by (simp add: metrics_true_def)
next
  case (run_policy j c t ctx)
  have e: "policy_step_effect w c (policy_tasks s ! j) (shared s) t ctx"
    by (rule run_policy_effect [OF sys_ok_tasks [OF ok] run_policy(3,4)])
  then have "accepted w (client ctx) = accepted w (client (shared s))"
    using accepted_other by (auto simp: policy_step_effect_def)
  moreover have "ctx_metrics ctx = ctx_metrics (shared s)"
    by (rule policy_step_metrics [OF run_policy(4)]) (use ok in \<open>simp add: sys_ok_def\<close>)
  ultimately show ?thesis using run_policy(2) m by (simp add: metrics_true_def)
next
  case (store_sync store)
  then show ?thesis using m by (simp add: metrics_true_def)
qed

section \<open>What a scrape tells\<close>

lemma start_context_metrics:
  "start_context w config = Some ctx \<Longrightarrow> ctx_metrics ctx = new_metrics \<and> client ctx = []"
  by (auto simp: start_context_def split: option.splits)

interpretation counted_run: invariant_system "sys_start w config" "\<lambda>s s'. \<exists>e. sys_step w e s s'"
    "\<lambda>s. (\<exists>limit t0. sys_ok w limit t0 s) \<and> metrics_true w s"
  for w :: "'p World" and config :: Config
proof
  fix s :: "'p tasks_sys"
  assume start: "sys_start w config s"
  then have "metrics_true w s"
    using start_context_metrics [of w config]
    by (auto simp: sys_start_def metrics_true_def new_metrics_def getter_defs accepted_def get_metric.simps)
  then show "(\<exists>limit t0. sys_ok w limit t0 s) \<and> metrics_true w s"
    using interleaved_run.init_inv [OF start] by blast
qed (blast intro: sys_ok_step metrics_true_step)

text \<open>
  C4. A scrape of \<open>/metrics\<close> at any moment of any interleaving reads off what the operator has
  done, modulo \<open>2 ^ 64\<close>: \<open>pods_evaluated\<close> is the number of reconciliations of pods that
  have begun, and \<open>pods_deleted\<close> the number of deletions and evictions the API server has
  accepted, less those whose answer a task has still to look at.
\<close>

theorem scrape_tells_interleaved_history:
  assumes "sys_reach w config s"
  shows "\<exists>body n. metrics_handler \<lparr>metrics = ctx_metrics (shared s)\<rparr> = (200, body)
     \<and> scrape ''kube_depod_pods_evaluated_total'' body = Some (of_nat (how_many has_begun (tasks s)))
     \<and> scrape ''kube_depod_pods_deleted_total'' body = Some (of_nat n)
     \<and> n + how_many (uncounted w) (tasks s) = accepted w (client (shared s))"
proof -
  have "metrics_true w s" using counted_run.reach_inv assms unfolding sys_reach_def by blast
  then show ?thesis
    using scrape_prometheus_format [of PodsEvaluated "ctx_metrics (shared s)"]
      scrape_prometheus_format [of PodsDeleted "ctx_metrics (shared s)"]
    by (auto simp: metrics_handler_def metrics_true_def)
qed

text \<open>The sample interleaving up to its last step: both pods are deleted, one is not counted yet.\<close>

lemma sample_interleaving_metrics:
  "Option.bind (start_context sample_world sample_config) (\<lambda>ctx. map_option
      (\<lambda>s. (how_many has_begun (tasks s), how_many (uncounted sample_world) (tasks s),
            accepted sample_world (client (shared s))))
      (exec_events sample_world (butlast sample_events) \<lparr>shared = ctx, tasks = [], policy_tasks = []\<rparr>)) = Some (2, 1, 2)"
  by code_simp

theorem scrape_tells_interleaved_history_witness:
  "\<exists>s body. sys_reach sample_world sample_config s
     \<and> metrics_handler \<lparr>metrics = ctx_metrics (shared s)\<rparr> = (200, body)
     \<and> scrape ''kube_depod_pods_evaluated_total'' body = Some 2
     \<and> scrape ''kube_depod_pods_deleted_total'' body = Some 1"
proof -
  obtain ctx s where ctx: "start_context sample_world sample_config = Some ctx"
    and s: "exec_events sample_world (butlast sample_events) \<lparr>shared = ctx, tasks = [], policy_tasks = []\<rparr> = Some s"
    and n: "how_many has_begun (tasks s) = 2" "how_many (uncounted sample_world) (tasks s) = 1"
      "accepted sample_world (client (shared s)) = 2"
    using sample_interleaving_metrics by (auto simp: Option.bind_eq_Some_conv)
  have r: "sys_reach sample_world sample_config s" by (rule exec_events_reach [OF ctx s])
  obtain body k where body: "metrics_handler \<lparr>metrics = ctx_metrics (shared s)\<rparr> = (200, body)"
      "scrape ''kube_depod_pods_evaluated_total'' body = Some (of_nat 2)"
      "scrape ''kube_depod_pods_deleted_total'' body = Some (of_nat k)" "k + 1 = 2"
    using scrape_tells_interleaved_history [OF r] unfolding n by blast
  then have "k = 1" by simp
  then show ?thesis using r body by auto
qed

end
