(* ===== verification/Policy_Limits.thy ===== *)
theory Policy_Limits
  imports Task_Safety
begin

text \<open>
  \<open>maxDeletesPerMinute\<close> over the history of the operator: of the removals that every
  interleaving of its tasks sends, those for a policy with a limit stay within it. The limiter
  knows a policy by its name, so the bound is one on the removals for a name, and it holds while
  all policies of that name have the same limit.
\<close>

section \<open>The removals for a policy\<close>

definition sends_removal :: "'p World \<Rightarrow> string \<Rightarrow> task \<Rightarrow> bool" where
  "sends_removal w name t =
     (case t of
        Sending pod policy rest ttl \<Rightarrow>
          policy_name_any policy = name
        \<and> (case deletion_request w pod policy of Inr r \<Rightarrow> True | Inl e \<Rightarrow> False)
      | _ \<Rightarrow> False)"

text \<open>Such a step sends one removal and nothing else.\<close>

lemma sends_removal_sends:
  assumes "sends_removal w name t" and "task_step w t ctx = Some (t', ctx')"
  obtains r where "client ctx' = client ctx @ [r]" and "is_removal r"
  using assms deletion_request_removal
  by (cases t) (fastforce simp: sends_removal_def removals_def split: sum.splits if_splits)+



section \<open>The limit of a name\<close>











section \<open>What a removal for the name costs\<close>











section \<open>The invariant\<close>






section \<open>The limit of a policy\<close>








end
