(* ===== verification/Policy_Events.thy ===== *)
theory Policy_Events
  imports Task_Safety
begin

text \<open>
  Reconciled policies over time: the cache of policies between the changes of the store, the
  store that lags behind the event it is read for, and the events that the operator causes
  itself by writing the status of a policy.
\<close>

section \<open>The cache between refreshes\<close>

lemma sys_step_policies:
  assumes "sys_step w e s s'" and ok: "sys_ok w limit t0 s"
  shows "policies (shared s')
    = (case e of RunPolicy j c \<Rightarrow> policies_after (policy_tasks s ! j) c (policies (shared s))
       | _ \<Rightarrow> policies (shared s))"
  using assms(1)
proof (cases rule: sys_stepE)
  case (run i t ctx)
  have "step_effect w (tasks s ! i) (shared s) t ctx"
    by (rule run_effect [OF sys_ok_tasks [OF ok] run(3,5)])
  then show ?thesis using run by (simp add: step_effect_def)
next
  case (run_policy j c t ctx)
  have "policy_step_effect w c (policy_tasks s ! j) (shared s) t ctx"
    by (rule run_policy_effect [OF sys_ok_tasks [OF ok] run_policy(3,4)])
  then show ?thesis using run_policy by (simp add: policy_step_effect_def)
qed simp_all

text \<open>A task that will not refresh the cache any more, and one of a bad policy never does.\<close>

fun past_refresh :: "'p cel_lib \<Rightarrow> policy_task \<Rightarrow> bool" where
  "past_refresh lib (PolicyCalled policy) \<longleftrightarrow> policy_verdict lib policy \<noteq> Good"
| "past_refresh lib (Refreshing policy) \<longleftrightarrow> False"
| "past_refresh lib (Storing policy ps) \<longleftrightarrow> False"
| "past_refresh lib t \<longleftrightarrow> True"

lemma past_refresh_done: "is_done t \<Longrightarrow> past_refresh lib t"
  by (cases t) simp_all

lemma past_refresh_same: "past_refresh lib t \<Longrightarrow> policies_after t c old = old"
  by (cases "(t, c, old)" rule: policies_after.cases) simp_all

lemma past_refresh_step:
  "policy_step w c t ctx = Some (t', ctx') \<Longrightarrow> cache_coherent (cel w) (evaluator ctx) \<Longrightarrow>
     past_refresh (cel w) t \<Longrightarrow> past_refresh (cel w) t'"
proof (induction w c t ctx rule: policy_step.induct)
  case (1 w policy ctx)
  then show ?case using validation_step_effect [OF 1(2), of policy t' ctx'] by auto
qed (auto simp: Let_def split: sum.splits if_splits)

lemma sys_step_past_refresh:
  assumes "sys_step w e s s'" and ok: "sys_ok w limit t0 s"
    and past: "\<forall>t \<in> set (policy_tasks s). past_refresh (cel w) t"
    and bad: "\<forall>policy. e = PolicyChange policy \<longrightarrow> policy_verdict (cel w) policy \<noteq> Good"
  shows "policies (shared s') = policies (shared s) \<and> (\<forall>t \<in> set (policy_tasks s'). past_refresh (cel w) t)"
  using assms(1)
proof (cases rule: sys_stepE)
  case (run_policy j c t ctx)
  have j: "past_refresh (cel w) (policy_tasks s ! j)" using past run_policy(3) by simp
  have "past_refresh (cel w) t"
    by (rule past_refresh_step [OF run_policy(4) _ j]) (use ok in \<open>simp add: sys_ok_def\<close>)
  then have "\<forall>t' \<in> set (policy_tasks s'). past_refresh (cel w) t'"
    using past set_update_subset_insert [of "policy_tasks s" j t] run_policy(2) by auto
  then show ?thesis
    using sys_step_policies [OF assms(1) ok] past_refresh_same [OF j] run_policy(1) by simp
qed (use sys_step_policies [OF assms(1) ok] past bad in auto)

lemma sys_run_past_refresh:
  "sys_run w es s s' \<Longrightarrow> sys_ok w limit t0 s \<Longrightarrow> \<forall>t \<in> set (policy_tasks s). past_refresh (cel w) t \<Longrightarrow>
     \<forall>policy. PolicyChange policy \<in> set es \<longrightarrow> policy_verdict (cel w) policy \<noteq> Good \<Longrightarrow>
     policies (shared s') = policies (shared s)"
proof (induction rule: sys_run.induct)
  case (run_cons e s s' es s'')
  have "policies (shared s') = policies (shared s) \<and> (\<forall>t \<in> set (policy_tasks s'). past_refresh (cel w) t)"
    by (rule sys_step_past_refresh [OF run_cons.hyps(1) run_cons.prems(1,2)])
      (use run_cons.prems(3) in simp)
  then show ?case
    using run_cons.IH [OF sys_ok_step [OF run_cons.prems(1) run_cons.hyps(1)]] run_cons.prems(3) by simp
qed simp

text \<open>
  C18. Only the reconciliation of a good policy refreshes the cache. Once those under way are done,
  nothing else changes it: neither what the reflector learns, nor the reconciliation of a policy
  that has become invalid, nor any step of a pod's reconciliation. So a policy that is deleted
  from the cluster, or edited until it is invalid, stays in force with its last valid spec until
  some good policy is reconciled.
\<close>

theorem cache_is_last_refresh:
  assumes "sys_reach w config s" and "\<forall>t \<in> set (policy_tasks s). is_done t"
    and "sys_run w es s s'"
    and "\<forall>policy. PolicyChange policy \<in> set es \<longrightarrow> policy_verdict (cel w) policy \<noteq> Good"
  shows "policies (shared s') = policies (shared s)"
  using assms(1)
proof (rule sys_reach_ok)
  fix t0 :: u64
  assume ok: "sys_ok w (rate_limit_per_minute config) (int (unat t0)) s"
  show ?thesis by (rule sys_run_past_refresh [OF assms(3) ok]) (use assms(2,4) past_refresh_done in blast)+
qed

text \<open>A policy is cached, then deleted from the store, and a broken one is reconciled.\<close>

definition cached_events :: "event list" where
  "cached_events = [StoreSync [ttl_policy ''t'' 600], PolicyChange (ttl_policy ''t'' 600)]
     @ replicate 10 (RunPolicy 0 GoOn)"

definition cached_run :: "string tasks_sys option" where
  "cached_run = (case start_context sample_world sample_config of
     None \<Rightarrow> None
   | Some ctx \<Rightarrow> exec_events sample_world cached_events \<lparr>shared = ctx, tasks = [], policy_tasks = []\<rparr>)"

lemma cached_run_result:
  "map_option (\<lambda>s. (map policy_name_any (policies (shared s)), map is_done (policy_tasks s))) cached_run
     = Some ([''t''], [True])"
  by code_simp

definition deleted_events :: "event list" where
  "deleted_events = [StoreSync [], PolicyChange (ttl_policy ''t'' 0), RunPolicy 1 GoOn]"

lemma deleted_run_result:
  "(case cached_run of None \<Rightarrow> None
    | Some s \<Rightarrow> map_option (\<lambda>s'. length (policy_store (shared s')))
        (exec_events sample_world deleted_events s))
     = Some 0"
  by code_simp

theorem cache_is_last_refresh_witness:
  "\<exists>s s'. sys_run sample_world deleted_events s s'
      \<and> policy_store (shared s') = [] \<and> map policy_name_any (policies (shared s')) = [''t'']"
proof -
  obtain s where s: "cached_run = Some s" "map policy_name_any (policies (shared s)) = [''t'']"
      "map is_done (policy_tasks s) = [True]"
    using cached_run_result by auto
  have r: "sys_reach sample_world sample_config s"
    using s(1) by (auto simp: cached_run_def split: option.splits intro: exec_events_reach)
  obtain s' where "exec_events sample_world deleted_events s = Some s'" and empty: "length (policy_store (shared s')) = 0"
    using deleted_run_result unfolding s(1) by (auto simp del: exec_events.simps)
  then have s': "sys_run sample_world deleted_events s s'" by (simp only: sys_run_exec)
  have idle: "\<forall>t \<in> set (policy_tasks s). is_done t" using s(3) by (auto simp: map_eq_Cons_conv)
  have bad: "policy_verdict (cel sample_world) (ttl_policy ''t'' 0) \<noteq> Good" by code_simp
  have "policies (shared s') = policies (shared s)"
    by (rule cache_is_last_refresh [OF r idle s']) (use bad in \<open>auto simp: deleted_events_def\<close>)
  then show ?thesis using s' empty s(2) by (intro exI [of _ s] exI [of _ s']) simp
qed

section \<open>Where the cached policies come from\<close>

text \<open>\<open>ps\<close> are the valid policies of the store at some moment of the run.\<close>

definition once_stored :: "'p World \<Rightarrow> 'p tasks_sys \<Rightarrow> event list \<Rightarrow> DepodPolicy list \<Rightarrow> bool" where
  "once_stored w s0 es ps \<longleftrightarrow>
     (\<exists>es1 es2 s1. es = es1 @ es2 \<and> sys_run w es1 s0 s1 \<and> ps = valid_policies (policy_store (shared s1)))"

lemma once_stored_now: "sys_run w es s0 s \<Longrightarrow> once_stored w s0 es (valid_policies (policy_store (shared s)))"
  unfolding once_stored_def by (metis append_Nil2)

lemma once_stored_later: "once_stored w s0 es ps \<Longrightarrow> once_stored w s0 (es @ es') ps"
  unfolding once_stored_def by (metis append_assoc)

lemma start_context_policies: "start_context w config = Some ctx \<Longrightarrow> policies ctx = []"
  by (auto simp: start_context_def split: option.splits)

text \<open>What a task is about to cache; a step reads it from the store or keeps it.\<close>

lemma policy_step_Storing:
  "policy_step w c t ctx = Some (Storing p ps, ctx') \<Longrightarrow> ps = valid_policies (policy_store ctx)"
  by (induction w c t ctx rule: policy_step.induct)
    (auto simp: validation_step_def Let_def split: sum.splits if_splits prod.splits)

lemma sys_step_policy_task:
  assumes "sys_step w e s s'" and "t \<in> set (policy_tasks s')"
  shows "t \<in> set (policy_tasks s) \<or> (\<exists>policy. t = PolicyCalled policy)
    \<or> (\<exists>j c ctx. policy_step w c (policy_tasks s ! j) (shared s) = Some (t, ctx))"
  using assms(1)
proof (cases rule: sys_stepE)
  case (run_policy j c t' ctx)
  then show ?thesis using assms(2) set_update_subset_insert [of "policy_tasks s" j t'] by auto
qed (use assms(2) in auto)

lemma policies_after_cases: "policies_after t c old = old \<or> (\<exists>p. t = Storing p (policies_after t c old))"
  by (cases "(t, c, old)" rule: policies_after.cases) simp_all

text \<open>
  The cached policies are always the valid policies that the store held together at one
  moment since the start, or none at all: the cache never mixes the states of two moments,
  however many reconciliations refresh it at once.
\<close>

theorem cache_was_in_store:
  assumes "sys_start w config s0" and "sys_run w es s0 s"
  shows "policies (shared s) = []
       \<or> (\<exists>es1 es2 s1. es = es1 @ es2 \<and> sys_run w es1 s0 s1
            \<and> policies (shared s) = filter (\<lambda>p. validate_spec (policy_spec p) = Inr ()) (policy_store (shared s1)))"
proof -
  have reach: "sys_reach w config s0" unfolding sys_reach_def using assms(1) by (rule reach_init)
  have "(policies (shared s) = [] \<or> once_stored w s0 es (policies (shared s)))
      \<and> (\<forall>p ps. Storing p ps \<in> set (policy_tasks s) \<longrightarrow> once_stored w s0 es ps)"
    using assms(2)
  proof (induction es arbitrary: s rule: rev_induct)
    case Nil
    then have start: "start_context w config = Some (shared s)" and "policy_tasks s = []"
      using assms(1) by (simp_all add: sys_start_def)
    then show ?case using start_context_policies [OF start] by simp
  next
    case (snoc e es)
    then obtain s1 where run: "sys_run w es s0 s1" and step: "sys_step w e s1 s"
      by (auto simp: sys_run_append)
    obtain t0 :: u64 where ok: "sys_ok w (rate_limit_per_minute config) (int (unat t0)) s1"
      using sys_reach_run [OF run reach] by (rule sys_reach_ok)
    note IH = snoc.IH [OF run]
    have "policies (shared s) = [] \<or> once_stored w s0 es (policies (shared s))"
    proof (cases "policies (shared s) = policies (shared s1)")
      case False
      then obtain j c where e: "e = RunPolicy j c"
          "policies (shared s) = policies_after (policy_tasks s1 ! j) c (policies (shared s1))"
        using sys_step_policies [OF step ok] by (cases e) auto
      then obtain p where "policy_tasks s1 ! j = Storing p (policies (shared s))"
        using False policies_after_cases [of "policy_tasks s1 ! j" c "policies (shared s1)"] by auto
      moreover have "j < length (policy_tasks s1)" using step e(1) by (auto elim: sys_stepE)
      ultimately show ?thesis using IH by (metis nth_mem)
    qed (use IH in simp)
    moreover have "once_stored w s0 es ps" if new: "Storing p ps \<in> set (policy_tasks s)" for p ps
    proof (cases "Storing p ps \<in> set (policy_tasks s1)")
      case False
      then obtain j c ctx where "policy_step w c (policy_tasks s1 ! j) (shared s1) = Some (Storing p ps, ctx)"
        using sys_step_policy_task [OF step new] by auto
      then show ?thesis using once_stored_now [OF run] policy_step_Storing by blast
    qed (use IH in blast)
    ultimately show ?case using once_stored_later by blast
  qed
  then show ?thesis unfolding once_stored_def valid_policies_def by blast
qed

theorem cache_was_in_store_witness:
  "\<exists>s0 es1 s1. sys_start sample_world sample_config s0 \<and> sys_run sample_world es1 s0 s1
      \<and> map policy_name_any (filter (\<lambda>p. validate_spec (policy_spec p) = Inr ()) (policy_store (shared s1))) = [''t'']"
proof -
  obtain s where s: "cached_run = Some s" "map policy_name_any (policies (shared s)) = [''t'']"
    using cached_run_result by auto
  then obtain ctx where ctx: "start_context sample_world sample_config = Some ctx"
    by (auto simp: cached_run_def split: option.splits)
  let ?s0 = "\<lparr>shared = ctx, tasks = [], policy_tasks = []\<rparr>"
  have start: "sys_start sample_world sample_config ?s0" by (simp add: sys_start_def ctx)
  have run: "sys_run sample_world cached_events ?s0 s"
    using s(1) ctx by (simp add: cached_run_def sys_run_exec)
  show ?thesis using cache_was_in_store [OF start run] start s(2) by (metis list.distinct(1) list.simps(8))
qed

text \<open>
  C19. Reading the store and replacing the cache are two accesses, between which another
  reconciliation can do both: then the older reading wins. The cache is left with what the
  store held before its last change, although a reconciliation after that change has refreshed
  it and both calls go on as if it were up to date; a policy that was deleted by the change is
  in force again.
\<close>

theorem older_refresh_wins:
  assumes "j < length (policy_tasks s)" and "k < length (policy_tasks s)" and "j \<noteq> k"
    and "policy_tasks s ! j = Refreshing p" and "policy_tasks s ! k = Refreshing q"
  shows "\<exists>s'. sys_run w [RunPolicy j GoOn, StoreSync store, RunPolicy k GoOn, RunPolicy k GoOn, RunPolicy j GoOn] s s'
           \<and> policy_store (shared s') = store
           \<and> policies (shared s') = filter (\<lambda>p. validate_spec (policy_spec p) = Inr ()) (policy_store (shared s))
           \<and> policy_tasks s' ! j \<in> {Reporting p Good, Triggering p}
           \<and> policy_tasks s' ! k \<in> {Reporting q Good, Triggering q}"
  using assms by (simp add: sys_run_exec valid_policies_def)

text \<open>Two good policies are reconciled while a third one is deleted.\<close>

definition racing_events :: "event list" where
  "racing_events = [StoreSync [ttl_policy ''old'' 60], PolicyChange (ttl_policy ''p'' 600),
     PolicyChange (ttl_policy ''q'' 600), RunPolicy 0 GoOn, RunPolicy 1 GoOn]"

fun refreshing_name :: "policy_task \<Rightarrow> string" where
  "refreshing_name (Refreshing p) = policy_name_any p"
| "refreshing_name _ = []"

lemma refreshing_name_Cons: "refreshing_name t = c # cs \<Longrightarrow> \<exists>p. t = Refreshing p"
  by (cases t) simp_all

definition racing_run :: "string tasks_sys option" where
  "racing_run = (case start_context sample_world sample_config of
     None \<Rightarrow> None
   | Some ctx \<Rightarrow> exec_events sample_world racing_events \<lparr>shared = ctx, tasks = [], policy_tasks = []\<rparr>)"

lemma racing_run_result:
  "map_option (\<lambda>s. (map refreshing_name (policy_tasks s),
       map policy_name_any (filter (\<lambda>p. validate_spec (policy_spec p) = Inr ()) (policy_store (shared s))))) racing_run
     = Some ([''p'', ''q''], [''old''])"
  by code_simp

theorem older_refresh_wins_witness:
  "\<exists>s s'. sys_reach sample_world sample_config s
      \<and> sys_run sample_world [RunPolicy 0 GoOn, StoreSync [], RunPolicy 1 GoOn, RunPolicy 1 GoOn, RunPolicy 0 GoOn] s s'
      \<and> policy_store (shared s') = [] \<and> map policy_name_any (policies (shared s')) = [''old'']"
proof -
  obtain s where s: "racing_run = Some s"
      "map refreshing_name (policy_tasks s) = [''p'', ''q'']"
      "map policy_name_any (filter (\<lambda>p. validate_spec (policy_spec p) = Inr ()) (policy_store (shared s))) = [''old'']"
    using racing_run_result by auto
  have r: "sys_reach sample_world sample_config s"
    using s(1) by (auto simp: racing_run_def split: option.splits intro: exec_events_reach)
  obtain p q where "policy_tasks s = [Refreshing p, Refreshing q]"
    using s(2) by (auto simp: map_eq_Cons_conv dest!: refreshing_name_Cons)
  then have "\<exists>s'. sys_run sample_world [RunPolicy 0 GoOn, StoreSync [], RunPolicy 1 GoOn, RunPolicy 1 GoOn, RunPolicy 0 GoOn] s s'
      \<and> policy_store (shared s') = []
      \<and> policies (shared s') = filter (\<lambda>p. validate_spec (policy_spec p) = Inr ()) (policy_store (shared s))
      \<and> policy_tasks s' ! 0 \<in> {Reporting p Good, Triggering p}
      \<and> policy_tasks s' ! 1 \<in> {Reporting q Good, Triggering q}"
    by (intro older_refresh_wins) simp_all
  then show ?thesis using r s(3) by metis
qed

section \<open>A store that lags behind\<close>

text \<open>
  The store is filled by a watch of its own, so a policy may be reconciled before the store
  holds its present version. Then it is reported as ready, unless its status says so already,
  but the refreshed cache does not hold it: the operator goes on with what the store has, and
  nothing makes it look again.
\<close>

theorem ready_but_not_cached:
  assumes "cache_coherent (cel w) (evaluator ctx)" and "reconcile_policy w policy ctx = (res, ctx')"
    and "policy_verdict (cel w) policy = Good" and "policy \<notin> set (policy_store ctx)"
  shows "policy \<notin> set (policies ctx')
       \<and> (ready_unreported (policy_status policy) \<longrightarrow>
            (\<exists>t st. PatchPolicyStatus (get_policy_namespace policy) (policy_name_any policy) st
                      \<in> set (sent ctx ctx') \<and> conditions st = [ready t]))
       \<and> (res = Inr AwaitChange \<or> res = Inr (Requeue 60) \<and> target_namespaces policy = [])"
proof -
  have "policies ctx' = valid_policies (policy_store ctx)"
    using reconcile_policy_effect [OF assms(1,2)] assms(3) by metis
  moreover have "\<exists>t st. PatchPolicyStatus (get_policy_namespace policy) (policy_name_any policy) st
      \<in> set (sent ctx ctx') \<and> conditions st = [ready t]" if "ready_unreported (policy_status policy)"
  proof -
    obtain t where "filter is_status_patch (sent ctx ctx') = verdict_requests w policy Good t"
      using status_patches [OF assms(1,2)] assms(3) by auto
    then have "PatchPolicyStatus (get_policy_namespace policy) (policy_name_any policy)
        (default_status\<lparr>conditions := [ready t]\<rparr>) \<in> set (filter is_status_patch (sent ctx ctx'))"
      using that by (simp only: verdict_requests_def) simp
    then show ?thesis unfolding set_filter by fastforce
  qed
  moreover have "res = Inr AwaitChange \<or> res = Inr (Requeue 60) \<and> target_namespaces policy = []"
    using reconcile_policy_effect [OF assms(1,2)] by metis
  ultimately show ?thesis using assms(4) by (auto simp: valid_policies_def)
qed

theorem ready_but_not_cached_witness:
  "policies (snd (reconcile_policy sample_world (ttl_policy ''p'' 600) (sample_context [ttl_policy ''p'' 60])))
     \<noteq> [ttl_policy ''p'' 600]"
proof -
  let ?r = "reconcile_policy sample_world (ttl_policy ''p'' 600) (sample_context [ttl_policy ''p'' 60])"
  have "policy_verdict (cel sample_world) (ttl_policy ''p'' 600) = Good" by code_simp
  then have "ttl_policy ''p'' 600 \<notin> set (policies (snd ?r))"
    using ready_but_not_cached [OF sample_coherent, of "ttl_policy ''p'' 600" "[ttl_policy ''p'' 60]" "fst ?r" "snd ?r"]
    by (simp add: ttl_policy_def)
  then show ?thesis by auto
qed

section \<open>The events the operator causes itself\<close>

text \<open>
  The status that the requests \<open>rs\<close>, sent after \<open>h\<close>, wrote to the policy: the API server merges a
  status patch into the object it addresses, and the patch names every member of a status.
\<close>

fun status_written ::
  "'p World \<Rightarrow> DepodPolicy \<Rightarrow> Request list \<Rightarrow> Request list \<Rightarrow> DepodPolicyStatus option" where
  "status_written w policy h [] = None"
| "status_written w policy h (r # rs) =
     (case r of
        PatchPolicyStatus ns name st \<Rightarrow>
          if patch_reply w (h @ [r]) = Inr () \<and> policy_namespace policy = Some ns
             \<and> policy_name_any policy = name
          then Some st else status_written w policy (h @ [r]) rs
      | _ \<Rightarrow> status_written w policy (h @ [r]) rs)"

text \<open>
  A written status is a change of the policy, for which it is reconciled again; the loop ends
  when a reconciliation has written none. It counts the reconciliations.
\<close>

partial_function (option) settle ::
  "'p World \<Rightarrow> DepodPolicy \<Rightarrow> 'p Context \<Rightarrow> nat \<Rightarrow> (nat \<times> DepodPolicy \<times> 'p Context) option" where
  "settle w policy ctx n =
     (let ctx1 = snd (reconcile_policy w policy ctx)
      in (case status_written w policy (client ctx) (sent ctx ctx1) of
            None \<Rightarrow> Some (Suc n, policy, ctx1)
          | Some st \<Rightarrow> settle w (policy\<lparr>policy_status := Some st\<rparr>) ctx1 (Suc n)))"

lemma status_written_patches:
  "filter is_status_patch rs = [] \<Longrightarrow> status_written w policy h rs = None"
  by (induction rs arbitrary: h) (auto split: Request.splits if_splits)

lemma status_written_one:
  "filter is_status_patch rs = [PatchPolicyStatus ns name st] \<Longrightarrow>
     status_written w policy h rs = Some st' \<Longrightarrow> st' = st"
proof (induction rs arbitrary: h)
  case (Cons r rs)
  then show ?case
    by (cases r) (auto simp: status_written_patches split: if_splits)
qed simp

text \<open>What one round of the loop writes.\<close>

lemma status_written_verdict:
  assumes "cache_coherent (cel w) (evaluator ctx)"
    and "status_written w policy (client ctx) (sent ctx (snd (reconcile_policy w policy ctx))) = Some st"
  obtains t where "conditions st = [verdict_condition (policy_verdict (cel w) policy) t]"
    and "unreported (policy_verdict (cel w) policy) (policy_status policy)"
proof -
  let ?rs = "sent ctx (snd (reconcile_policy w policy ctx))" and ?v = "policy_verdict (cel w) policy"
  obtain t where t: "filter is_status_patch ?rs = verdict_requests w policy ?v t"
    using status_patches [OF assms(1) prod.collapse [symmetric]] by blast
  show thesis
  proof (cases "unreported ?v (policy_status policy)")
    case True
    then have "st = default_status\<lparr>conditions := [verdict_condition ?v t]\<rparr>"
      using t status_written_one [OF _ assms(2)] by (simp add: verdict_requests_def)
    then show ?thesis using True that by simp
  next
    case False
    then have "filter is_status_patch ?rs = []" using t by (simp add: verdict_requests_def)
    then show ?thesis using assms(2) status_written_patches [of ?rs w] by simp
  qed
qed

lemma reconcile_policy_coherent:
  "cache_coherent (cel w) (evaluator ctx) \<Longrightarrow> cache_coherent (cel w) (evaluator (snd (reconcile_policy w policy ctx)))"
  by (rule reconcile_policy_effect [OF _ prod.collapse [symmetric]])

text \<open>
  C11. The loop in which the operator writes a policy's status and is called for that change
  again always ends, whatever the API server answers: after at most two reconciliations no
  status is written any more. If one was written, it is the verdict on the policy, and the
  policy's status reports it.
\<close>

theorem policy_settles:
  assumes "cache_coherent (cel w) (evaluator ctx)"
  shows "\<exists>rounds policy' ctx'. settle w policy ctx 0 = Some (rounds, policy', ctx') \<and> rounds \<le> 2
       \<and> policy_spec policy' = policy_spec policy
       \<and> (policy' = policy \<or> \<not> unreported (policy_verdict (cel w) policy) (policy_status policy'))"
proof (cases "status_written w policy (client ctx) (sent ctx (snd (reconcile_policy w policy ctx)))")
  case None
  then show ?thesis by (subst settle.simps) simp
next
  case (Some st)
  let ?ctx1 = "snd (reconcile_policy w policy ctx)" and ?p = "policy\<lparr>policy_status := Some st\<rparr>"
  obtain t where "conditions st = [verdict_condition (policy_verdict (cel w) policy) t]"
    using status_written_verdict [OF assms Some] .
  then have rep: "\<not> unreported (policy_verdict (cel w) policy) (policy_status ?p)"
    by (simp add: verdict_condition_reported)
  have spec: "policy_spec ?p = policy_spec policy" by simp
  have v: "policy_verdict (cel w) ?p = policy_verdict (cel w) policy"
    unfolding policy_verdict_def spec ..
  have "status_written w ?p (client ?ctx1) (sent ?ctx1 (snd (reconcile_policy w ?p ?ctx1))) = None"
    using status_written_verdict [OF reconcile_policy_coherent [OF assms], of ?p policy] rep v
    by (metis option.exhaust)
  then have "settle w ?p ?ctx1 (Suc 0) = Some (Suc (Suc 0), ?p, snd (reconcile_policy w ?p ?ctx1))"
    by (subst settle.simps) simp
  then show ?thesis using rep Some by (subst settle.simps) simp
qed

theorem policy_settles_witness:
  "\<exists>rounds policy' ctx'. settle sample_world (ttl_policy ''p'' 600) (sample_context []) 0
        = Some (rounds, policy', ctx') \<and> rounds \<le> 2 \<and> policy_spec policy' = policy_spec (ttl_policy ''p'' 600)"
  using policy_settles [OF sample_coherent [of "[]"], of "ttl_policy ''p'' 600"] by blast

end
