(* ===== verification/Json_Codec.thy ===== *)
theory Json_Codec
  imports Kube_Objects "HOL-Library.List_Lexorder" "HOL-Library.Char_ord" "HOL-Library.Monad_Syntax"
begin

text \<open>
  How serde reads and writes the types the resource of \<open>src/crd.rs\<close> is made of: strings, booleans,
  integers of a width, \<open>Option\<close>, \<open>Vec\<close>, \<open>BTreeSet\<close>, \<open>BTreeMap\<close>, enums without data
  and the members of a struct. A value that serde refuses is \<^term>\<open>None\<close>; which text the error
  has does not matter to the source. The locale \<open>json_codec\<close> states what a reader promises of
  what its writer wrote.
\<close>

section \<open>The contract of a codec\<close>

text \<open>\<open>fit\<close> are the values the Rust type has; the model's type may have more.\<close>

locale json_codec =
  fixes enc :: "'a \<Rightarrow> json"
    and dec :: "json \<Rightarrow> 'a option"
    and fit :: "'a \<Rightarrow> bool"
  assumes dec_enc: "fit x \<Longrightarrow> dec (enc x) = Some x"
    and dec_fit: "dec j = Some x \<Longrightarrow> fit x"
    and not_null: "dec JNull = None"

text \<open>\<open>Option\<close> and \<open>Vec\<close> over a codec.\<close>

fun enc_option :: "('a \<Rightarrow> json) \<Rightarrow> 'a option \<Rightarrow> json" where
  "enc_option enc None = JNull"
| "enc_option enc (Some x) = enc x"

definition dec_option :: "(json \<Rightarrow> 'a option) \<Rightarrow> json \<Rightarrow> 'a option option" where
  "dec_option dec j = (if j = JNull then Some None else map_option Some (dec j))"

definition enc_list :: "('a \<Rightarrow> json) \<Rightarrow> 'a list \<Rightarrow> json" where
  "enc_list enc xs = JArray (map enc xs)"

fun dec_list :: "(json \<Rightarrow> 'a option) \<Rightarrow> json \<Rightarrow> 'a list option" where
  "dec_list dec (JArray js) = those (map dec js)"
| "dec_list dec _ = None"

lemma those_map_Some: "(\<And>x. x \<in> set xs \<Longrightarrow> f x = Some (g x)) \<Longrightarrow> those (map f xs) = Some (map g xs)"
  by (induction xs) auto

lemma those_Some_set: "those xs = Some ys \<Longrightarrow> y \<in> set ys \<Longrightarrow> Some y \<in> set xs"
  by (induction xs arbitrary: ys) (auto split: option.splits)

lemma those_None: "those xs = None \<longleftrightarrow> None \<in> set xs"
  by (induction xs) (auto split: option.split)

context json_codec
begin

lemma enc_not_null: "fit x \<Longrightarrow> enc x \<noteq> JNull"
  using dec_enc not_null by force

lemma option_roundtrip: "\<forall>y \<in> set_option x. fit y \<Longrightarrow> dec_option dec (enc_option enc x) = Some x"
  by (cases x) (simp_all add: dec_option_def dec_enc enc_not_null)

lemma option_fit: "dec_option dec j = Some x \<Longrightarrow> \<forall>y \<in> set_option x. fit y"
  by (auto simp: dec_option_def dest: dec_fit split: if_splits)

lemma list_roundtrip: "\<forall>y \<in> set xs. fit y \<Longrightarrow> dec_list dec (enc_list enc xs) = Some xs"
  using those_map_Some [of xs "dec \<circ> enc" id] by (simp add: enc_list_def dec_enc)

lemma list_fit: "dec_list dec j = Some xs \<Longrightarrow> \<forall>y \<in> set xs. fit y"
  by (cases j) (auto dest!: those_Some_set intro: dec_fit [OF sym])

end

text \<open>The elements of a \<open>Vec\<close> stand or fall together.\<close>

lemma dec_list_None: "j \<in> set js \<Longrightarrow> dec j = None \<Longrightarrow> dec_list dec (JArray js) = None"
  by (force simp: those_None)

section \<open>Scalars\<close>

fun dec_string :: "json \<Rightarrow> string option" where
  "dec_string (JString s) = Some s"
| "dec_string _ = None"

fun dec_bool :: "json \<Rightarrow> bool option" where
  "dec_bool (JBool b) = Some b"
| "dec_bool _ = None"

text \<open>The integers; a number outside the type's range is refused.\<close>

definition enc_i64 :: "i64 \<Rightarrow> json" where
  "enc_i64 n = JNumber (sint n)"

fun dec_i64 :: "json \<Rightarrow> i64 option" where
  "dec_i64 (JNumber n) = (if - (2 ^ 63) \<le> n \<and> n < 2 ^ 63 then Some (word_of_int n) else None)"
| "dec_i64 _ = None"

definition enc_i32 :: "i32 \<Rightarrow> json" where
  "enc_i32 n = JNumber (sint n)"

fun dec_i32 :: "json \<Rightarrow> i32 option" where
  "dec_i32 (JNumber n) = (if - (2 ^ 31) \<le> n \<and> n < 2 ^ 31 then Some (word_of_int n) else None)"
| "dec_i32 _ = None"

definition enc_u64 :: "u64 \<Rightarrow> json" where
  "enc_u64 n = JNumber (uint n)"

fun dec_u64 :: "json \<Rightarrow> u64 option" where
  "dec_u64 (JNumber n) = (if 0 \<le> n \<and> n < 2 ^ 64 then Some (word_of_int n) else None)"
| "dec_u64 _ = None"

interpretation string_codec: json_codec JString dec_string "\<lambda>_. True"
  by unfold_locales simp_all

interpretation bool_codec: json_codec JBool dec_bool "\<lambda>_. True"
  by unfold_locales simp_all

interpretation i64_codec: json_codec enc_i64 dec_i64 "\<lambda>_. True"
proof
  show "dec_i64 (enc_i64 n) = Some n" for n
    using sint_greater_eq [of n] sint_less [of n] by (simp add: enc_i64_def)
qed simp_all

interpretation i32_codec: json_codec enc_i32 dec_i32 "\<lambda>_. True"
proof
  show "dec_i32 (enc_i32 n) = Some n" for n
    using sint_greater_eq [of n] sint_less [of n] by (simp add: enc_i32_def)
qed simp_all

interpretation u64_codec: json_codec enc_u64 dec_u64 "\<lambda>_. True"
proof
  show "dec_u64 (enc_u64 n) = Some n" for n
    using uint_lt2p [of n] by (simp add: enc_u64_def)
qed simp_all

section \<open>Sets and maps of strings\<close>

text \<open>A \<open>BTreeSet\<close> is written in the order of its elements and read from any sequence.\<close>

definition enc_string_set :: "string set \<Rightarrow> json" where
  "enc_string_set S = JArray (map JString (sorted_list_of_set S))"

definition dec_string_set :: "json \<Rightarrow> string set option" where
  "dec_string_set j = map_option set (dec_list dec_string j)"

interpretation string_set_codec: json_codec enc_string_set dec_string_set finite
proof
  show "dec_string_set (enc_string_set S) = Some S" if "finite S" for S
    using that string_codec.list_roundtrip [of "sorted_list_of_set S"]
    by (simp add: dec_string_set_def enc_string_set_def enc_list_def)
  show "finite S" if "dec_string_set j = Some S" for j S
    using that by (auto simp: dec_string_set_def)
qed (simp add: dec_string_set_def)

text \<open>
  A \<open>BTreeMap\<close> is the list of its entries in key order; reading inserts the members one by
  one, and a later member replaces an earlier one of the same key.
\<close>

fun btree_insert :: "string \<Rightarrow> 'v \<Rightarrow> (string \<times> 'v) list \<Rightarrow> (string \<times> 'v) list" where
  "btree_insert k v [] = [(k, v)]"
| "btree_insert k v ((k', v') # m) =
     (if k = k' then (k, v) # m
      else if k < k' then (k, v) # (k', v') # m
      else (k', v') # btree_insert k v m)"

definition btree_sorted :: "(string \<times> 'v) list \<Rightarrow> bool" where
  "btree_sorted m = sorted_wrt (<) (map fst m)"

definition enc_string_map :: "(string \<times> string) list \<Rightarrow> json" where
  "enc_string_map m = JObject (map (\<lambda>(k, v). (k, JString v)) m)"

fun insert_members :: "(string \<times> json) list \<Rightarrow> (string \<times> string) list \<Rightarrow> (string \<times> string) list option" where
  "insert_members [] m = Some m"
| "insert_members ((k, j) # members) m =
     (case dec_string j of None \<Rightarrow> None | Some v \<Rightarrow> insert_members members (btree_insert k v m))"

fun dec_string_map :: "json \<Rightarrow> (string \<times> string) list option" where
  "dec_string_map (JObject members) = insert_members members []"
| "dec_string_map _ = None"

lemma btree_sorted_Nil: "btree_sorted []"
  by (simp add: btree_sorted_def)

lemma fst_btree_insert: "fst ` set (btree_insert k v m) = insert k (fst ` set m)"
  by (induction k v m rule: btree_insert.induct) auto

lemma btree_sorted_insert: "btree_sorted m \<Longrightarrow> btree_sorted (btree_insert k v m)"
proof (induction k v m rule: btree_insert.induct)
  case (2 k v k' v' m)
  then show ?case
    by (auto simp: btree_sorted_def fst_btree_insert image_iff Ball_def dest: less_trans)
qed (simp add: btree_sorted_def)

lemma btree_insert_last: "\<forall>k' \<in> fst ` set m. k' < k \<Longrightarrow> btree_insert k v m = m @ [(k, v)]"
  by (induction m) auto

lemma map_of_btree_insert: "map_of (btree_insert k v m) = (map_of m)(k \<mapsto> v)"
  by (induction k v m rule: btree_insert.induct) auto

lemma insert_members_sorted: "btree_sorted m \<Longrightarrow> insert_members members m = Some m' \<Longrightarrow> btree_sorted m'"
  by (induction members m rule: insert_members.induct) (auto split: option.splits intro: btree_sorted_insert)

lemma insert_members_append:
  "btree_sorted (m @ m') \<Longrightarrow> insert_members (map (\<lambda>(k, v). (k, JString v)) m') m = Some (m @ m')"
proof (induction m' arbitrary: m)
  case (Cons kv m')
  obtain k v where kv: "kv = (k, v)" by (cases kv)
  have "\<forall>k' \<in> fst ` set m. k' < k"
    using Cons.prems by (auto simp: btree_sorted_def kv sorted_wrt_append)
  then have "btree_insert k v m = m @ [(k, v)]" by (rule btree_insert_last)
  then show ?case using Cons.IH [of "m @ [(k, v)]"] Cons.prems by (simp add: kv)
qed simp

interpretation string_map_codec: json_codec enc_string_map dec_string_map btree_sorted
proof
  show "dec_string_map (enc_string_map m) = Some m" if "btree_sorted m" for m
    using that insert_members_append [of "[]" m] by (simp add: enc_string_map_def)
  show "btree_sorted m" if "dec_string_map j = Some m" for j m
    using that by (cases j) (auto intro: insert_members_sorted [OF btree_sorted_Nil])
qed simp

text \<open>The map that was read is the map of the members, the last one of a key counting.\<close>

lemma insert_members_map:
  "insert_members members m = Some m' \<Longrightarrow>
     map_of m' k = (case map_of (rev members) k of None \<Rightarrow> map_of m k | Some j \<Rightarrow> dec_string j)"
  by (induction members m arbitrary: m' rule: insert_members.induct)
    (auto simp: map_add_def map_of_btree_insert split: option.splits if_splits)

section \<open>Enums and structs\<close>

text \<open>
  A variant without data is written as its name, and read from its name or from an object with
  its name and null.
\<close>

fun dec_variant :: "(string \<times> 'a) list \<Rightarrow> json \<Rightarrow> 'a option" where
  "dec_variant table (JString s) = map_of table s"
| "dec_variant table (JObject [(s, JNull)]) = map_of table s"
| "dec_variant table _ = None"

text \<open>
  The members of a struct, by name from an object or by position from an array. Members of
  other names are ignored, a name given twice is refused, and so is an array that is too long;
  a member that is not there is \<^term>\<open>None\<close>.
\<close>

fun struct_members :: "string list \<Rightarrow> json \<Rightarrow> json option list option" where
  "struct_members names (JObject members) =
     (if list_all (\<lambda>n. length (filter (\<lambda>m. fst m = n) members) \<le> 1) names
      then Some (map (map_of members) names) else None)"
| "struct_members names (JArray js) =
     (if length js \<le> length names
      then Some (map Some js @ replicate (length names - length js) None) else None)"
| "struct_members names _ = None"

text \<open>A member without and with \<open>#[serde(default)]\<close>.\<close>

definition required :: "(json \<Rightarrow> 'a option) \<Rightarrow> json option \<Rightarrow> 'a option" where
  "required dec m = (case m of None \<Rightarrow> None | Some j \<Rightarrow> dec j)"

definition defaulted :: "'a \<Rightarrow> (json \<Rightarrow> 'a option) \<Rightarrow> json option \<Rightarrow> 'a option" where
  "defaulted x dec m = (case m of None \<Rightarrow> Some x | Some j \<Rightarrow> dec j)"

lemma member_simps [simp]:
  "required dec None = None" "required dec (Some j) = dec j"
  "defaulted x dec None = Some x" "defaulted x dec (Some j) = dec j"
  by (simp_all add: required_def defaulted_def)

lemma length_struct_members: "struct_members names j = Some ms \<Longrightarrow> length ms = length names"
  by (cases j) (auto split: if_splits)

text \<open>Reading back the members that were written, in the order they were written.\<close>

lemma struct_members_written:
  assumes "distinct names" and "length js = length names"
  shows "struct_members names (JObject (zip names js)) = Some (map Some js)"
proof -
  have "length (filter (\<lambda>m. fst m = n) (zip names js)) \<le> 1" for n
    using assms(2,1)
  proof (induction rule: list_induct2 [of js names, consumes 1, case_names Nil Cons])
    case (Cons j js n' ns)
    have "filter (\<lambda>m. fst m = n') (zip ns js) = []" if "n = n'"
      using Cons.prems set_zip_leftD by (fastforce simp: filter_empty_conv)
    then show ?case using Cons by auto
  qed simp
  moreover have "map (map_of (zip names js)) names = map Some js"
    using assms by (auto intro!: nth_equalityI simp: map_of_zip_nth)
  ultimately show ?thesis by (simp add: list_all_iff)
qed

end
