(* ===== verification/Crd_Json.thy ===== *)
theory Crd_Json
  imports Crd Json_Codec
begin

text \<open>
  The JSON form of the resource of \<open>src/crd.rs\<close>, as the serde attributes of its types give it:
  the names of the members, which of them may be missing, and what stands in for them. The
  derives write the members in the order of the fields and an absent \<open>Option\<close> as null.
\<close>

section \<open>Writers and readers\<close>

definition condition_type_names :: "(string \<times> ConditionType) list" where
  "condition_type_names = [(''CEL'', CEL), (''Builtin'', Builtin)]"

fun enc_condition_type :: "ConditionType \<Rightarrow> json" where
  "enc_condition_type CEL = JString ''CEL''"
| "enc_condition_type Builtin = JString ''Builtin''"

definition action_type_names :: "(string \<times> ActionType) list" where
  "action_type_names = [(''Delete'', Delete), (''Evict'', Evict)]"

fun enc_action_type :: "ActionType \<Rightarrow> json" where
  "enc_action_type Delete = JString ''Delete''"
| "enc_action_type Evict = JString ''Evict''"

definition enc_namespace_selector :: "NamespaceSelector \<Rightarrow> json" where
  "enc_namespace_selector s = JObject (zip [''matchNames''] [enc_list JString (match_names s)])"

definition dec_namespace_selector :: "json \<Rightarrow> NamespaceSelector option" where
  "dec_namespace_selector j =
     (case struct_members [''matchNames''] j of
        Some [names] \<Rightarrow> do {
          names \<leftarrow> defaulted [] (dec_list dec_string) names;
          Some \<lparr>match_names = names\<rparr> }
      | _ \<Rightarrow> None)"

definition enc_pod_selector :: "PodSelector \<Rightarrow> json" where
  "enc_pod_selector s = JObject (zip [''matchLabels''] [enc_string_map (match_labels s)])"

definition dec_pod_selector :: "json \<Rightarrow> PodSelector option" where
  "dec_pod_selector j =
     (case struct_members [''matchLabels''] j of
        Some [labels] \<Rightarrow> do {
          labels \<leftarrow> defaulted [] dec_string_map labels;
          Some \<lparr>match_labels = labels\<rparr> }
      | _ \<Rightarrow> None)"

definition enc_match :: "Match \<Rightarrow> json" where
  "enc_match s = JObject (zip [''namespaceSelector'', ''podSelector'']
     [enc_option enc_namespace_selector (namespace_selector s), enc_option enc_pod_selector (pod_selector s)])"

definition dec_match :: "json \<Rightarrow> Match option" where
  "dec_match j =
     (case struct_members [''namespaceSelector'', ''podSelector''] j of
        Some [ns, pods] \<Rightarrow> do {
          ns \<leftarrow> defaulted None (dec_option dec_namespace_selector) ns;
          pods \<leftarrow> defaulted None (dec_option dec_pod_selector) pods;
          Some \<lparr>namespace_selector = ns, pod_selector = pods\<rparr> }
      | _ \<Rightarrow> None)"

definition enc_trigger :: "Trigger \<Rightarrow> json" where
  "enc_trigger s = JObject (zip [''annotationKey'', ''annotationValues'']
     [JString (annotation_key s), enc_string_set (annotation_values s)])"

definition dec_trigger :: "json \<Rightarrow> Trigger option" where
  "dec_trigger j =
     (case struct_members [''annotationKey'', ''annotationValues''] j of
        Some [key, values] \<Rightarrow> do {
          key \<leftarrow> required dec_string key;
          values \<leftarrow> required dec_string_set values;
          Some \<lparr>annotation_key = key, annotation_values = values\<rparr> }
      | _ \<Rightarrow> None)"

definition enc_when :: "When \<Rightarrow> json" where
  "enc_when s = JObject (zip [''type'', ''expression'', ''ttlSeconds'']
     [enc_condition_type (condition_type s), enc_option JString (expression s),
      enc_option enc_i64 (ttl_seconds s)])"

definition dec_when :: "json \<Rightarrow> When option" where
  "dec_when j =
     (case struct_members [''type'', ''expression'', ''ttlSeconds''] j of
        Some [ty, expr, ttl] \<Rightarrow> do {
          ty \<leftarrow> required (dec_variant condition_type_names) ty;
          expr \<leftarrow> defaulted None (dec_option dec_string) expr;
          ttl \<leftarrow> defaulted None (dec_option dec_i64) ttl;
          Some \<lparr>condition_type = ty, expression = expr, ttl_seconds = ttl\<rparr> }
      | _ \<Rightarrow> None)"

definition enc_then :: "Then \<Rightarrow> json" where
  "enc_then s = JObject (zip [''type'', ''gracePeriodSeconds'', ''dryRun'']
     [enc_action_type (action_type s), enc_option enc_i64 (grace_period_seconds s), JBool (dry_run s)])"

definition dec_then :: "json \<Rightarrow> Then option" where
  "dec_then j =
     (case struct_members [''type'', ''gracePeriodSeconds'', ''dryRun''] j of
        Some [ty, grace, dry] \<Rightarrow> do {
          ty \<leftarrow> required (dec_variant action_type_names) ty;
          grace \<leftarrow> defaulted None (dec_option dec_i64) grace;
          dry \<leftarrow> defaulted False dec_bool dry;
          Some \<lparr>action_type = ty, grace_period_seconds = grace, dry_run = dry\<rparr> }
      | _ \<Rightarrow> None)"

definition enc_limits :: "Limits \<Rightarrow> json" where
  "enc_limits s = JObject (zip [''maxDeletesPerMinute'', ''protectSystemNamespaces'', ''excludedNamespaces'']
     [enc_option enc_i32 (max_deletes_per_minute s), JBool (protect_system_namespaces s),
      enc_option (enc_list JString) (excluded_namespaces s)])"

definition dec_limits :: "json \<Rightarrow> Limits option" where
  "dec_limits j =
     (case struct_members [''maxDeletesPerMinute'', ''protectSystemNamespaces'', ''excludedNamespaces''] j of
        Some [limit, protect, excluded] \<Rightarrow> do {
          limit \<leftarrow> defaulted None (dec_option dec_i32) limit;
          protect \<leftarrow> defaulted False dec_bool protect;
          excluded \<leftarrow> defaulted None (dec_option (dec_list dec_string)) excluded;
          Some \<lparr>max_deletes_per_minute = limit, protect_system_namespaces = protect,
                excluded_namespaces = excluded\<rparr> }
      | _ \<Rightarrow> None)"

definition enc_spec :: "DepodPolicySpec \<Rightarrow> json" where
  "enc_spec s = JObject (zip [''match'', ''trigger'', ''when'', ''then'', ''limits'']
     [enc_match (spec_match s), enc_trigger (spec_trigger s), enc_when (spec_when s),
      enc_then (spec_then s), enc_limits (spec_limits s)])"

definition dec_spec :: "json \<Rightarrow> DepodPolicySpec option" where
  "dec_spec j =
     (case struct_members [''match'', ''trigger'', ''when'', ''then'', ''limits''] j of
        Some [m, t, w, th, l] \<Rightarrow> do {
          m \<leftarrow> required dec_match m;
          t \<leftarrow> required dec_trigger t;
          w \<leftarrow> required dec_when w;
          th \<leftarrow> required dec_then th;
          l \<leftarrow> required dec_limits l;
          Some \<lparr>spec_match = m, spec_trigger = t, spec_when = w, spec_then = th, spec_limits = l\<rparr> }
      | _ \<Rightarrow> None)"

definition enc_condition :: "PolicyCondition \<Rightarrow> json" where
  "enc_condition c = JObject (zip [''type'', ''status'', ''lastTransitionTime'', ''reason'', ''message'']
     [JString (cond_condition_type c), JString (cond_status c),
      enc_option JString (cond_last_transition_time c), enc_option JString (cond_reason c),
      enc_option JString (cond_message c)])"

definition dec_condition :: "json \<Rightarrow> PolicyCondition option" where
  "dec_condition j =
     (case struct_members [''type'', ''status'', ''lastTransitionTime'', ''reason'', ''message''] j of
        Some [ty, st, time, reason, message] \<Rightarrow> do {
          ty \<leftarrow> required dec_string ty;
          st \<leftarrow> required dec_string st;
          time \<leftarrow> defaulted None (dec_option dec_string) time;
          reason \<leftarrow> defaulted None (dec_option dec_string) reason;
          message \<leftarrow> defaulted None (dec_option dec_string) message;
          Some \<lparr>cond_condition_type = ty, cond_status = st, cond_last_transition_time = time,
                cond_reason = reason, cond_message = message\<rparr> }
      | _ \<Rightarrow> None)"

definition enc_status :: "DepodPolicyStatus \<Rightarrow> json" where
  "enc_status st = JObject (zip
     [''conditions'', ''lastObservedTime'', ''pods_evaluated'', ''pods_matched'', ''pods_deleted'',
      ''evaluation_errors'']
     [enc_list enc_condition (conditions st), enc_option JString (last_observed_time st),
      enc_u64 (pods_evaluated st), enc_u64 (pods_matched st), enc_u64 (pods_deleted st),
      enc_u64 (evaluation_errors st)])"

definition dec_status :: "json \<Rightarrow> DepodPolicyStatus option" where
  "dec_status j =
     (case struct_members [''conditions'', ''lastObservedTime'', ''pods_evaluated'', ''pods_matched'',
             ''pods_deleted'', ''evaluation_errors''] j of
        Some [cs, time, ev, ma, de, er] \<Rightarrow> do {
          cs \<leftarrow> defaulted [] (dec_list dec_condition) cs;
          time \<leftarrow> defaulted None (dec_option dec_string) time;
          ev \<leftarrow> defaulted 0 dec_u64 ev;
          ma \<leftarrow> defaulted 0 dec_u64 ma;
          de \<leftarrow> defaulted 0 dec_u64 de;
          er \<leftarrow> defaulted 0 dec_u64 er;
          Some \<lparr>conditions = cs, last_observed_time = time, pods_evaluated = ev, pods_matched = ma,
                pods_deleted = de, evaluation_errors = er\<rparr> }
      | _ \<Rightarrow> None)"

section \<open>The codecs keep their contract\<close>

text \<open>The values the Rust types have: finite sets, and maps in key order.\<close>

definition fit_match :: "Match \<Rightarrow> bool" where
  "fit_match m \<longleftrightarrow> (\<forall>s. pod_selector m = Some s \<longrightarrow> btree_sorted (match_labels s))"

definition fit_spec :: "DepodPolicySpec \<Rightarrow> bool" where
  "fit_spec s \<longleftrightarrow> fit_match (spec_match s) \<and> finite (annotation_values (spec_trigger s))"

interpretation condition_type_codec:
  json_codec enc_condition_type "dec_variant condition_type_names" "\<lambda>_. True"
proof
  show "dec_variant condition_type_names (enc_condition_type c) = Some c" for c
    by (cases c) (simp_all add: condition_type_names_def)
qed simp_all

interpretation action_type_codec: json_codec enc_action_type "dec_variant action_type_names" "\<lambda>_. True"
proof
  show "dec_variant action_type_names (enc_action_type c) = Some c" for c
    by (cases c) (simp_all add: action_type_names_def)
qed simp_all

lemmas scalar_roundtrips =
  string_codec.dec_enc [OF TrueI] bool_codec.dec_enc [OF TrueI] i64_codec.dec_enc [OF TrueI]
  i32_codec.dec_enc [OF TrueI] u64_codec.dec_enc [OF TrueI]
  condition_type_codec.dec_enc [OF TrueI] action_type_codec.dec_enc [OF TrueI]

lemmas lifted_roundtrips =
  string_codec.option_roundtrip i64_codec.option_roundtrip i32_codec.option_roundtrip
  string_codec.list_roundtrip string_set_codec.dec_enc string_map_codec.dec_enc

interpretation namespace_selector_codec:
  json_codec enc_namespace_selector dec_namespace_selector "\<lambda>_. True"
proof
  show "dec_namespace_selector (enc_namespace_selector s) = Some s" for s
    unfolding dec_namespace_selector_def enc_namespace_selector_def
    by (simp add: struct_members_written lifted_roundtrips del: zip_Cons_Cons struct_members.simps)
qed (simp_all add: dec_namespace_selector_def)

interpretation pod_selector_codec:
  json_codec enc_pod_selector dec_pod_selector "\<lambda>s. btree_sorted (match_labels s)"
proof
  show "dec_pod_selector (enc_pod_selector s) = Some s" if "btree_sorted (match_labels s)" for s
    unfolding dec_pod_selector_def enc_pod_selector_def using that
    by (simp add: struct_members_written lifted_roundtrips del: zip_Cons_Cons struct_members.simps)
  show "btree_sorted (match_labels s)" if "dec_pod_selector j = Some s" for j s
    using that string_map_codec.dec_fit btree_sorted_Nil
    by (auto simp: dec_pod_selector_def defaulted_def simp: bind_eq_Some_conv split: option.splits list.splits)
qed (simp add: dec_pod_selector_def)

interpretation match_codec: json_codec enc_match dec_match fit_match
proof
  show "dec_match (enc_match s) = Some s" if "fit_match s" for s
    unfolding dec_match_def enc_match_def using that
    by (simp add: struct_members_written namespace_selector_codec.option_roundtrip
        pod_selector_codec.option_roundtrip fit_match_def del: zip_Cons_Cons struct_members.simps)
  show "fit_match s" if "dec_match j = Some s" for j s
    using that
    by (auto simp: dec_match_def defaulted_def fit_match_def dest: pod_selector_codec.option_fit
        simp: bind_eq_Some_conv split: option.splits list.splits)
qed (simp add: dec_match_def)

interpretation trigger_codec: json_codec enc_trigger dec_trigger "\<lambda>s. finite (annotation_values s)"
proof
  show "dec_trigger (enc_trigger s) = Some s" if "finite (annotation_values s)" for s
    unfolding dec_trigger_def enc_trigger_def using that
    by (simp add: struct_members_written lifted_roundtrips del: zip_Cons_Cons struct_members.simps)
  show "finite (annotation_values s)" if "dec_trigger j = Some s" for j s
    using that
    by (auto simp: dec_trigger_def required_def dest: string_set_codec.dec_fit
        simp: bind_eq_Some_conv split: option.splits list.splits)
qed (simp add: dec_trigger_def)

interpretation when_codec: json_codec enc_when dec_when "\<lambda>_. True"
proof
  show "dec_when (enc_when s) = Some s" for s
    unfolding dec_when_def enc_when_def
    by (simp add: struct_members_written lifted_roundtrips scalar_roundtrips
        del: zip_Cons_Cons struct_members.simps)
qed (simp_all add: dec_when_def)

interpretation then_codec: json_codec enc_then dec_then "\<lambda>_. True"
proof
  show "dec_then (enc_then s) = Some s" for s
    unfolding dec_then_def enc_then_def
    by (simp add: struct_members_written lifted_roundtrips scalar_roundtrips
        del: zip_Cons_Cons struct_members.simps)
qed (simp_all add: dec_then_def)

interpretation string_list_codec: json_codec "enc_list JString" "dec_list dec_string" "\<lambda>_. True"
  by unfold_locales (simp_all add: lifted_roundtrips)

interpretation limits_codec: json_codec enc_limits dec_limits "\<lambda>_. True"
proof
  show "dec_limits (enc_limits s) = Some s" for s
    unfolding dec_limits_def enc_limits_def
    by (simp add: struct_members_written lifted_roundtrips scalar_roundtrips
        string_list_codec.option_roundtrip del: zip_Cons_Cons struct_members.simps)
qed (simp_all add: dec_limits_def)

interpretation spec_codec: json_codec enc_spec dec_spec fit_spec
proof
  show "dec_spec (enc_spec s) = Some s" if "fit_spec s" for s
    unfolding dec_spec_def enc_spec_def using that
    by (simp add: struct_members_written match_codec.dec_enc trigger_codec.dec_enc
        when_codec.dec_enc then_codec.dec_enc limits_codec.dec_enc fit_spec_def
        del: zip_Cons_Cons struct_members.simps)
  show "fit_spec s" if "dec_spec j = Some s" for j s
    using that
    by (auto simp: dec_spec_def required_def fit_spec_def dest: match_codec.dec_fit trigger_codec.dec_fit
        simp: bind_eq_Some_conv split: option.splits list.splits)
qed (simp add: dec_spec_def)

interpretation condition_codec: json_codec enc_condition dec_condition "\<lambda>_. True"
proof
  show "dec_condition (enc_condition s) = Some s" for s
    unfolding dec_condition_def enc_condition_def
    by (simp add: struct_members_written lifted_roundtrips del: zip_Cons_Cons struct_members.simps)
qed (simp_all add: dec_condition_def)

interpretation status_codec: json_codec enc_status dec_status "\<lambda>_. True"
proof
  show "dec_status (enc_status s) = Some s" for s
    unfolding dec_status_def enc_status_def
    by (simp add: struct_members_written lifted_roundtrips scalar_roundtrips condition_codec.list_roundtrip
        del: zip_Cons_Cons struct_members.simps)
qed (simp_all add: dec_status_def)

text \<open>The body of the patch that writes a status, \<open>json!({"status": status})\<close>.\<close>

definition status_patch_body :: "DepodPolicyStatus \<Rightarrow> json" where
  "status_patch_body status = JObject [(''status'', enc_status status)]"

section \<open>Properties\<close>

text \<open>
  C23. A resource that was written as JSON is read back as it was: its spec, with the annotation
  values and the labels in whatever order they were given, and the status that a status patch
  carries, counters and absent members included.
\<close>

theorem resource_json_roundtrip:
  assumes "finite (annotation_values (spec_trigger spec))"
    and "\<forall>s. pod_selector (spec_match spec) = Some s \<longrightarrow> sorted_wrt (<) (map fst (match_labels s))"
  shows "dec_spec (enc_spec spec) = Some spec
       \<and> (\<exists>j. status_patch_body status = JObject [(''status'', j)] \<and> dec_status j = Some status)"
  using assms spec_codec.dec_enc [of spec] status_codec.dec_enc [of status]
  by (simp add: status_patch_body_def fit_spec_def fit_match_def btree_sorted_def)

theorem resource_json_roundtrip_witness:
  "dec_spec (enc_spec (policy_spec (ttl_policy ''p'' 600))) = Some (policy_spec (ttl_policy ''p'' 600))"
  using resource_json_roundtrip [of "policy_spec (ttl_policy ''p'' 600)" default_status]
  by (simp add: ttl_policy_def no_match_def)

text \<open>
  Whatever document is accepted, the spec read from it has the shape of its Rust types: the
  labels are in strict key order, so no key comes twice, the annotation values are finitely
  many, and writing it and reading it again changes nothing. So the label selector the operator
  asks the API server with does not depend on the order in which the document lists the labels.
\<close>

theorem decoded_spec_well_typed:
  assumes "dec_spec j = Some spec"
  shows "finite (annotation_values (spec_trigger spec))
       \<and> (\<forall>s. pod_selector (spec_match spec) = Some s \<longrightarrow> sorted_wrt (<) (map fst (match_labels s)))
       \<and> dec_spec (enc_spec spec) = Some spec"
  using spec_codec.dec_fit [OF assms] spec_codec.dec_enc [of spec]
  by (simp add: fit_spec_def fit_match_def btree_sorted_def)

text \<open>A document with unsorted labels, a label given twice and a member nobody knows.\<close>

definition sample_document :: json where
  "sample_document = JObject
     [(''then'', JObject [(''type'', JString ''Evict'')]), (''note'', JNull),
      (''match'', JObject [(''podSelector'', JObject [(''matchLabels'', JObject
         [(''tier'', JString ''b''), (''app'', JString ''x''), (''tier'', JString ''c'')])])]),
      (''trigger'', JObject [(''annotationKey'', JString ''k''),
         (''annotationValues'', JArray [JString ''on'', JString ''on''])]),
      (''when'', JObject [(''type'', JString ''Builtin''), (''ttlSeconds'', JNumber 60)]),
      (''limits'', JObject [])]"

definition sample_spec :: DepodPolicySpec where
  "sample_spec =
     \<lparr>spec_match = \<lparr>namespace_selector = None,
        pod_selector = Some \<lparr>match_labels = [(''app'', ''x''), (''tier'', ''c'')]\<rparr>\<rparr>,
      spec_trigger = \<lparr>annotation_key = ''k'', annotation_values = {''on''}\<rparr>,
      spec_when = \<lparr>condition_type = Builtin, expression = None, ttl_seconds = Some 60\<rparr>,
      spec_then = \<lparr>action_type = Evict, grace_period_seconds = None, dry_run = False\<rparr>,
      spec_limits = \<lparr>max_deletes_per_minute = None, protect_system_namespaces = False,
        excluded_namespaces = None\<rparr>\<rparr>"

lemma sample_document_spec: "dec_spec sample_document = Some sample_spec"
  by code_simp

theorem decoded_spec_well_typed_witness: "dec_spec (enc_spec sample_spec) = Some sample_spec"
  using decoded_spec_well_typed [OF sample_document_spec] by simp

text \<open>
  One document the types refuse hides all others of its list. The schema of the resource
  only asks for an integer in \<open>maxDeletesPerMinute\<close>; one that does not fit 32 bits makes the
  whole list of policies unreadable, however good the others are.
\<close>

theorem oversized_limit_blocks_list:
  assumes "JObject members \<in> set items" and "map_of members ''limits'' = Some (JObject limits)"
    and "map_of limits ''maxDeletesPerMinute'' = Some (JNumber n)" and "n < - (2 ^ 31) \<or> 2 ^ 31 \<le> n"
  shows "dec_list dec_spec (JArray items) = None"
proof -
  have "dec_limits (JObject limits) = None"
    using assms(3,4) by (auto simp: dec_limits_def dec_option_def)
  then have "dec_spec (JObject members) = None"
    using assms(2) by (auto simp: dec_spec_def bind_eq_None_conv)
  then show ?thesis using assms(1) by (rule dec_list_None [rotated])
qed

theorem oversized_limit_blocks_list_witness:
  "dec_list dec_spec (JArray [enc_spec sample_spec, JObject [(''limits'', JObject [(''maxDeletesPerMinute'', JNumber 3000000000)])]])
     = None"
  by (rule oversized_limit_blocks_list [of "[(''limits'', JObject [(''maxDeletesPerMinute'', JNumber 3000000000)])]" _
        "[(''maxDeletesPerMinute'', JNumber 3000000000)]" 3000000000]) simp_all

end
