(* ===== verification/Policy_Documents.thy ===== *)
theory Policy_Documents
  imports Crd_Json Pod_Safety
begin

text \<open>
  From the JSON form of a policy to what the operator does with it: which namespaces a policy
  protects whose document leaves the protection out.
\<close>

text \<open>A policy with the spec that a document gives.\<close>

definition policy_from :: "string \<Rightarrow> string option \<Rightarrow> json \<Rightarrow> DepodPolicy option" where
  "policy_from name ns j =
     map_option (\<lambda>spec. \<lparr>policy_name_any = name, policy_namespace = ns, policy_spec = spec,
       policy_status = None\<rparr>) (dec_spec j)"

lemma dec_limits_omitted:
  assumes "dec_limits (JObject limits) = Some l"
    and "map_of limits ''protectSystemNamespaces'' = None" and "map_of limits ''excludedNamespaces'' = None"
  shows "\<not> protect_system_namespaces l \<and> excluded_namespaces l = None"
  using assms by (auto simp: dec_limits_def bind_eq_Some_conv split: if_splits)

text \<open>
  A document without \<open>protectSystemNamespaces\<close> and \<open>excludedNamespaces\<close> gives a policy that
  protects no namespace at all, \<open>kube-system\<close> included: the default of the flag is false.
\<close>

theorem omitted_protection_protects_nothing:
  assumes "policy_from name ns (JObject members) = Some policy"
    and "map_of members ''limits'' = Some (JObject limits)"
    and "''protectSystemNamespaces'' \<notin> fst ` set limits" and "''excludedNamespaces'' \<notin> fst ` set limits"
  shows "\<not> protected_by pod policy"
proof -
  obtain l where l: "dec_limits (JObject limits) = Some l" and "spec_limits (policy_spec policy) = l"
    using assms(1,2) by (auto simp: policy_from_def dec_spec_def bind_eq_Some_conv split: if_splits)
  then show ?thesis
    using dec_limits_omitted [OF l] assms(3,4)
    by (simp add: protected_by_def is_namespace_protected_iff map_of_eq_None_iff)
qed

theorem omitted_protection_protects_nothing_witness:
  "\<exists>policy. policy_from ''p'' None sample_document = Some policy
     \<and> \<not> protected_by (bare_pod ''kube-system'' ''dns'' 0) policy"
proof -
  obtain policy where p: "policy_from ''p'' None sample_document = Some policy"
    by (simp add: policy_from_def sample_document_spec)
  have "\<not> protected_by (bare_pod ''kube-system'' ''dns'' 0) policy"
    using p [unfolded sample_document_def]
    by (rule omitted_protection_protects_nothing [where limits = "[]"]) simp_all
  then show ?thesis using p by blast
qed

end
