(* ===== verification/Bucket_Concurrency.thy ===== *)
theory Bucket_Concurrency
  imports Token_Bucket
begin

text \<open>
  \<open>TokenBucket::allow\<close> of \<open>src/rate_limiter.rs\<close> as several threads run it: every load,
  store and compare-and-exchange on the two atomics is a step of its own, and the steps of the
  calls interleave. Call \<open>i\<close> reads the second \<open>clk i\<close>. The weak compare-and-exchange may
  fail although the cell holds the expected value. The steps are sequentially consistent; the
  source's relaxed orderings allow more behaviours across the two cells, none on one cell.
\<close>

section \<open>Calls and their steps\<close>

text \<open>Where a call is: the pending action and the local variables it needs.\<close>

datatype pc =
    AtStart
  | LoadReset u64
  | StoreReset u64
  | StoreTokens
  | LoadTokens
  | TryTake u64
  | Done bool

record bucket_sys =
  bucket :: TokenBucket
  pcs :: "nat \<Rightarrow> pc"
  granted :: nat
  refills :: nat

definition calls_start :: "TokenBucket \<Rightarrow> bucket_sys" where
  "calls_start b = \<lparr>bucket = b, pcs = (\<lambda>_. AtStart), granted = 0, refills = 0\<rparr>"

text \<open>
  \<open>granted\<close> and \<open>refills\<close> only count. The last rule is a failed exchange, which
  reloads the cell; it needs no mismatch, because the weak exchange may fail spuriously.
\<close>

inductive bucket_step :: "(nat \<Rightarrow> u64) \<Rightarrow> nat \<Rightarrow> bucket_sys \<Rightarrow> bucket_sys \<Rightarrow> bool"
  for clk :: "nat \<Rightarrow> u64" and i :: nat where
  read_clock:
    "pcs s i = AtStart \<Longrightarrow> bucket_step clk i s (s\<lparr>pcs := (pcs s)(i := LoadReset (clk i))\<rparr>)"
| reset_recent:
    "pcs s i = LoadReset now \<Longrightarrow> \<not> 60 \<le> saturating_sub now (last_reset (bucket s)) \<Longrightarrow>
     bucket_step clk i s (s\<lparr>pcs := (pcs s)(i := LoadTokens)\<rparr>)"
| reset_due:
    "pcs s i = LoadReset now \<Longrightarrow> 60 \<le> saturating_sub now (last_reset (bucket s)) \<Longrightarrow>
     bucket_step clk i s (s\<lparr>pcs := (pcs s)(i := StoreReset now)\<rparr>)"
| store_reset:
    "pcs s i = StoreReset now \<Longrightarrow>
     bucket_step clk i s
       (s\<lparr>bucket := (bucket s)\<lparr>last_reset := now\<rparr>, pcs := (pcs s)(i := StoreTokens)\<rparr>)"
| store_tokens:
    "pcs s i = StoreTokens \<Longrightarrow>
     bucket_step clk i s
       (s\<lparr>bucket := (bucket s)\<lparr>tokens := max_per_minute (bucket s)\<rparr>,
          pcs := (pcs s)(i := LoadTokens), refills := Suc (refills s)\<rparr>)"
| load_tokens:
    "pcs s i = LoadTokens \<Longrightarrow>
     bucket_step clk i s (s\<lparr>pcs := (pcs s)(i := TryTake (tokens (bucket s)))\<rparr>)"
| none_left:
    "pcs s i = TryTake 0 \<Longrightarrow> bucket_step clk i s (s\<lparr>pcs := (pcs s)(i := Done False)\<rparr>)"
| exchange:
    "pcs s i = TryTake k \<Longrightarrow> 0 < k \<Longrightarrow> tokens (bucket s) = k \<Longrightarrow>
     bucket_step clk i s
       (s\<lparr>bucket := (bucket s)\<lparr>tokens := k - 1\<rparr>, pcs := (pcs s)(i := Done True),
          granted := Suc (granted s)\<rparr>)"
| exchange_failed:
    "pcs s i = TryTake k \<Longrightarrow> 0 < k \<Longrightarrow>
     bucket_step clk i s (s\<lparr>pcs := (pcs s)(i := TryTake (tokens (bucket s)))\<rparr>)"

definition any_step :: "(nat \<Rightarrow> u64) \<Rightarrow> bucket_sys \<Rightarrow> bucket_sys \<Rightarrow> bool" where
  "any_step clk s t \<longleftrightarrow> (\<exists>i. bucket_step clk i s t)"

inductive_cases bucket_stepE [consumes 1]: "bucket_step clk i s t"

section \<open>No token is taken twice\<close>

text \<open>
  Each granted call took a token that was there at the start or that one of the refills put
  there.
\<close>

definition conserved :: "TokenBucket \<Rightarrow> bucket_sys \<Rightarrow> bool" where
  "conserved b s \<longleftrightarrow>
     max_per_minute (bucket s) = max_per_minute b
   \<and> granted s + unat (tokens (bucket s))
       \<le> unat (tokens b) + refills s * unat (max_per_minute b)"

lemma conserved_step: "bucket_step clk i s t \<Longrightarrow> conserved b s \<Longrightarrow> conserved b t"
proof (induction rule: bucket_step.cases)
  case (exchange s k)
  then have "0 < unat (tokens (bucket s))" by (simp add: unat_gt_0 word_gt_0)
  with exchange show ?case
    by (auto simp: conserved_def unat_minus_one word_gt_0)
qed (auto simp: conserved_def)

interpretation token_count: invariant_system "\<lambda>s. s = calls_start b" "any_step clk" "conserved b"
  for b :: TokenBucket and clk :: "nat \<Rightarrow> u64"
  by unfold_locales
    (simp add: conserved_def calls_start_def, auto simp: any_step_def intro: conserved_step)

text \<open>
  However the steps of concurrent calls interleave and whichever exchanges fail, the
  calls granted are at most the tokens at the start and \<open>max_per_minute\<close> for each refill
  performed; without a refill the bucket never grants a token it did not have.
\<close>

theorem concurrent_grants_bounded:
  assumes "reach (\<lambda>s. s = calls_start b) (any_step clk) s"
  shows "granted s \<le> unat (tokens b) + refills s * unat (max_per_minute b)"
  using token_count.reach_inv [OF assms] by (simp add: conserved_def)

theorem concurrent_grants_bounded_witness:
  "granted (calls_start (new_bucket_at 0 5)) \<le> unat (5 :: u64) + 0 * unat (5 :: u64)"
  using concurrent_grants_bounded [OF reach_start, of "new_bucket_at 0 5"]
  by (simp add: calls_start_def new_bucket_at_def)

section \<open>A call that runs alone is the sequential function\<close>

text \<open>What a call knows at each of its program points, when nothing else touches the bucket.\<close>

fun alone :: "u64 \<Rightarrow> TokenBucket \<Rightarrow> pc \<Rightarrow> TokenBucket \<Rightarrow> bool" where
  "alone now b AtStart b' \<longleftrightarrow> b' = b"
| "alone now b (LoadReset n) b' \<longleftrightarrow> n = now \<and> b' = b"
| "alone now b (StoreReset n) b' \<longleftrightarrow>
     n = now \<and> b' = b \<and> 60 \<le> saturating_sub now (last_reset b)"
| "alone now b StoreTokens b' \<longleftrightarrow>
     b' = b\<lparr>last_reset := now\<rparr> \<and> 60 \<le> saturating_sub now (last_reset b)"
| "alone now b LoadTokens b' \<longleftrightarrow> b' = refill_at now b"
| "alone now b (TryTake k) b' \<longleftrightarrow> b' = refill_at now b \<and> k = tokens b'"
| "alone now b (Done g) b' \<longleftrightarrow> (g, b') = allow_at now b"

lemma alone_step:
  "bucket_step clk i s t \<Longrightarrow> alone (clk i) b (pcs s i) (bucket s) \<Longrightarrow>
     alone (clk i) b (pcs t i) (bucket t)"
  by (erule bucket_stepE) (auto simp: refill_at_def allow_at_def take_token_def)

interpretation solo: invariant_system "\<lambda>s. s = calls_start b" "bucket_step clk i"
    "\<lambda>s. alone (clk i) b (pcs s i) (bucket s)"
  for b :: TokenBucket and clk :: "nat \<Rightarrow> u64" and i :: nat
  by unfold_locales (simp add: calls_start_def, rule alone_step)

text \<open>
  A call whose steps are not interleaved with another's computes the sequential
  \<open>allow_at\<close>: if it has returned, its answer and the bucket it leaves are those of
  \<open>allow_at\<close>, however often the weak exchange failed on the way; and from the start there
  is an execution in which it does return.
\<close>

theorem solo_call_is_allow_at:
  "(\<forall>s g. reach (\<lambda>s. s = calls_start b) (bucket_step clk i) s \<and> pcs s i = Done g
       \<longrightarrow> (g, bucket s) = allow_at (clk i) b)
   \<and> (\<exists>s g. reach (\<lambda>s. s = calls_start b) (bucket_step clk i) s \<and> pcs s i = Done g)"
proof (intro conjI)
  show "\<forall>s g. reach (\<lambda>s. s = calls_start b) (bucket_step clk i) s \<and> pcs s i = Done g
       \<longrightarrow> (g, bucket s) = allow_at (clk i) b"
    using solo.reach_inv [of b clk i] by fastforce
next
  let ?R = "reach (\<lambda>s. s = calls_start b) (bucket_step clk i)"
  have step: "?R t" if "?R s" and "bucket_step clk i s t" for s t
    using that by (rule reach_step)
  have "pcs (calls_start b) i = AtStart" by (simp add: calls_start_def)
  then have "\<exists>s. ?R s \<and> pcs s i = LoadReset (clk i)"
    using step [OF reach_start read_clock] by fastforce
  then have "\<exists>s. ?R s \<and> (pcs s i = LoadTokens \<or> (\<exists>n. pcs s i = StoreReset n))"
    using step [OF _ reset_recent] step [OF _ reset_due] by fastforce
  then have "\<exists>s. ?R s \<and> (pcs s i = LoadTokens \<or> pcs s i = StoreTokens)"
    using step [OF _ store_reset] by fastforce
  then have "\<exists>s. ?R s \<and> pcs s i = LoadTokens"
    using step [OF _ store_tokens] by fastforce
  then obtain s where s: "?R s" "pcs s i = LoadTokens" by blast
  define t where "t = s\<lparr>pcs := (pcs s)(i := TryTake (tokens (bucket s)))\<rparr>"
  have t: "?R t" "pcs t i = TryTake (tokens (bucket t))"
    using step [OF s(1) load_tokens [OF s(2)]] by (simp_all add: t_def)
  show "\<exists>s g. ?R s \<and> pcs s i = Done g"
  proof (cases "tokens (bucket t) = 0")
    case True
    then show ?thesis using step [OF t(1) none_left] t by fastforce
  next
    case False
    then show ?thesis using step [OF t(1) exchange [OF t(2)]] by (fastforce simp: word_gt_0)
  qed
qed

theorem solo_call_is_allow_at_witness:
  "\<exists>s :: bucket_sys. pcs s 0 = Done True
     \<and> (True, bucket s) = allow_at 60 (new_bucket_at 0 1)"
proof -
  obtain s g where s: "reach (\<lambda>s. s = calls_start (new_bucket_at 0 1)) (bucket_step (\<lambda>_. 60) 0) s"
      "pcs s 0 = Done g"
    using solo_call_is_allow_at [of "new_bucket_at 0 1" "\<lambda>_. 60" 0] by blast
  then have r: "(g, bucket s) = allow_at 60 (new_bucket_at 0 1)"
    using solo_call_is_allow_at [of "new_bucket_at 0 1" "\<lambda>_. 60" 0] by blast
  then have "g = fst (allow_at 60 (new_bucket_at 0 1))" by (metis fst_conv)
  then have g by (simp add: allow_at_new_window new_bucket_at_def take_token_def)
  then show ?thesis using s(2) r by auto
qed

section \<open>The refill races\<close>

text \<open>
  The schedule of the race: every call reads the stale \<open>last_reset\<close> before any of them
  stores a new one, then they finish one after the other, each refilling the bucket again.
\<close>

definition all_stale :: "TokenBucket \<Rightarrow> u64 \<Rightarrow> nat \<Rightarrow> bucket_sys" where
  "all_stale b now k =
     \<lparr>bucket = b, pcs = (\<lambda>i. if i < k then StoreReset now else AtStart),
      granted = 0, refills = 0\<rparr>"

definition some_done :: "TokenBucket \<Rightarrow> u64 \<Rightarrow> nat \<Rightarrow> nat \<Rightarrow> bucket_sys" where
  "some_done b now n j =
     \<lparr>bucket = (if j = 0 then b else b\<lparr>last_reset := now, tokens := max_per_minute b - 1\<rparr>),
      pcs = (\<lambda>i. if i < j then Done True else if i < n then StoreReset now else AtStart),
      granted = j, refills = j\<rparr>"

lemma reach_all_stale:
  assumes "60 \<le> saturating_sub now (last_reset b)"
  shows "reach (\<lambda>s. s = calls_start b) (any_step (\<lambda>_. now)) (all_stale b now k)"
proof (induction k)
  case 0
  have "all_stale b now 0 = calls_start b" by (simp add: all_stale_def calls_start_def)
  then show ?case using reach_start by simp
next
  case (Suc k)
  let ?s = "all_stale b now k"
  let ?t = "?s\<lparr>pcs := (pcs ?s)(k := LoadReset now)\<rparr>"
  have "bucket_step (\<lambda>_. now) k ?s ?t"
    by (rule read_clock) (simp add: all_stale_def)
  moreover have "bucket_step (\<lambda>_. now) k ?t (?t\<lparr>pcs := (pcs ?t)(k := StoreReset now)\<rparr>)"
    by (rule reset_due) (use assms in \<open>simp_all add: all_stale_def\<close>)
  moreover have "?t\<lparr>pcs := (pcs ?t)(k := StoreReset now)\<rparr> = all_stale b now (Suc k)"
    by (auto simp: all_stale_def fun_eq_iff less_Suc_eq)
  ultimately show ?case using Suc by (metis any_step_def reach_step)
qed

lemma four_steps:
  assumes "r a b" and "r b c" and "r c d" and "r d e"
  shows "r\<^sup>*\<^sup>* a e"
  using assms by (meson converse_rtranclp_into_rtranclp r_into_rtranclp)

lemma any_stepI: "bucket_step clk i s t \<Longrightarrow> any_step clk s t"
  by (auto simp: any_step_def)

lemma some_done_step:
  assumes "j < n" and "0 < max_per_minute b"
  shows "(any_step (\<lambda>_. now))\<^sup>*\<^sup>* (some_done b now n j) (some_done b now n (Suc j))"
proof -
  let ?m = "max_per_minute b"
  let ?s0 = "some_done b now n j"
  let ?s1 = "?s0\<lparr>bucket := (bucket ?s0)\<lparr>last_reset := now\<rparr>, pcs := (pcs ?s0)(j := StoreTokens)\<rparr>"
  let ?s2 = "?s1\<lparr>bucket := (bucket ?s1)\<lparr>tokens := max_per_minute (bucket ?s1)\<rparr>,
                pcs := (pcs ?s1)(j := LoadTokens), refills := Suc (refills ?s1)\<rparr>"
  let ?s3 = "?s2\<lparr>pcs := (pcs ?s2)(j := TryTake (tokens (bucket ?s2)))\<rparr>"
  let ?s4 = "?s3\<lparr>bucket := (bucket ?s3)\<lparr>tokens := ?m - 1\<rparr>, pcs := (pcs ?s3)(j := Done True),
                granted := Suc (granted ?s3)\<rparr>"
  have st0: "any_step (\<lambda>_. now) ?s0 ?s1" by (rule any_stepI, rule store_reset) (use assms in \<open>simp add: some_done_def\<close>)
  have st1: "any_step (\<lambda>_. now) ?s1 ?s2" by (rule any_stepI, rule store_tokens) simp
  have st2: "any_step (\<lambda>_. now) ?s2 ?s3" by (rule any_stepI, rule load_tokens) simp
  have st3: "any_step (\<lambda>_. now) ?s3 ?s4"
    by (rule any_stepI, rule exchange) (use assms in \<open>simp_all add: some_done_def\<close>)
  have "?s4 = some_done b now n (Suc j)"
    by (auto simp: some_done_def fun_eq_iff less_Suc_eq)
  moreover have "(any_step (\<lambda>_. now))\<^sup>*\<^sup>* ?s0 ?s4"
    using st0 st1 st2 st3 by (rule four_steps)
  ultimately show ?thesis by simp
qed

text \<open>
  The refill is not atomic: \<open>n\<close> concurrent calls that read the clock in the same second,
  60 seconds or more after the last reset, can all be granted, whatever the limit, although
  the same calls made one after the other get \<open>max_per_minute\<close> tokens at most.
\<close>

theorem concurrent_refill_race:
  assumes "bucket_ok b" and "0 < max_per_minute b" and "unat (last_reset b) + 60 \<le> unat now"
  shows "(\<exists>s. reach (\<lambda>s. s = calls_start b) (any_step (\<lambda>_. now)) s \<and> granted s = n)
       \<and> grant_count allow_at (replicate n now) b = min (unat (max_per_minute b)) n"
proof
  have due: "60 \<le> saturating_sub now (last_reset b)" using assms(3) by (simp add: refill_due_iff)
  have "(any_step (\<lambda>_. now))\<^sup>*\<^sup>* (some_done b now n 0) (some_done b now n j)" if "j \<le> n" for j
    using that
  proof (induction j)
    case (Suc j)
    then show ?case using some_done_step [of j n b now] assms(2) by simp
  qed simp
  then have "(any_step (\<lambda>_. now))\<^sup>*\<^sup>* (some_done b now n 0) (some_done b now n n)" by simp
  moreover have "some_done b now n 0 = all_stale b now n"
    by (simp add: some_done_def all_stale_def)
  ultimately have "reach (\<lambda>s. s = calls_start b) (any_step (\<lambda>_. now)) (some_done b now n n)"
    using reach_steps [OF reach_all_stale [OF due]] by simp
  then show "\<exists>s. reach (\<lambda>s. s = calls_start b) (any_step (\<lambda>_. now)) s \<and> granted s = n"
    by (intro exI [of _ "some_done b now n n"]) (simp add: some_done_def)
next
  have "int (unat (last_reset b)) + 60 \<le> int (unat now)" using assms(3) by linarith
  then show "grant_count allow_at (replicate n now) b = min (unat (max_per_minute b)) n"
    using bucket_source.grants_new_window [of b "max_per_minute b" now n] assms(1) by simp
qed

theorem concurrent_refill_race_witness:
  "\<exists>s. reach (\<lambda>s. s = calls_start (new_bucket_at 0 1)) (any_step (\<lambda>_. 60)) s \<and> granted s = 3"
  using concurrent_refill_race [of "new_bucket_at 0 1" 60 3] by (simp add: new_bucket_at_def bucket_ok_def)

end
