(* ===== verification/Limiter_Concurrency.thy ===== *)
theory Limiter_Concurrency
  imports Bucket_Concurrency Rate_Limiter
begin

text \<open>
  \<open>RateLimiter::allow_policy\<close> of \<open>src/rate_limiter.rs\<close> as several tasks run it. The buckets are
  shared: an \<open>Arc\<close> is an address of a heap, the \<open>DashMap\<close> an index from policy names to
  addresses, so a bucket that was replaced in the index lives on for the calls that hold it.
  Looking a name up, inserting a bucket and every access to a bucket's atomics are steps of
  their own. A call that found its bucket keeps the guard of the entry while it asks it, and
  an insertion for the same name waits for the guards.
\<close>

section \<open>Calls and their steps\<close>

text \<open>A call with the seconds it reads when it creates a bucket and when it asks one.\<close>

record policy_call =
  call_name :: string
  call_limit :: "i32 option"
  call_created :: u64
  call_now :: u64

text \<open>
  Where a call is: before the lookup, before it creates a bucket, before it inserts the one it
  created, inside \<open>allow\<close> of the bucket at an address, with the guard or without, or returned.
\<close>

datatype call_pc =
    CallStart
  | Creating
  | Inserting nat
  | InBucket bool nat pc
  | Returned bool

record limiter_sys =
  heap :: "TokenBucket list"
  index :: "string \<rightharpoonup> nat"
  calls :: "nat \<Rightarrow> call_pc"
  grants :: "nat \<Rightarrow> nat"
  refilled :: "nat \<Rightarrow> nat"

definition guarded :: "(nat \<Rightarrow> policy_call) \<Rightarrow> string \<Rightarrow> limiter_sys \<Rightarrow> bool" where
  "guarded req name s \<longleftrightarrow> (\<exists>j a p. calls s j = InBucket True a p \<and> call_name (req j) = name)"

text \<open>A call's view of a bucket, in which it takes a step of \<^const>\<open>bucket_step\<close>.\<close>

definition bucket_view :: "nat \<Rightarrow> pc \<Rightarrow> TokenBucket \<Rightarrow> bucket_sys" where
  "bucket_view i p b = \<lparr>bucket = b, pcs = (\<lambda>_. AtStart)(i := p), granted = 0, refills = 0\<rparr>"

text \<open>\<open>grants\<close> and \<open>refilled\<close> only count, for each address.\<close>

inductive limiter_step :: "(nat \<Rightarrow> policy_call) \<Rightarrow> nat \<Rightarrow> limiter_sys \<Rightarrow> limiter_sys \<Rightarrow> bool"
  for req :: "nat \<Rightarrow> policy_call" and i :: nat where
  unlimited:
    "calls s i = CallStart \<Longrightarrow> effective_limit (call_limit (req i)) = None \<Longrightarrow>
     limiter_step req i s (s\<lparr>calls := (calls s)(i := Returned True)\<rparr>)"
| found:
    "calls s i = CallStart \<Longrightarrow> effective_limit (call_limit (req i)) = Some limit \<Longrightarrow>
     index s (call_name (req i)) = Some a \<Longrightarrow> max_per_minute (heap s ! a) = limit \<Longrightarrow>
     limiter_step req i s (s\<lparr>calls := (calls s)(i := InBucket True a AtStart)\<rparr>)"
| limit_changed:
    "calls s i = CallStart \<Longrightarrow> effective_limit (call_limit (req i)) = Some limit \<Longrightarrow>
     index s (call_name (req i)) = Some a \<Longrightarrow> max_per_minute (heap s ! a) \<noteq> limit \<Longrightarrow>
     limiter_step req i s (s\<lparr>calls := (calls s)(i := Creating)\<rparr>)"
| not_found:
    "calls s i = CallStart \<Longrightarrow> effective_limit (call_limit (req i)) = Some limit \<Longrightarrow>
     index s (call_name (req i)) = None \<Longrightarrow>
     limiter_step req i s (s\<lparr>calls := (calls s)(i := Creating)\<rparr>)"
| create:
    "calls s i = Creating \<Longrightarrow> effective_limit (call_limit (req i)) = Some limit \<Longrightarrow>
     limiter_step req i s
       (s\<lparr>heap := heap s @ [new_bucket_at (call_created (req i)) limit],
          calls := (calls s)(i := Inserting (length (heap s)))\<rparr>)"
| insert_bucket:
    "calls s i = Inserting a \<Longrightarrow> \<not> guarded req (call_name (req i)) s \<Longrightarrow>
     limiter_step req i s
       (s\<lparr>index := (index s)(call_name (req i) \<mapsto> a),
          calls := (calls s)(i := InBucket False a AtStart)\<rparr>)"
| ask:
    "calls s i = InBucket g a p \<Longrightarrow>
     bucket_step (\<lambda>j. call_now (req j)) i (bucket_view i p (heap s ! a)) t \<Longrightarrow>
     limiter_step req i s
       (s\<lparr>heap := (heap s)[a := bucket t], calls := (calls s)(i := InBucket g a (pcs t i)),
          grants := (grants s)(a := grants s a + granted t),
          refilled := (refilled s)(a := refilled s a + refills t)\<rparr>)"
| answer:
    "calls s i = InBucket g a (Done r) \<Longrightarrow>
     limiter_step req i s (s\<lparr>calls := (calls s)(i := Returned r)\<rparr>)"

inductive_cases limiter_stepE
  [consumes 1, case_names unlimited found limit_changed not_found create insert_bucket ask answer]:
  "limiter_step req i s s'"

definition any_call :: "(nat \<Rightarrow> policy_call) \<Rightarrow> limiter_sys \<Rightarrow> limiter_sys \<Rightarrow> bool" where
  "any_call req s t \<longleftrightarrow> (\<exists>i. limiter_step req i s t)"

lemma any_callI: "limiter_step req i s t \<Longrightarrow> any_call req s t"
  by (auto simp: any_call_def)

text \<open>The limiter that the main task creates has no buckets of policies yet.\<close>

definition limiter_start :: "limiter_sys" where
  "limiter_start = \<lparr>heap = [], index = Map.empty, calls = (\<lambda>_. CallStart), grants = (\<lambda>_. 0),
     refilled = (\<lambda>_. 0)\<rparr>"

section \<open>The heap stays well formed\<close>

fun address :: "call_pc \<Rightarrow> nat option" where
  "address (Inserting a) = Some a"
| "address (InBucket g a p) = Some a"
| "address _ = None"

definition limiter_wf :: "limiter_sys \<Rightarrow> bool" where
  "limiter_wf s \<longleftrightarrow>
     (\<forall>n a. index s n = Some a \<longrightarrow> a < length (heap s))
   \<and> (\<forall>i a. address (calls s i) = Some a \<longrightarrow> a < length (heap s))
   \<and> (\<forall>a < length (heap s).
        grants s a + unat (tokens (heap s ! a)) \<le> (1 + refilled s a) * unat (max_per_minute (heap s ! a)))
   \<and> (\<forall>a \<ge> length (heap s). grants s a = 0 \<and> refilled s a = 0)"

lemma view_conserved:
  assumes "bucket_step clk i (bucket_view i p b) t"
  shows "max_per_minute (bucket t) = max_per_minute b"
    and "granted t + unat (tokens (bucket t)) \<le> unat (tokens b) + refills t * unat (max_per_minute b)"
proof -
  have "conserved b (bucket_view i p b)" by (simp add: conserved_def bucket_view_def)
  then have "conserved b t" by (rule conserved_step [OF assms])
  then show "max_per_minute (bucket t) = max_per_minute b"
    and "granted t + unat (tokens (bucket t)) \<le> unat (tokens b) + refills t * unat (max_per_minute b)"
    by (simp_all add: conserved_def)
qed

lemma limiter_wf_address: "limiter_wf s \<Longrightarrow> address (calls s i) = Some a \<Longrightarrow> a < length (heap s)"
  by (simp add: limiter_wf_def)

lemma limiter_wf_step:
  assumes "limiter_wf s" and "limiter_step req i s t"
  shows "limiter_wf t"
  using assms(2)
proof (cases rule: limiter_stepE)
  case (create limit)
  then show ?thesis using assms(1)
    by (auto simp: limiter_wf_def nth_append less_Suc_eq new_bucket_at_def)
next
  case (ask g a p v)
  have a: "a < length (heap s)" using limiter_wf_address [OF assms(1), of i] ask(2) by simp
  have "grants s a + unat (tokens (heap s ! a)) \<le> (1 + refilled s a) * unat (max_per_minute (heap s ! a))"
    using assms(1) a by (simp add: limiter_wf_def)
  then have "grants s a + granted v + unat (tokens (bucket v))
      \<le> (1 + (refilled s a + refills v)) * unat (max_per_minute (bucket v))"
    using view_conserved [OF ask(3)] by (simp add: algebra_simps)
  then show ?thesis using assms(1) ask(1,2) a by (auto simp: limiter_wf_def nth_list_update)
next
  case (insert_bucket a)
  then show ?thesis using assms(1) limiter_wf_address [OF assms(1), of i] by (auto simp: limiter_wf_def)
next
  case (found a)
  then show ?thesis using assms(1) by (auto simp: limiter_wf_def)
qed (use assms(1) in \<open>auto simp: limiter_wf_def\<close>)

interpretation limiter_heap: invariant_system "\<lambda>s. s = limiter_start" "any_call req" limiter_wf
  for req :: "nat \<Rightarrow> policy_call"
  by unfold_locales
    (simp add: limiter_wf_def limiter_start_def, auto simp: any_call_def intro: limiter_wf_step)

text \<open>
  C31. However the calls for policies interleave, no bucket grants more than its limit for its
  creation and for each of its refills, also when it was replaced in the index while calls still
  held it, and no call ever uses an address at which there is no bucket.
\<close>

theorem concurrent_policy_grants_bounded:
  assumes "reach (\<lambda>s. s = limiter_start) (any_call req) s"
  shows "(\<forall>a < length (heap s).
             grants s a \<le> (1 + refilled s a) * unat (max_per_minute (heap s ! a)))
       \<and> (\<forall>n a. index s n = Some a \<longrightarrow> a < length (heap s))
       \<and> (\<forall>i a. address (calls s i) = Some a \<longrightarrow> a < length (heap s))"
  using limiter_heap.reach_inv [OF assms] by (auto simp: limiter_wf_def intro: add_leD1)

section \<open>No call waits for ever\<close>

text \<open>The bucket a call is in can always take a step, until it is done.\<close>

lemma bucket_step_possible: "(\<forall>g. pcs s i \<noteq> Done g) \<Longrightarrow> \<exists>t. bucket_step clk i s t"
proof (cases "pcs s i")
  case (LoadReset now)
  then show ?thesis
    by (cases "60 \<le> saturating_sub now (last_reset (bucket s))") (blast intro: reset_due reset_recent)+
next
  case (TryTake k)
  then show ?thesis
    by (cases "k = 0") (blast intro: none_left, metis word_gt_0 exchange_failed)
qed (auto intro: bucket_step.intros)

lemma limiter_step_possible:
  assumes "\<forall>r. calls s i \<noteq> Returned r"
    and "\<forall>a. calls s i = Inserting a \<longrightarrow> \<not> guarded req (call_name (req i)) s"
    and "calls s i = Creating \<Longrightarrow> effective_limit (call_limit (req i)) \<noteq> None"
  shows "\<exists>t. limiter_step req i s t"
proof (cases "calls s i")
  case CallStart
  show ?thesis
  proof (cases "effective_limit (call_limit (req i))")
    case None
    then show ?thesis using CallStart unlimited by blast
  next
    case (Some limit)
    then show ?thesis using CallStart
      by (cases "index s (call_name (req i))") (blast intro: found limit_changed not_found)+
  qed
next
  case Creating
  then show ?thesis using assms(3) create by blast
next
  case (Inserting a)
  then show ?thesis using assms(2) insert_bucket by blast
next
  case (InBucket g a p)
  show ?thesis
  proof (cases "\<exists>r. p = Done r")
    case True
    then show ?thesis using InBucket answer by blast
  next
    case False
    then have "\<exists>t. bucket_step (\<lambda>j. call_now (req j)) i (bucket_view i p (heap s ! a)) t"
      by (intro bucket_step_possible) (simp add: bucket_view_def)
    then show ?thesis using InBucket ask by blast
  qed
next
  case (Returned r)
  then show ?thesis using assms(1) by blast
qed

text \<open>A call that creates a bucket has a limit.\<close>

definition creating_limited :: "(nat \<Rightarrow> policy_call) \<Rightarrow> limiter_sys \<Rightarrow> bool" where
  "creating_limited req s \<longleftrightarrow>
     (\<forall>i. calls s i = Creating \<longrightarrow> effective_limit (call_limit (req i)) \<noteq> None)"

lemma creating_limited_step:
  "limiter_step req i s t \<Longrightarrow> creating_limited req s \<Longrightarrow> creating_limited req t"
  by (erule limiter_stepE) (auto simp: creating_limited_def)

interpretation creating: invariant_system "\<lambda>s. s = limiter_start" "any_call req" "creating_limited req"
  for req :: "nat \<Rightarrow> policy_call"
  by unfold_locales
    (simp add: creating_limited_def limiter_start_def, auto simp: any_call_def intro: creating_limited_step)

text \<open>
  The guards of the \<open>DashMap\<close> cannot block the limiter: as long as a call has not returned,
  it or a call that holds the guard it waits for can take a step, since no call waits for an
  insertion while it holds a guard itself.
\<close>

theorem limiter_never_blocked:
  assumes "reach (\<lambda>s. s = limiter_start) (any_call req) s" and "\<forall>r. calls s i \<noteq> Returned r"
  shows "\<exists>j t. limiter_step req j s t \<and> (j = i \<or> (\<exists>a p. calls s j = InBucket True a p))"
proof -
  have limited: "calls s j = Creating \<Longrightarrow> effective_limit (call_limit (req j)) \<noteq> None" for j
    using creating.reach_inv [OF assms(1)] by (simp add: creating_limited_def)
  show ?thesis
  proof (cases "\<exists>t. limiter_step req i s t")
    case False
    then have "guarded req (call_name (req i)) s"
      using limiter_step_possible [of s i req] limited assms(2) by blast
    then obtain j a p where j: "calls s j = InBucket True a p" by (auto simp: guarded_def)
    then have "\<exists>t. limiter_step req j s t" by (intro limiter_step_possible) simp_all
    then show ?thesis using j by blast
  qed blast
qed

section \<open>A call that runs alone is the sequential function\<close>











lemma ask_step:
  assumes "calls s i = InBucket g a p" and "a < length (heap s)" and "heap s ! a = b"
    and "bucket_step (\<lambda>j. call_now (req j)) i (bucket_view i p b) t"
  shows "\<exists>s'. limiter_step req i s s' \<and> calls s' = (calls s)(i := InBucket g a (pcs t i))
      \<and> length (heap s') = length (heap s) \<and> heap s' ! a = bucket t"
  using ask [OF assms(1), of req t] assms(2-4) by fastforce






section \<open>The creation races\<close>

text \<open>
  A state in which the first \<open>j\<close> of \<open>n\<close> calls have been granted and the others are about to
  create a bucket; no call holds a guard.
\<close>

definition racing :: "nat \<Rightarrow> nat \<Rightarrow> limiter_sys \<Rightarrow> bool" where
  "racing n j s \<longleftrightarrow>
     calls s = (\<lambda>i. if i < j then Returned True else if i < n then Creating else CallStart)"

lemma racing_unguarded: "racing n j s \<Longrightarrow> \<not> guarded req name s"
  by (auto simp: racing_def guarded_def split: if_splits)

text \<open>What the calls of the race do inside \<open>allow\<close>, from the bucket they have just inserted.\<close>

lemma fresh_bucket_granted:
  assumes "0 < limit"
  shows "\<exists>b1 b2 b3 b4. bucket_step clk i (bucket_view i AtStart (new_bucket_at (clk i) limit)) b1
     \<and> bucket_step clk i (bucket_view i (pcs b1 i) (bucket b1)) b2
     \<and> bucket_step clk i (bucket_view i (pcs b2 i) (bucket b2)) b3
     \<and> bucket_step clk i (bucket_view i (pcs b3 i) (bucket b3)) b4
     \<and> pcs b4 i = Done True"
proof -
  let ?b = "new_bucket_at (clk i) limit"
  define v where "v = (\<lambda>p. bucket_view i p ?b)"
  have b: "bucket (v p) = ?b" "pcs (v p) i = p" for p by (simp_all add: v_def bucket_view_def)
  have recent: "\<not> 60 \<le> saturating_sub (clk i) (last_reset ?b)"
    unfolding refill_due_iff by (simp add: new_bucket_at_def)
  define b1 where "b1 = v AtStart\<lparr>pcs := (pcs (v AtStart))(i := LoadReset (clk i))\<rparr>"
  define b2 where "b2 = v (LoadReset (clk i))\<lparr>pcs := (pcs (v (LoadReset (clk i))))(i := LoadTokens)\<rparr>"
  define b3 where "b3 = v LoadTokens\<lparr>pcs := (pcs (v LoadTokens))(i := TryTake (tokens ?b))\<rparr>"
  define b4 where "b4 = v (TryTake limit)\<lparr>bucket := ?b\<lparr>tokens := limit - 1\<rparr>,
      pcs := (pcs (v (TryTake limit)))(i := Done True), granted := Suc (granted (v (TryTake limit)))\<rparr>"
  have "bucket_step clk i (v AtStart) b1" unfolding b1_def by (rule read_clock) (rule b)
  moreover have "bucket_step clk i (v (LoadReset (clk i))) b2"
    unfolding b2_def by (rule reset_recent [OF b(2)]) (simp add: b recent)
  moreover have "bucket_step clk i (v LoadTokens) b3"
    using load_tokens [where clk = clk, OF b(2)] by (simp add: b3_def b)
  moreover have "bucket_step clk i (v (TryTake limit)) b4"
    using exchange [where clk = clk, OF b(2) assms] by (simp add: b4_def b) (simp add: new_bucket_at_def)
  moreover have "v (LoadReset (clk i)) = bucket_view i (pcs b1 i) (bucket b1)"
      "v LoadTokens = bucket_view i (pcs b2 i) (bucket b2)"
      "v (TryTake limit) = bucket_view i (pcs b3 i) (bucket b3)" "pcs b4 i = Done True"
    by (simp_all add: b1_def b2_def b3_def b4_def b v_def new_bucket_at_def) (simp_all add: bucket_view_def)
  ultimately show ?thesis unfolding v_def by metis
qed

lemma reach_any_call: "reach init (any_call req) s \<Longrightarrow> limiter_step req i s t \<Longrightarrow> reach init (any_call req) t"
  by (blast intro: reach_step any_callI)

lemma racing_step:
  assumes reach: "reach init (any_call req) s" and race: "racing n j s" and "j < n"
    and limit: "effective_limit (call_limit (req j)) = Some limit" and "call_created (req j) = call_now (req j)"
  shows "\<exists>s'. reach init (any_call req) s' \<and> racing n (Suc j) s'"
proof -
  let ?clk = "\<lambda>j. call_now (req j)" and ?a = "length (heap s)"
  let ?b = "new_bucket_at (call_now (req j)) limit"
  have pos: "0 < limit" using limit by (rule effective_limit_gt_0)
  have j: "calls s j = Creating" using race assms(3) by (simp add: racing_def)
  define s1 where "s1 = s\<lparr>heap := heap s @ [?b], calls := (calls s)(j := Inserting ?a)\<rparr>"
  have r1: "reach init (any_call req) s1"
    using reach_any_call [OF reach create [where req = req and i = j, OF j limit]] assms(5) by (simp add: s1_def)
  have "\<not> guarded req (call_name (req j)) s1"
    using racing_unguarded [OF race, of req] by (auto simp: s1_def guarded_def split: if_splits)
  then have "limiter_step req j s1 (s1\<lparr>index := (index s1)(call_name (req j) \<mapsto> ?a),
      calls := (calls s1)(j := InBucket False ?a AtStart)\<rparr>)" (is "limiter_step req j s1 ?s2")
    by (intro insert_bucket) (simp_all add: s1_def)
  then have r2: "reach init (any_call req) ?s2" by (rule reach_any_call [OF r1])
  have s2: "calls ?s2 = (calls s)(j := InBucket False ?a AtStart)" "?a < length (heap ?s2)" "heap ?s2 ! ?a = ?b"
    by (simp_all add: s1_def)
  obtain b1 b2 b3 b4 where b: "bucket_step ?clk j (bucket_view j AtStart ?b) b1"
      "bucket_step ?clk j (bucket_view j (pcs b1 j) (bucket b1)) b2"
      "bucket_step ?clk j (bucket_view j (pcs b2 j) (bucket b2)) b3"
      "bucket_step ?clk j (bucket_view j (pcs b3 j) (bucket b3)) b4" "pcs b4 j = Done True"
    using fresh_bucket_granted [OF pos, of ?clk j] by blast
  have next_step: "\<exists>s'. reach init (any_call req) s' \<and> calls s' = (calls s)(j := InBucket False ?a (pcs t j))
      \<and> ?a < length (heap s') \<and> heap s' ! ?a = bucket t"
    if "reach init (any_call req) u" "calls u = (calls s)(j := InBucket False ?a p)" "?a < length (heap u)"
      "heap u ! ?a = c" "bucket_step ?clk j (bucket_view j p c) t" for u p c t
    using ask_step [of u j False ?a p c req t] that reach_any_call [OF that(1)] by fastforce
  obtain u1 where u1: "reach init (any_call req) u1" "calls u1 = (calls s)(j := InBucket False ?a (pcs b1 j))"
      "?a < length (heap u1)" "heap u1 ! ?a = bucket b1"
    using next_step [OF r2 s2 b(1)] by blast
  obtain u2 where u2: "reach init (any_call req) u2" "calls u2 = (calls s)(j := InBucket False ?a (pcs b2 j))"
      "?a < length (heap u2)" "heap u2 ! ?a = bucket b2"
    using next_step [OF u1 b(2)] by blast
  obtain u3 where u3: "reach init (any_call req) u3" "calls u3 = (calls s)(j := InBucket False ?a (pcs b3 j))"
      "?a < length (heap u3)" "heap u3 ! ?a = bucket b3"
    using next_step [OF u2 b(3)] by blast
  obtain u4 where u4: "reach init (any_call req) u4" "calls u4 = (calls s)(j := InBucket False ?a (Done True))"
    using next_step [OF u3 b(4)] b(5) by auto
  have "limiter_step req j u4 (u4\<lparr>calls := (calls u4)(j := Returned True)\<rparr>)"
    using answer [of u4 j False ?a True req] u4(2) by simp
  then have "reach init (any_call req) (u4\<lparr>calls := (calls u4)(j := Returned True)\<rparr>)"
    by (rule reach_any_call [OF u4(1)])
  moreover have "racing n (Suc j) (u4\<lparr>calls := (calls u4)(j := Returned True)\<rparr>)"
    using race assms(3) by (auto simp: racing_def u4(2) fun_eq_iff less_Suc_eq)
  ultimately show ?thesis by blast
qed

lemma reach_lookups:
  assumes "\<forall>i < n. effective_limit (call_limit (req i)) \<noteq> None"
  shows "k \<le> n \<Longrightarrow> reach (\<lambda>s. s = limiter_start) (any_call req)
    (limiter_start\<lparr>calls := (\<lambda>i. if i < k then Creating else CallStart)\<rparr>)"
proof (induction k)
  case 0
  have "limiter_start\<lparr>calls := (\<lambda>i. if i < 0 then Creating else CallStart)\<rparr> = limiter_start"
    by (simp add: limiter_start_def)
  then show ?case using reach_start by metis
next
  case (Suc k)
  let ?s = "limiter_start\<lparr>calls := (\<lambda>i. if i < k then Creating else CallStart)\<rparr>"
  have "k < n" using Suc.prems by simp
  then obtain limit where limit: "effective_limit (call_limit (req k)) = Some limit" using assms by blast
  have "limiter_step req k ?s (?s\<lparr>calls := (calls ?s)(k := Creating)\<rparr>)"
    by (rule not_found [where i = k and req = req, OF _ limit]) (simp_all add: limiter_start_def)
  moreover have "?s\<lparr>calls := (calls ?s)(k := Creating)\<rparr>
      = limiter_start\<lparr>calls := (\<lambda>i. if i < Suc k then Creating else CallStart)\<rparr>"
    by (simp add: fun_eq_iff limiter_start_def less_Suc_eq)
  ultimately show ?case using Suc reach_any_call by (metis Suc_leD)
qed

lemma creation_race_reach:
  assumes "\<forall>i < n. effective_limit (call_limit (req i)) \<noteq> None \<and> call_created (req i) = call_now (req i)"
  shows "\<exists>s. reach (\<lambda>s. s = limiter_start) (any_call req) s \<and> (\<forall>i < n. calls s i = Returned True)"
proof -
  let ?R = "reach (\<lambda>s. s = limiter_start) (any_call req)"
  have "\<exists>s. ?R s \<and> racing n j s" if "j \<le> n" for j
    using that
  proof (induction j)
    case 0
    have "?R (limiter_start\<lparr>calls := (\<lambda>i. if i < n then Creating else CallStart)\<rparr>)"
      by (rule reach_lookups [of n]) (use assms in auto)
    then show ?case by (fastforce simp: racing_def)
  next
    case (Suc j)
    then obtain s where s: "?R s" "racing n j s" by auto
    have "j < n" using Suc.prems by simp
    then obtain limit where "effective_limit (call_limit (req j)) = Some limit" using assms by blast
    then show ?case using racing_step [OF s \<open>j < n\<close>] assms \<open>j < n\<close> by blast
  qed
  then obtain s where "?R s" "racing n n s" by blast
  then show ?thesis by (auto simp: racing_def)
qed



theorem concurrent_policy_grants_bounded_witness:
  "\<exists>s :: limiter_sys. (\<forall>i < 5. calls s i = Returned True)
     \<and> (\<forall>a < length (heap s). grants s a \<le> (1 + refilled s a) * unat (max_per_minute (heap s ! a)))"
proof -
  obtain s where r: "reach (\<lambda>s. s = limiter_start)
      (any_call (\<lambda>_. \<lparr>call_name = ''p'', call_limit = Some 1, call_created = 100, call_now = 100\<rparr>)) s"
    and c: "\<forall>i < 5. calls s i = Returned True"
    using creation_race_reach [of 5 "\<lambda>_. \<lparr>call_name = ''p'', call_limit = Some 1, call_created = 100, call_now = 100\<rparr>"]
    by (auto simp: effective_limit_def)
  show ?thesis using concurrent_policy_grants_bounded [OF r] c by (intro exI [of _ s]) blast
qed

theorem limiter_never_blocked_witness:
  "\<exists>j t. limiter_step (\<lambda>_. \<lparr>call_name = ''p'', call_limit = Some 1, call_created = 100, call_now = 100\<rparr>)
      j limiter_start t"
proof -
  have "\<forall>r. calls limiter_start 0 \<noteq> Returned r" by (simp add: limiter_start_def)
  then show ?thesis using limiter_never_blocked [OF reach_start] by blast
qed

end
