(* ===== verification/Atomic_Limits.thy ===== *)
theory Atomic_Limits
  imports Task_Safety Limiter_Concurrency
begin

text \<open>
  The interleaved reconciliations with the limiter taken apart: where a task of Pod_Tasks asks
  a limiter in one step, the atomic steps of the call to \<open>TokenBucket::allow\<close> or
  \<open>RateLimiter::allow_policy\<close> are here steps of the task, and the calls of all tasks interleave.
  What depends on the limiter being asked at once is shown again without it.
\<close>

section \<open>The system\<close>

text \<open>
  \<open>base\<close> holds the tasks and the context, of which the limiter is not used; the limiter is the
  global bucket with the calls to it, and the heap of the policies' buckets with theirs. Call
  \<open>i\<close> is the one that task \<open>i\<close> has under way.
\<close>

record 'p atomic_sys =
  base :: "'p tasks_sys"
  global :: bucket_sys
  limits :: limiter_sys

fun is_asking :: "task \<Rightarrow> bool" where
  "is_asking (AskingGlobal pod p ps ttl) = True"
| "is_asking (AskingPolicy g pod p ps ttl) = True"
| "is_asking t = False"

text \<open>The arguments of the call to \<open>allow_policy\<close> of each task, with the clock at \<open>now\<close>.\<close>

fun policy_request :: "u64 \<Rightarrow> task \<Rightarrow> policy_call" where
  "policy_request now (AskingPolicy g pod p ps ttl) =
     \<lparr>call_name = policy_name_any p, call_limit = max_deletes_per_minute (spec_limits (policy_spec p)),
      call_created = now, call_now = now\<rparr>"
| "policy_request now t = \<lparr>call_name = [], call_limit = None, call_created = now, call_now = now\<rparr>"

abbreviation passed :: "'p tasks_sys \<Rightarrow> 'p tasks_sys" where
  "passed s \<equiv> s\<lparr>shared := tick 1 (shared s)\<rparr>"

text \<open>
  An atomic step of a call may read the clock; if it does not, the reading is passed over. The
  last two rules are the return from the calls.
\<close>

inductive atomic_step :: "'p World \<Rightarrow> 'p atomic_sys \<Rightarrow> 'p atomic_sys \<Rightarrow> bool" for w :: "'p World" where
  elsewhere:
    "sys_step w e (base s) t \<Longrightarrow> (\<forall>i. e = Run i \<longrightarrow> \<not> is_asking (tasks (base s) ! i)) \<Longrightarrow>
     atomic_step w s (s\<lparr>base := t\<rparr>)"
| in_global:
    "i < length (tasks (base s)) \<Longrightarrow> tasks (base s) ! i = AskingGlobal pod p ps ttl \<Longrightarrow>
     unix_secs (now_of w (shared (base s))) = Some now \<Longrightarrow> bucket_step (\<lambda>_. now) i (global s) b \<Longrightarrow>
     atomic_step w s (s\<lparr>base := passed (base s), global := b\<rparr>)"
| global_answer:
    "i < length (tasks (base s)) \<Longrightarrow> tasks (base s) ! i = AskingGlobal pod p ps ttl \<Longrightarrow>
     pcs (global s) i = Done g \<Longrightarrow>
     atomic_step w s (s\<lparr>base := (base s)\<lparr>tasks := (tasks (base s))[i := AskingPolicy g pod p ps ttl]\<rparr>,
        global := (global s)\<lparr>pcs := (pcs (global s))(i := AtStart)\<rparr>\<rparr>)"
| in_policy:
    "i < length (tasks (base s)) \<Longrightarrow> tasks (base s) ! i = AskingPolicy g pod p ps ttl \<Longrightarrow>
     unix_secs (now_of w (shared (base s))) = Some now \<Longrightarrow>
     limiter_step (\<lambda>j. policy_request now (tasks (base s) ! j)) i (limits s) l \<Longrightarrow>
     atomic_step w s (s\<lparr>base := passed (base s), limits := l\<rparr>)"
| policy_answer:
    "i < length (tasks (base s)) \<Longrightarrow> tasks (base s) ! i = AskingPolicy g pod p ps ttl \<Longrightarrow>
     calls (limits s) i = Returned a \<Longrightarrow>
     atomic_step w s (s\<lparr>base := (base s)\<lparr>
          shared := (if \<not> g \<or> \<not> a then count_event RateLimited (shared (base s)) else shared (base s)),
          tasks := (tasks (base s))[i := if \<not> g \<or> \<not> a then Finished (Inr (Requeue 10)) else Sending pod p ps ttl]\<rparr>,
        limits := (limits s)\<lparr>calls := (calls (limits s))(i := CallStart)\<rparr>\<rparr>)"

inductive_cases atomic_stepE
  [consumes 1, case_names elsewhere in_global global_answer in_policy policy_answer]:
  "atomic_step w s t"

definition atomic_start :: "'p World \<Rightarrow> Config \<Rightarrow> 'p atomic_sys \<Rightarrow> bool" where
  "atomic_start w config s \<longleftrightarrow>
     sys_start w config (base s)
   \<and> global s = calls_start (global_limiter (rate_limiter (shared (base s)))) \<and> limits s = limiter_start"

definition atomic_reach :: "'p World \<Rightarrow> Config \<Rightarrow> 'p atomic_sys \<Rightarrow> bool" where
  "atomic_reach w config = reach (atomic_start w config) (atomic_step w)"

section \<open>What holds of the tasks whatever the limiter answers\<close>

lemma tasks_ok_moved:
  assumes ok: "tasks_ok w s" and "evaluator ctx = evaluator (shared s)" and "policies ctx = policies (shared s)"
    and "client ctx = client (shared s)" and ticks: "ticks (shared s) \<le> ticks ctx"
    and "set ts \<subseteq> insert t (set (tasks s))" and "task_ok w (ticks ctx) t"
  shows "tasks_ok w (s\<lparr>shared := ctx, tasks := ts\<rparr>)"
proof -
  have "task_ok w (ticks ctx) t'" if "t' \<in> set ts" for t'
    using that assms(6,7) ok task_ok_mono [OF _ ticks] unfolding tasks_ok_def by blast
  moreover have "authorised_removal w (ticks ctx) r" if "r \<in> set (client (shared s))" "is_removal r" for r
    using that ok authorised_removal_mono [OF _ ticks] unfolding tasks_ok_def by blast
  ultimately show ?thesis using assms by (simp add: tasks_ok_def)
qed

lemma tasks_ok_passed:
  assumes "tasks_ok w s"
  shows "tasks_ok w (passed s)"
  using tasks_ok_moved [OF assms, of "tick 1 (shared s)" "tasks s" "Finished (Inr AwaitChange)"]
    by (simp add: subset_insertI)

lemma tasks_ok_atomic:
  assumes "atomic_step w s t" and ok: "tasks_ok w (base s)"
  shows "tasks_ok w (base t)"
  using assms(1)
proof (cases rule: atomic_stepE)
  case (elsewhere e t')
  then show ?thesis using tasks_ok_step [OF _ ok] by simp
next
  case (global_answer i pod p ps ttl g)
  have "task_ok w (ticks (shared (base s))) (AskingPolicy g pod p ps ttl)"
    using ok global_answer(2,3) unfolding tasks_ok_def by (metis nth_mem task_ok.simps(3,4))
  then show ?thesis
    using tasks_ok_moved [OF ok, of "shared (base s)" "(tasks (base s))[i := AskingPolicy g pod p ps ttl]"
        "AskingPolicy g pod p ps ttl"] set_update_subset_insert global_answer(1) by fastforce
next
  case (policy_answer i g pod p ps ttl a)
  let ?t = "if \<not> g \<or> \<not> a then Finished (Inr (Requeue 10)) else Sending pod p ps ttl"
  let ?ctx = "if \<not> g \<or> \<not> a then count_event RateLimited (shared (base s)) else shared (base s)"
  have "task_ok w (ticks (shared (base s))) (Sending pod p ps ttl)"
    using ok policy_answer(2,3) unfolding tasks_ok_def by (metis nth_mem task_ok.simps(4,5))
  then have "task_ok w (ticks ?ctx) ?t" by simp
  then show ?thesis
    using tasks_ok_moved [OF ok, of ?ctx "(tasks (base s))[i := ?t]" ?t] set_update_subset_insert policy_answer(1)
    by fastforce
qed (use tasks_ok_passed [OF ok] in simp_all)

section \<open>What the global bucket pays for\<close>

text \<open>The token that a task holds, which it may have taken in a call that has still to return.\<close>

fun token_of :: "pc \<Rightarrow> task \<Rightarrow> nat" where
  "token_of p (AskingGlobal pod q ps ttl) = of_bool (p = Done True)"
| "token_of p t = tokens_held t"

definition tokens_out :: "'p atomic_sys \<Rightarrow> nat" where
  "tokens_out s = (\<Sum>i < length (tasks (base s)). token_of (pcs (global s) i) (tasks (base s) ! i))"

definition idle_calls :: "'p atomic_sys \<Rightarrow> bool" where
  "idle_calls s \<longleftrightarrow>
     (\<forall>i. pcs (global s) i \<noteq> AtStart \<longrightarrow>
        i < length (tasks (base s)) \<and> (\<exists>pod p ps ttl. tasks (base s) ! i = AskingGlobal pod p ps ttl))"

definition grants_cover :: "'p atomic_sys \<Rightarrow> bool" where
  "grants_cover s \<longleftrightarrow> removals (client (shared (base s))) + tokens_out s \<le> granted (global s)"

lemma bucket_step_grants:
  assumes "bucket_step clk i s t"
  shows "granted t = granted s + of_bool (pcs t i = Done True)" and "\<And>j. j \<noteq> i \<Longrightarrow> pcs t j = pcs s j"
    and "\<And>g. pcs s i \<noteq> Done g"
  using assms by (cases rule: bucket_stepE; simp)+

text \<open>One task changes, and with it what it holds.\<close>

lemma tokens_out_update:
  fixes s t :: "'p atomic_sys"
  assumes "i < length (tasks (base s))" and "length (tasks (base t)) = length (tasks (base s))"
    and "\<And>j. j \<noteq> i \<Longrightarrow> token_of (pcs (global t) j) (tasks (base t) ! j) = token_of (pcs (global s) j) (tasks (base s) ! j)"
  shows "tokens_out t + token_of (pcs (global s) i) (tasks (base s) ! i)
       = tokens_out s + token_of (pcs (global t) i) (tasks (base t) ! i)"
proof -
  let ?f = "\<lambda>s j. token_of (pcs (global s) j) (tasks (base s) ! j)"
  have split: "(\<Sum>j < length (tasks (base s)). ?f u j) = ?f u i + (\<Sum>j \<in> {..< length (tasks (base s))} - {i}. ?f u j)"
    for u :: "'p atomic_sys"
    by (rule sum.remove) (use assms(1) in simp_all)
  have "(\<Sum>j \<in> {..< length (tasks (base s))} - {i}. ?f t j) = (\<Sum>j \<in> {..< length (tasks (base s))} - {i}. ?f s j)"
    by (rule sum.cong) (use assms(3) in auto)
  then show ?thesis using split [of s] split [of t] assms(2) by (simp add: tokens_out_def)
qed

text \<open>Outside the limiter a task gives its token for the removal it sends, and takes none.\<close>

lemma task_step_tokens:
  assumes "task_step w t ctx = Some (t', ctx')" and "cache_coherent (cel w) (evaluator ctx)" and "\<not> is_asking t"
  shows "removals (client ctx') + token_of AtStart t' \<le> removals (client ctx) + tokens_held t"
proof (cases t)
  case (Looping pod ps ttl)
  then show ?thesis using assms(1) by (cases ps) (auto split: if_splits)
next
  case (Evaluating pod p ps ttl)
  obtain met ttl' ctx1 where c: "condition_met w pod p ttl ctx = (met, ttl', ctx1)" by (rule prod_cases3)
  have "client ctx1 = client ctx"
    using condition_met_result(3) [OF assms(2) c] by (simp add: changes_condition_def)
  then show ?thesis using assms(1) c Evaluating by (auto simp: evaluate_step_def split: if_splits)
next
  case (Sending pod p ps ttl)
  show ?thesis
  proof (cases "deletion_request w pod p")
    case (Inr r)
    then show ?thesis using assms(1) Sending deletion_request_removal [OF Inr] by auto
  qed (use assms(1) Sending in auto)
qed (use assms in \<open>auto split: if_splits\<close>)

lemma idle_calls_update:
  fixes s t :: "'p atomic_sys"
  assumes "idle_calls s" and "length (tasks (base t)) = length (tasks (base s))"
    and "\<And>j. j \<noteq> i \<Longrightarrow> tasks (base t) ! j = tasks (base s) ! j"
    and "\<And>j. j \<noteq> i \<Longrightarrow> pcs (global t) j = pcs (global s) j"
    and "pcs (global t) i = AtStart"
  shows "idle_calls t"
  unfolding idle_calls_def
proof (intro allI impI)
  fix j
  assume "pcs (global t) j \<noteq> AtStart"
  then have "j \<noteq> i" using assms(5) by blast
  then show "j < length (tasks (base t)) \<and> (\<exists>pod p ps ttl. tasks (base t) ! j = AskingGlobal pod p ps ttl)"
    using assms(1-4) \<open>pcs (global t) j \<noteq> AtStart\<close> by (auto simp: idle_calls_def)
qed

lemma idle_calls_step:
  assumes "atomic_step w s t" and idle: "idle_calls s"
  shows "idle_calls t"
  using assms(1)
proof (cases rule: atomic_stepE)
  case (elsewhere e b)
  show ?thesis using elsewhere(2)
  proof (cases rule: sys_stepE)
    case (run i t' ctx)
    have "\<not> is_asking (tasks (base s) ! i)" using elsewhere(3) run(1) by simp
    then have "pcs (global s) i = AtStart" using idle by (auto simp: idle_calls_def)
    then show ?thesis
      by (intro idle_calls_update [OF idle, of _ i]) (use elsewhere(1) run(2) in simp_all)
  qed (use idle elsewhere(1) in \<open>auto simp: idle_calls_def nth_append\<close>)
next
  case (in_global i pod p ps ttl now b)
  have "j < length (tasks (base s)) \<and> (\<exists>pod p ps ttl. tasks (base s) ! j = AskingGlobal pod p ps ttl)"
    if "pcs b j \<noteq> AtStart" for j
    using that idle in_global(2,3) bucket_step_grants(2) [OF in_global(5), of j]
    unfolding idle_calls_def by (cases "j = i") auto
  then show ?thesis using in_global(1) by (simp add: idle_calls_def)
next
  case (global_answer i pod p ps ttl g)
  show ?thesis by (intro idle_calls_update [OF idle, of _ i]) (use global_answer in simp_all)
next
  case (policy_answer i g pod p ps ttl a)
  have "pcs (global s) i = AtStart" using idle policy_answer(3) by (auto simp: idle_calls_def)
  then show ?thesis by (intro idle_calls_update [OF idle, of _ i]) (use policy_answer(1) in simp_all)
qed (use idle in \<open>auto simp: idle_calls_def\<close>)

lemma token_of_cong: "\<not> is_asking t \<Longrightarrow> token_of p t = tokens_held t"
  by (cases t) simp_all

lemma grants_cover_elsewhere:
  assumes "sys_step w e (base s) b" and "\<forall>i. e = Run i \<longrightarrow> \<not> is_asking (tasks (base s) ! i)"
    and ok: "tasks_ok w (base s)" and idle: "idle_calls s" and cover: "grants_cover s"
  shows "grants_cover (s\<lparr>base := b\<rparr>)"
  using assms(1)
proof (cases rule: sys_stepE)
  case (spawn pod)
  then show ?thesis using cover by (simp add: grants_cover_def tokens_out_def nth_append)
next
  case (run i t ctx)
  let ?t = "s\<lparr>base := b\<rparr>"
  have quiet: "\<not> is_asking (tasks (base s) ! i)" using assms(2) run(1) by simp
  then have start: "pcs (global s) i = AtStart" using idle by (auto simp: idle_calls_def)
  have "removals (client ctx) + token_of AtStart t \<le> removals (client (shared (base s))) + tokens_held (tasks (base s) ! i)"
    by (rule task_step_tokens [OF run(5) _ quiet]) (use ok in \<open>simp add: tasks_ok_def\<close>)
  moreover have "tokens_out ?t + token_of (pcs (global s) i) (tasks (base s) ! i)
      = tokens_out s + token_of (pcs (global ?t) i) (tasks (base ?t) ! i)"
    by (rule tokens_out_update) (use run in \<open>simp_all add: nth_list_update\<close>)
  ultimately show ?thesis using cover run(2,3) start token_of_cong [OF quiet]
    by (simp add: grants_cover_def)
next
  case (policy_change policy)
  then show ?thesis using cover by (simp add: grants_cover_def tokens_out_def)
next
  case (run_policy j c t ctx)
  have "policy_step_effect w c (policy_tasks (base s) ! j) (shared (base s)) t ctx"
    by (rule run_policy_effect [OF ok run_policy(3,4)])
  then have "removals (client ctx) = removals (client (shared (base s)))"
    by (auto simp: policy_step_effect_def removals_def)
  then show ?thesis using cover run_policy(2) by (simp add: grants_cover_def tokens_out_def)
next
  case (store_sync store)
  then show ?thesis using cover by (simp add: grants_cover_def tokens_out_def)
qed

lemma grants_cover_step:
  assumes "atomic_step w s t" and ok: "tasks_ok w (base s)" and idle: "idle_calls s" and cover: "grants_cover s"
  shows "grants_cover t"
  using assms(1)
proof (cases rule: atomic_stepE)
  case (elsewhere e b)
  then show ?thesis using grants_cover_elsewhere [OF elsewhere(2,3) ok idle cover] by simp
next
  case (in_global i pod p ps ttl now b)
  note g = bucket_step_grants [OF in_global(5)]
  have "tokens_out t + token_of (pcs (global s) i) (tasks (base s) ! i)
      = tokens_out s + token_of (pcs (global t) i) (tasks (base t) ! i)"
    by (rule tokens_out_update) (use in_global(1,2) g(2) in simp_all)
  then show ?thesis using cover in_global(1,3) g(1,3) by (simp add: grants_cover_def)
next
  case (global_answer i pod p ps ttl g)
  have "tokens_out t + token_of (pcs (global s) i) (tasks (base s) ! i)
      = tokens_out s + token_of (pcs (global t) i) (tasks (base t) ! i)"
    by (rule tokens_out_update) (use global_answer in \<open>simp_all add: nth_list_update\<close>)
  then have "tokens_out t = tokens_out s" using global_answer by (cases g) simp_all
  then show ?thesis using cover global_answer(1) by (simp add: grants_cover_def)
next
  case (in_policy i g pod p ps ttl now l)
  then show ?thesis using cover by (simp add: grants_cover_def tokens_out_def)
next
  case (policy_answer i g pod p ps ttl a)
  have "tokens_out t + token_of (pcs (global s) i) (tasks (base s) ! i)
      = tokens_out s + token_of (pcs (global t) i) (tasks (base t) ! i)"
    by (rule tokens_out_update) (use policy_answer in \<open>simp_all add: nth_list_update\<close>)
  then have "tokens_out t \<le> tokens_out s" using policy_answer by (auto split: if_splits)
  moreover have "removals (client (shared (base t))) = removals (client (shared (base s)))"
    using policy_answer(1) by simp
  ultimately show ?thesis using cover policy_answer(1) by (simp add: grants_cover_def)
qed

section \<open>Safety without atomic limiters\<close>

lemma conserved_pcs: "conserved b (s\<lparr>pcs := f\<rparr>) = conserved b s"
  by (simp add: conserved_def)

lemma limiter_wf_returned: "limiter_wf s \<Longrightarrow> limiter_wf (s\<lparr>calls := (calls s)(i := CallStart)\<rparr>)"
  by (auto simp: limiter_wf_def)

lemma buckets_step:
  assumes "atomic_step w s t" and "conserved b (global s)" and "limiter_wf (limits s)"
  shows "conserved b (global t) \<and> limiter_wf (limits t)"
  using assms(1)
proof (cases rule: atomic_stepE)
  case (in_global i pod p ps ttl now g)
  then show ?thesis using conserved_step [OF in_global(5) assms(2)] assms(3) by simp
next
  case (in_policy i g pod p ps ttl now l)
  then show ?thesis using limiter_wf_step [OF assms(3) in_policy(5)] assms(2) by simp
qed (use assms(2,3) in \<open>simp_all add: conserved_pcs limiter_wf_returned\<close>)

definition atomic_ok :: "'p World \<Rightarrow> TokenBucket \<Rightarrow> 'p atomic_sys \<Rightarrow> bool" where
  "atomic_ok w b s \<longleftrightarrow>
     tasks_ok w (base s) \<and> idle_calls s \<and> grants_cover s \<and> conserved b (global s) \<and> limiter_wf (limits s)"

lemma start_context_bucket:
  "start_context w config = Some ctx \<Longrightarrow>
     (\<exists>now. global_limiter (rate_limiter ctx) = new_bucket_at now (rate_limit_per_minute config)) \<and> client ctx = []"
  by (auto simp: start_context_def new_limiter_def new_bucket_def split: option.splits bind_splits)

interpretation atomic_run: invariant_system "atomic_start w config" "atomic_step w"
    "\<lambda>s. \<exists>now. atomic_ok w (new_bucket_at now (rate_limit_per_minute config)) s"
  for w :: "'p World" and config :: Config
proof
  fix s :: "'p atomic_sys"
  assume start: "atomic_start w config s"
  then have sys: "sys_start w config (base s)" by (simp add: atomic_start_def)
  obtain t0 where "sys_ok w (rate_limit_per_minute config) (int (unat (t0 :: u64))) (base s)"
    using interleaved_run.init_inv [OF sys] by blast
  then have ok: "tasks_ok w (base s)" by (rule sys_ok_tasks)
  have "start_context w config = Some (shared (base s))" using sys by (simp add: sys_start_def)
  from start_context_bucket [OF this] obtain now
    where b: "global_limiter (rate_limiter (shared (base s))) = new_bucket_at now (rate_limit_per_minute config)"
      and c: "client (shared (base s)) = []" by blast
  have "tasks (base s) = []" using sys by (simp add: sys_start_def)
  then have "atomic_ok w (new_bucket_at now (rate_limit_per_minute config)) s"
    using start ok b c limiter_heap.init_inv
    by (simp add: atomic_ok_def atomic_start_def idle_calls_def grants_cover_def tokens_out_def conserved_def
        calls_start_def)
  then show "\<exists>now. atomic_ok w (new_bucket_at now (rate_limit_per_minute config)) s" by blast
next
  fix s t :: "'p atomic_sys"
  assume "\<exists>now. atomic_ok w (new_bucket_at now (rate_limit_per_minute config)) s" and step: "atomic_step w s t"
  then show "\<exists>now. atomic_ok w (new_bucket_at now (rate_limit_per_minute config)) t"
    unfolding atomic_ok_def
    using tasks_ok_atomic [OF step] idle_calls_step [OF step] grants_cover_step [OF step] buckets_step [OF step]
    by blast
qed

text \<open>
  C29. What the operator may remove does not depend on the limiter being asked at once. With the
  calls of all tasks to the limiter interleaved step by step, every deletion or eviction is
  authorised, and together they are at most \<open>RATE_LIMIT_PER_MINUTE\<close> for the start and for each
  refill of the global bucket. No bucket of a policy grants more than its limit for its creation
  and each of its refills.
\<close>

theorem atomic_limiter_removals:
  assumes "atomic_reach w config s"
  shows "(\<forall>r \<in> set (client (shared (base s))). is_removal r \<longrightarrow>
            (\<exists>pod policy i. i < ticks (shared (base s)) \<and> validate_spec (policy_spec policy) = Inr ()
               \<and> authorises w policy pod (clock w i) r))
       \<and> length (filter is_removal (client (shared (base s))))
           \<le> (1 + refills (global s)) * unat (rate_limit_per_minute config)
       \<and> (\<forall>a < length (heap (limits s)).
            grants (limits s) a \<le> (1 + refilled (limits s) a) * unat (max_per_minute (heap (limits s) ! a)))"
proof -
  obtain now where ok: "atomic_ok w (new_bucket_at now (rate_limit_per_minute config)) s"
    using atomic_run.reach_inv assms unfolding atomic_reach_def by blast
  have "\<exists>pod policy i. i < ticks (shared (base s)) \<and> validate_spec (policy_spec policy) = Inr ()
      \<and> authorises w policy pod (clock w i) r" if "r \<in> set (client (shared (base s)))" "is_removal r" for r
    using ok that by (auto simp: atomic_ok_def tasks_ok_def authorised_removal_def validate_spec_Inr)
  moreover have "length (filter is_removal (client (shared (base s))))
      \<le> (1 + refills (global s)) * unat (rate_limit_per_minute config)"
    using ok by (simp add: atomic_ok_def grants_cover_def conserved_def removals_def new_bucket_at_def)
  moreover have "limiter_wf (limits s)" using ok by (simp add: atomic_ok_def)
  ultimately show ?thesis by (auto simp: limiter_wf_def intro: add_leD1)
qed

section \<open>A sample run\<close>

text \<open>A run in which no task is at a limiter.\<close>

fun quiet_events :: "'p World \<Rightarrow> event list \<Rightarrow> 'p tasks_sys \<Rightarrow> 'p tasks_sys option" where
  "quiet_events w [] s = Some s"
| "quiet_events w (e # es) s =
     (if (case e of Run i \<Rightarrow> is_asking (tasks s ! i) | _ \<Rightarrow> False) then None
      else Option.bind (exec_event w e s) (quiet_events w es))"

lemma atomic_reach_step: "atomic_reach w config s \<Longrightarrow> atomic_step w s t \<Longrightarrow> atomic_reach w config t"
  unfolding atomic_reach_def by (rule reach_step)

lemma atomic_reach_quiet:
  "quiet_events w es (base s) = Some b \<Longrightarrow> atomic_reach w config s \<Longrightarrow> atomic_reach w config (s\<lparr>base := b\<rparr>)"
proof (induction es arbitrary: s)
  case (Cons e es)
  obtain b1 where b1: "exec_event w e (base s) = Some b1" "quiet_events w es b1 = Some b"
      and quiet: "\<not> (case e of Run i \<Rightarrow> is_asking (tasks (base s) ! i) | _ \<Rightarrow> False)"
    using Cons.prems(1) by (auto simp: Option.bind_eq_Some_conv split: if_splits)
  have "atomic_step w s (s\<lparr>base := b1\<rparr>)"
    using b1(1) quiet by (intro elsewhere [of w e]) (auto simp: sys_step_exec)
  then have "atomic_reach w config (s\<lparr>base := b1\<rparr>)" by (rule atomic_reach_step [OF Cons.prems(2)])
  then show ?case using Cons.IH [of "s\<lparr>base := b1\<rparr>"] b1(2) by simp
next
  case Nil
  then have "s\<lparr>base := b\<rparr> = s" by (cases s) simp
  then show ?case using Nil.prems(2) by simp
qed

text \<open>A call to the global bucket that is granted, one step after the other.\<close>

lemma global_call_granted:
  assumes "atomic_reach w config s" and "i < length (tasks (base s))"
    and "tasks (base s) ! i = AskingGlobal pod p ps ttl" and "pcs (global s) i = AtStart"
    and secs: "\<And>k. unix_secs (clock w k) = Some (n k)"
    and "\<not> 60 \<le> saturating_sub (n (ticks (shared (base s)))) (last_reset (bucket (global s)))"
    and "0 < tokens (bucket (global s))"
  shows "\<exists>t. atomic_reach w config t \<and> limits t = limits s
     \<and> base t = (base s)\<lparr>shared := tick 4 (shared (base s)), tasks := (tasks (base s))[i := AskingPolicy True pod p ps ttl]\<rparr>"
proof -
  have step: "atomic_reach w config v"
    if "atomic_reach w config u" "bucket_step (\<lambda>_. n (ticks (shared (base u)))) i (global u) b"
      "tasks (base u) = tasks (base s)" "v = u\<lparr>base := passed (base u), global := b\<rparr>" for u v b
    unfolding that(4)
    by (rule atomic_reach_step [OF that(1) in_global]) (use that(2,3) assms(2,3) secs in \<open>simp_all add: now_of_def\<close>)
  let ?at = "\<lambda>k p b. s\<lparr>base := (base s)\<lparr>shared := tick k (shared (base s))\<rparr>,
      global := (global s)\<lparr>pcs := (pcs (global s))(i := p), bucket := b,
        granted := granted (global s) + of_bool (p = Done True)\<rparr>\<rparr>"
  let ?b = "bucket (global s)" and ?now = "n (ticks (shared (base s)))"
  have "atomic_reach w config (?at 1 (LoadReset ?now) ?b)"
    by (rule step [OF assms(1) read_clock]) (simp_all add: assms(4))
  then have "atomic_reach w config (?at 2 LoadTokens ?b)"
    by (rule step [OF _ reset_recent [where now = ?now]]) (use assms(6) in \<open>simp_all add: tick_def\<close>)
  then have "atomic_reach w config (?at 3 (TryTake (tokens ?b)) ?b)"
    by (rule step [OF _ load_tokens]) (simp_all add: tick_def)
  then have granted: "atomic_reach w config (?at 4 (Done True) (?b\<lparr>tokens := tokens ?b - 1\<rparr>))"
    by (rule step [OF _ exchange [where k = "tokens ?b"]]) (use assms(7) in \<open>simp_all add: tick_def\<close>)
  show ?thesis
    by (intro exI conjI, rule atomic_reach_step [OF granted global_answer [of i _ pod p ps ttl True]])
      (use assms(2,3) in simp_all)
qed

text \<open>A call for a policy without a limit, after which the removal is sent.\<close>

lemma unlimited_call_sends:
  assumes reach: "atomic_reach w config s" and i: "i < length (tasks (base s))"
    and t: "tasks (base s) ! i = AskingPolicy True pod p ps ttl"
    and "effective_limit (max_deletes_per_minute (spec_limits (policy_spec p))) = None"
    and "calls (limits s) i = CallStart" and now: "unix_secs (now_of w (shared (base s))) = Some now"
    and r: "deletion_request w pod p = Inr r"
  shows "\<exists>t. atomic_reach w config t \<and> client (shared (base t)) = client (shared (base s)) @ [r]"
proof -
  let ?s1 = "s\<lparr>base := passed (base s), limits := (limits s)\<lparr>calls := (calls (limits s))(i := Returned True)\<rparr>\<rparr>"
  have "limiter_step (\<lambda>j. policy_request now (tasks (base s) ! j)) i (limits s)
      ((limits s)\<lparr>calls := (calls (limits s))(i := Returned True)\<rparr>)"
    by (rule unlimited) (simp_all add: assms(4,5) t)
  then have s1: "atomic_reach w config ?s1" by (rule atomic_reach_step [OF reach in_policy [OF i t now]])
  let ?b2 = "(base ?s1)\<lparr>tasks := (tasks (base ?s1))[i := Sending pod p ps ttl]\<rparr>"
  let ?s2 = "?s1\<lparr>base := ?b2, limits := (limits ?s1)\<lparr>calls := (calls (limits ?s1))(i := CallStart)\<rparr>\<rparr>"
  have "atomic_step w ?s1 ?s2"
    using policy_answer [of i ?s1 True pod p ps ttl True w] i t by simp
  then have s2: "atomic_reach w config ?s2" by (rule atomic_reach_step [OF s1])
  obtain b where b: "quiet_events w [Run i] (base ?s2) = Some b"
      "client (shared b) = client (shared (base s)) @ [r]"
    using i r by simp
  have "atomic_reach w config (?s2\<lparr>base := b\<rparr>)" by (rule atomic_reach_quiet [OF b(1) s2])
  moreover have "client (shared (base (?s2\<lparr>base := b\<rparr>))) = client (shared (base s)) @ [r]" using b(2) by simp
  ultimately show ?thesis by blast
qed

text \<open>The two expired pods of the sample interleaving, up to where both ask the global bucket.\<close>

definition asking_events :: "event list" where
  "asking_events =
     [StoreSync [ttl_policy ''t'' 600], PolicyChange (ttl_policy ''t'' 600)]
     @ replicate 10 (RunPolicy 0 GoOn) @ [
      Spawn (bare_pod ''d'' ''p'' 0), Spawn (bare_pod ''d'' ''q'' 0)]
     @ concat (replicate 4 [Run 0, Run 1])"

fun asks_for :: "'p World \<Rightarrow> task \<Rightarrow> (Request \<times> i32 option) option" where
  "asks_for w (AskingGlobal pod p ps ttl) =
     (case deletion_request w pod p of
        Inr r \<Rightarrow> Some (r, max_deletes_per_minute (spec_limits (policy_spec p)))
      | Inl e \<Rightarrow> None)"
| "asks_for w t = None"

lemma asking_run:
  "Option.bind (start_context sample_world sample_config) (\<lambda>ctx. map_option
      (\<lambda>s. (map (asks_for sample_world) (tasks s), filter is_removal (client (shared s)), ticks (shared s)))
      (quiet_events sample_world asking_events \<lparr>shared = ctx, tasks = [], policy_tasks = []\<rparr>))
     = Some ([Some (DeletePod ''d'' ''p'' (Some 30), None), Some (DeletePod ''d'' ''q'' (Some 30), None)], [], 5)"
  by code_simp

lemma asks_forE:
  assumes "asks_for w t = Some (r, m)"
  obtains pod p ps ttl where "t = AskingGlobal pod p ps ttl" and "deletion_request w pod p = Inr r"
    and "max_deletes_per_minute (spec_limits (policy_spec p)) = m"
  using assms by (cases t) (auto split: sum.splits)

theorem atomic_limiter_removals_witness:
  "\<exists>s. atomic_reach sample_world sample_config s
     \<and> filter is_removal (client (shared (base s))) = [DeletePod ''d'' ''p'' (Some 30)]
     \<and> 1 \<le> (1 + refills (global s)) * unat (rate_limit_per_minute sample_config)"
proof -
  obtain ctx b where ctx: "start_context sample_world sample_config = Some ctx"
    and b: "quiet_events sample_world asking_events \<lparr>shared = ctx, tasks = [], policy_tasks = []\<rparr> = Some b"
    and asks: "map (asks_for sample_world) (tasks b)
      = [Some (DeletePod ''d'' ''p'' (Some 30), None), Some (DeletePod ''d'' ''q'' (Some 30), None)]"
    and none: "filter is_removal (client (shared b)) = []" and ticks: "ticks (shared b) = 5"
    using asking_run by (auto simp: Option.bind_eq_Some_conv)
  let ?start = "\<lparr>base = \<lparr>shared = ctx, tasks = [], policy_tasks = []\<rparr>,
    global = calls_start (global_limiter (rate_limiter ctx)), limits = limiter_start\<rparr>"
  have "atomic_start sample_world sample_config ?start" by (simp add: atomic_start_def sys_start_def ctx)
  then have "atomic_reach sample_world sample_config ?start" unfolding atomic_reach_def by (rule reach_init)
  then have s: "atomic_reach sample_world sample_config (?start\<lparr>base := b\<rparr>)"
    by (intro atomic_reach_quiet) (use b in simp_all)
  have len: "0 < length (tasks b)" and "asks_for sample_world (tasks b ! 0) = Some (DeletePod ''d'' ''p'' (Some 30), None)"
    using asks by (auto simp: map_eq_Cons_conv)
  from asks_forE [OF this(2)] obtain pod p ps ttl where t: "tasks b ! 0 = AskingGlobal pod p ps ttl"
      "deletion_request sample_world pod p = Inr (DeletePod ''d'' ''p'' (Some 30))"
      "max_deletes_per_minute (spec_limits (policy_spec p)) = None" .
  have secs: "unix_secs (clock sample_world k) = Some (word_of_int (1000 + int k))" for k
    by (simp add: sample_world_def unix_secs_def)
  have bucket: "global_limiter (rate_limiter ctx) = new_bucket_at 1000 20"
    using ctx by (auto simp: start_context_def new_limiter_def new_bucket_def secs sample_config_def from_env_def
        env_uint_def split: option.splits)
  obtain u where u: "atomic_reach sample_world sample_config u" "limits u = limiter_start"
      "base u = b\<lparr>shared := tick 4 (shared b), tasks := (tasks b)[0 := AskingPolicy True pod p ps ttl]\<rparr>"
    using global_call_granted [OF s, of 0 pod p ps ttl, OF _ _ _ secs] len t(1)
    by (auto simp: calls_start_def bucket ticks new_bucket_at_def saturating_sub_def)
  obtain v where v: "atomic_reach sample_world sample_config v"
      "client (shared (base v)) = client (shared b) @ [DeletePod ''d'' ''p'' (Some 30)]"
    using unlimited_call_sends [OF u(1), of 0 pod p ps ttl _ "DeletePod ''d'' ''p'' (Some 30)"] len t(2,3) u(2,3)
    by (auto simp: limiter_start_def effective_limit_def now_of_def secs)
  have "filter is_removal (client (shared (base v))) = [DeletePod ''d'' ''p'' (Some 30)]" using v(2) none by simp
  then show ?thesis using atomic_limiter_removals [OF v(1)] v(1) by auto
qed

end
