(* ===== verification/Cel_Concurrency.thy ===== *)
theory Cel_Concurrency
  imports Cel_Engine
begin

text \<open>
  \<open>CelEvaluator\<close> of \<open>src/engine/cel.rs\<close> as several threads use it, without a lock around a call:
  the lookup of an expression, its compilation and the insertion of the program are accesses of
  their own, between which other calls may evaluate, validate or clear. An evaluation needs of
  the cache only the program; running it is \<^const>\<open>run_program\<close>, which shares nothing.
\<close>

section \<open>Calls and their steps\<close>

datatype engine_call = Evaluate string | Validate string | Clear

text \<open>
  Where a call is. A call has entered, has not found its expression, has a program to insert, or
  is at its end: with the program or the error of \<open>evaluate\<close>, or with the result of
  \<open>validate\<close>. A clearing is about to empty the shard of a number, or has emptied all.
\<close>

datatype 'p call_at =
    Entered
  | NotFound
  | Keeping 'p
  | Obtained "'p Result"
  | Checked "unit Result"
  | Sweeping nat
  | Swept

fun call_ended :: "'p call_at \<Rightarrow> bool" where
  "call_ended (Obtained r) = True"
| "call_ended (Checked r) = True"
| "call_ended Swept = True"
| "call_ended pc = False"

text \<open>
  Which expressions a shard of the \<open>DashMap\<close> holds is the map's business, the parameter
  \<open>shard\<close>; \<open>clear\<close> empties the shards one after the other.
\<close>

definition sweep :: "(string \<Rightarrow> nat) \<Rightarrow> nat \<Rightarrow> 'p cache \<Rightarrow> 'p cache" where
  "sweep shard k cache = (\<lambda>expr. if shard expr = k then None else cache expr)"

text \<open>The end of a call that has its program: what the two methods return then.\<close>

fun with_program :: "engine_call \<Rightarrow> 'p \<Rightarrow> 'p call_at" where
  "with_program (Evaluate expr) prog = Obtained (Inr prog)"
| "with_program (Validate expr) prog = Checked (Inr ())"
| "with_program Clear prog = Swept"

fun without_program :: "engine_call \<Rightarrow> string \<Rightarrow> 'p call_at" where
  "without_program (Evaluate expr) e = Obtained (Inl (CelCompilationError e))"
| "without_program (Validate expr) e = Checked (Inl (CelCompilationError e))"
| "without_program Clear e = Swept"

fun call_expr :: "engine_call \<Rightarrow> string" where
  "call_expr (Evaluate expr) = expr"
| "call_expr (Validate expr) = expr"
| "call_expr Clear = []"

fun call_step ::
  "'p cel_lib \<Rightarrow> (string \<Rightarrow> nat) \<Rightarrow> nat \<Rightarrow> engine_call \<Rightarrow> 'p call_at \<Rightarrow> 'p cache \<Rightarrow>
     ('p call_at \<times> 'p cache) option"
where
  "call_step lib shard shards Clear Entered cache = Some (Sweeping 0, cache)"
| "call_step lib shard shards c Entered cache =
     (case cache (call_expr c) of
        Some prog \<Rightarrow> Some (with_program c prog, cache)
      | None \<Rightarrow> Some (NotFound, cache))"
| "call_step lib shard shards c NotFound cache =
     (case compile lib (call_expr c) of
        Inr prog \<Rightarrow> Some (Keeping prog, cache)
      | Inl e \<Rightarrow> Some (without_program c e, cache))"
| "call_step lib shard shards c (Keeping prog) cache =
     Some (with_program c prog, cache(call_expr c \<mapsto> prog))"
| "call_step lib shard shards c (Sweeping k) cache =
     (if k < shards then Some (Sweeping (Suc k), sweep shard k cache) else Some (Swept, cache))"
| "call_step lib shard shards c (Obtained r) cache = None"
| "call_step lib shard shards c (Checked r) cache = None"
| "call_step lib shard shards c Swept cache = None"

section \<open>What a call returns\<close>

text \<open>What a call has to find out about its expression, without a cache.\<close>

definition fresh_program :: "'p cel_lib \<Rightarrow> string \<Rightarrow> 'p Result" where
  "fresh_program lib expr =
     (case compile lib expr of Inl e \<Rightarrow> Inl (CelCompilationError e) | Inr prog \<Rightarrow> Inr prog)"

text \<open>\<open>evaluate\<close> goes on with the program, or returns the error.\<close>

definition verdict_of :: "'p cel_lib \<Rightarrow> instant \<Rightarrow> Pod \<Rightarrow> 'p Result \<Rightarrow> bool Result" where
  "verdict_of lib now pod r = (case r of Inl e \<Rightarrow> Inl e | Inr prog \<Rightarrow> run_program lib prog now pod)"

lemma verdict_of_fresh: "verdict_of lib now pod (fresh_program lib expr) = uncached_evaluate lib now expr pod"
  by (simp add: verdict_of_def fresh_program_def uncached_evaluate_def split: sum.split)

fun call_ok :: "'p cel_lib \<Rightarrow> engine_call \<Rightarrow> 'p call_at \<Rightarrow> bool" where
  "call_ok lib c Entered \<longleftrightarrow> True"
| "call_ok lib c NotFound \<longleftrightarrow> c \<noteq> Clear"
| "call_ok lib c (Keeping prog) \<longleftrightarrow> c \<noteq> Clear \<and> compile lib (call_expr c) = Inr prog"
| "call_ok lib c (Obtained r) \<longleftrightarrow> c = Evaluate (call_expr c) \<and> r = fresh_program lib (call_expr c)"
| "call_ok lib c (Checked r) \<longleftrightarrow>
     c = Validate (call_expr c) \<and> r = map_sum id (\<lambda>_. ()) (fresh_program lib (call_expr c))"
| "call_ok lib c (Sweeping k) \<longleftrightarrow> c = Clear"
| "call_ok lib c Swept \<longleftrightarrow> c = Clear"

lemma call_ok_with_program:
  "c \<noteq> Clear \<Longrightarrow> compile lib (call_expr c) = Inr prog \<Longrightarrow> call_ok lib c (with_program c prog)"
  by (cases c) (simp_all add: fresh_program_def)

lemma call_ok_without_program:
  "c \<noteq> Clear \<Longrightarrow> compile lib (call_expr c) = Inl e \<Longrightarrow> call_ok lib c (without_program c e)"
  by (cases c) (simp_all add: fresh_program_def)

lemma cache_coherent_sweep: "cache_coherent lib cache \<Longrightarrow> cache_coherent lib (sweep shard k cache)"
  by (simp add: cache_coherent_def sweep_def)

text \<open>
  One step of one call, on a cache that others may have changed in whatever way keeps it
  coherent.
\<close>

lemma call_step_ok:
  assumes "call_step lib shard shards c pc cache = Some (pc', cache')"
    and "cache_coherent lib cache" and "call_ok lib c pc"
  shows "cache_coherent lib cache'" and "call_ok lib c pc'"
    and "dom cache' \<subseteq> dom cache \<union> (if c = Clear then {} else {call_expr c})"
proof -
  have "cache_coherent lib cache' \<and> call_ok lib c pc'
      \<and> dom cache' \<subseteq> dom cache \<union> (if c = Clear then {} else {call_expr c})"
  proof (cases pc)
    case Entered
    show ?thesis
    proof (cases c)
      case Clear
      then show ?thesis using assms Entered by auto
    qed (use assms Entered in \<open>auto simp: cache_coherent_def fresh_program_def split: option.splits\<close>)
  next
    case NotFound
    then show ?thesis using assms
      by (auto split: sum.splits intro: call_ok_without_program)
  next
    case (Keeping prog)
    then show ?thesis using assms call_ok_with_program
      by (auto simp: cache_coherent_def split: if_splits)
  next
    case (Sweeping k)
    then show ?thesis using assms
      by (auto simp: sweep_def dom_def intro: cache_coherent_sweep [unfolded sweep_def] split: if_splits)
  qed (use assms in auto)
  then show "cache_coherent lib cache'" and "call_ok lib c pc'"
    and "dom cache' \<subseteq> dom cache \<union> (if c = Clear then {} else {call_expr c})" by simp_all
qed

section \<open>Many calls\<close>

record 'p engine_sys =
  programs :: "'p cache"
  engine_calls :: "nat \<Rightarrow> 'p call_at"

inductive engine_step ::
  "'p cel_lib \<Rightarrow> (string \<Rightarrow> nat) \<Rightarrow> nat \<Rightarrow> (nat \<Rightarrow> engine_call) \<Rightarrow> nat \<Rightarrow> 'p engine_sys \<Rightarrow> 'p engine_sys \<Rightarrow> bool"
  for lib :: "'p cel_lib" and shard :: "string \<Rightarrow> nat" and shards :: nat and req :: "nat \<Rightarrow> engine_call"
  and i :: nat where
  call:
    "call_step lib shard shards (req i) (engine_calls s i) (programs s) = Some (pc, cache) \<Longrightarrow>
     engine_step lib shard shards req i s
       (s\<lparr>programs := cache, engine_calls := (engine_calls s)(i := pc)\<rparr>)"

inductive_cases engine_stepE [consumes 1, case_names call]: "engine_step lib shard shards req i s t"

definition engine_start :: "'p engine_sys" where
  "engine_start = \<lparr>programs = new_cache, engine_calls = (\<lambda>_. Entered)\<rparr>"

definition any_engine_call ::
  "'p cel_lib \<Rightarrow> (string \<Rightarrow> nat) \<Rightarrow> nat \<Rightarrow> (nat \<Rightarrow> engine_call) \<Rightarrow> 'p engine_sys \<Rightarrow> 'p engine_sys \<Rightarrow> bool" where
  "any_engine_call lib shard shards req s t \<longleftrightarrow> (\<exists>i. engine_step lib shard shards req i s t)"

definition engine_ok :: "'p cel_lib \<Rightarrow> (nat \<Rightarrow> engine_call) \<Rightarrow> 'p engine_sys \<Rightarrow> bool" where
  "engine_ok lib req s \<longleftrightarrow>
     cache_coherent lib (programs s) \<and> (\<forall>i. call_ok lib (req i) (engine_calls s i))
   \<and> dom (programs s) \<subseteq> {call_expr (req i) | i. req i \<noteq> Clear}"

lemma engine_ok_step:
  assumes "engine_ok lib req s" and "engine_step lib shard shards req i s t"
  shows "engine_ok lib req t"
  using assms(2)
proof (cases rule: engine_stepE)
  case (call pc cache)
  have "call_ok lib (req i) (engine_calls s i)" using assms(1) by (simp add: engine_ok_def)
  moreover have "cache_coherent lib (programs s)" using assms(1) by (simp add: engine_ok_def)
  ultimately have "cache_coherent lib cache" "call_ok lib (req i) pc"
      "dom cache \<subseteq> dom (programs s) \<union> (if req i = Clear then {} else {call_expr (req i)})"
    using call_step_ok [OF call(2)] by blast+
  moreover from this(3) have "dom cache \<subseteq> {call_expr (req i) | i. req i \<noteq> Clear}"
    using assms(1) by (fastforce simp: engine_ok_def split: if_splits)
  ultimately show ?thesis using assms(1) call(1) by (simp add: engine_ok_def)
qed

interpretation engine: invariant_system "\<lambda>s. s = engine_start" "any_engine_call lib shard shards req"
    "engine_ok lib req"
  for lib :: "'p cel_lib" and shard :: "string \<Rightarrow> nat" and shards :: nat and req :: "nat \<Rightarrow> engine_call"
  by unfold_locales
    (simp add: engine_ok_def engine_start_def new_cache_def cache_coherent_def,
      auto simp: any_engine_call_def intro: engine_ok_step)

text \<open>
  C34. The cache is invisible to concurrent callers: however evaluations, validations and
  clearings interleave, an evaluation that has come through the cache gives, on every pod and at
  every time, what compiling its expression afresh and running it gives; a validation accepts
  exactly the expressions that compile; and the cache never holds anything but the compiled form
  of expressions that some call was about.
\<close>

theorem concurrent_calls_are_uncached:
  assumes "reach (\<lambda>s. s = engine_start) (any_engine_call lib shard shards req) s"
  shows "(\<forall>i expr r now pod. req i = Evaluate expr \<and> engine_calls s i = Obtained r \<longrightarrow>
             verdict_of lib now pod r = uncached_evaluate lib now expr pod)
       \<and> (\<forall>i expr r. req i = Validate expr \<and> engine_calls s i = Checked r \<longrightarrow>
             (r = Inr () \<longleftrightarrow> (\<exists>prog. compile lib expr = Inr prog)))
       \<and> (\<forall>expr prog. programs s expr = Some prog \<longrightarrow>
             compile lib expr = Inr prog \<and> (\<exists>i. req i = Evaluate expr \<or> req i = Validate expr))"
proof (intro conjI allI impI; (elim conjE)?)
  have ok: "engine_ok lib req s" by (rule engine.reach_inv [OF assms])
  show "verdict_of lib now pod r = uncached_evaluate lib now expr pod"
    if "req i = Evaluate expr" "engine_calls s i = Obtained r" for i expr r now pod
    using ok that verdict_of_fresh [of lib now pod expr] by (auto simp: engine_ok_def dest!: spec [of _ i])
  show "r = Inr () \<longleftrightarrow> (\<exists>prog. compile lib expr = Inr prog)"
    if "req i = Validate expr" "engine_calls s i = Checked r" for i expr r
    using ok that
    by (cases "compile lib expr") (auto simp: engine_ok_def fresh_program_def dest!: spec [of _ i])
  fix expr prog
  assume held: "programs s expr = Some prog"
  then show "compile lib expr = Inr prog" using ok by (simp add: engine_ok_def cache_coherent_def)
  obtain i where "expr = call_expr (req i)" "req i \<noteq> Clear" using ok held by (auto simp: engine_ok_def)
  then show "\<exists>i. req i = Evaluate expr \<or> req i = Validate expr" by (cases "req i") auto
qed

text \<open>
  For the witness: two evaluations of one expression that both miss the cache, and a clearing
  between their insertions.
\<close>

fun engine_exec ::
  "'p cel_lib \<Rightarrow> (string \<Rightarrow> nat) \<Rightarrow> nat \<Rightarrow> (nat \<Rightarrow> engine_call) \<Rightarrow> nat list \<Rightarrow> 'p engine_sys \<Rightarrow> 'p engine_sys option"
where
  "engine_exec lib shard shards req [] s = Some s"
| "engine_exec lib shard shards req (i # is) s =
     (case call_step lib shard shards (req i) (engine_calls s i) (programs s) of
        None \<Rightarrow> None
      | Some (pc, cache) \<Rightarrow> engine_exec lib shard shards req is
          (s\<lparr>programs := cache, engine_calls := (engine_calls s)(i := pc)\<rparr>))"

lemma engine_exec_reach:
  "engine_exec lib shard shards req is s = Some t \<Longrightarrow>
     reach init (any_engine_call lib shard shards req) s \<Longrightarrow>
     reach init (any_engine_call lib shard shards req) t"
proof (induction "is" arbitrary: s)
  case (Cons i "is")
  then obtain pc cache where
    c: "call_step lib shard shards (req i) (engine_calls s i) (programs s) = Some (pc, cache)"
    by (auto split: option.splits)
  then have "any_engine_call lib shard shards req s
      (s\<lparr>programs := cache, engine_calls := (engine_calls s)(i := pc)\<rparr>)"
    by (auto simp: any_engine_call_def intro: engine_step.call)
  then show ?case using Cons c by (auto intro: reach_step)
qed simp

definition racing_calls :: "nat \<Rightarrow> engine_call" where
  "racing_calls i = (if i = 2 then Clear else Evaluate ''age'')"

theorem concurrent_calls_are_uncached_witness:
  "\<exists>s r. reach (\<lambda>s. s = engine_start) (any_engine_call var_lib (\<lambda>_. 0) 1 racing_calls) s
     \<and> engine_calls s 1 = Obtained r \<and> programs s ''age'' \<noteq> None
     \<and> verdict_of var_lib 0 (bare_pod ''d'' ''p'' 0) r = uncached_evaluate var_lib 0 ''age'' (bare_pod ''d'' ''p'' 0)"
proof -
  let ?run = "engine_exec var_lib (\<lambda>_. 0) 1 racing_calls [0, 1, 0, 1, 0, 2, 2, 2, 1] engine_start"
  have "map_option (\<lambda>s. (engine_calls s 1, engine_calls s 2, programs s ''age'')) ?run
      = Some (Obtained (Inr ''age''), Swept, Some ''age'')"
    by (simp add: racing_calls_def engine_start_def new_cache_def var_lib_def sweep_def)
  then obtain s where s: "?run = Some s" "engine_calls s 1 = Obtained (Inr ''age'')"
      "programs s ''age'' = Some ''age''" by auto
  have "reach (\<lambda>s. s = engine_start) (any_engine_call var_lib (\<lambda>_. 0) 1 racing_calls) s"
    by (rule engine_exec_reach [OF s(1) reach_start])
  moreover have "racing_calls 1 = Evaluate ''age''" by (simp add: racing_calls_def)
  then have "verdict_of var_lib 0 (bare_pod ''d'' ''p'' 0) (Inr ''age'')
      = uncached_evaluate var_lib 0 ''age'' (bare_pod ''d'' ''p'' 0)"
    using concurrent_calls_are_uncached [OF calculation] s(2) by blast
  ultimately show ?thesis using s(2,3) by blast
qed

section \<open>Every call ends\<close>

fun call_left :: "nat \<Rightarrow> engine_call \<Rightarrow> 'p call_at \<Rightarrow> nat" where
  "call_left shards c Entered = (if c = Clear then shards + 2 else 3)"
| "call_left shards c NotFound = 2"
| "call_left shards c (Keeping prog) = 1"
| "call_left shards c (Sweeping k) = shards - k + 1"
| "call_left shards c pc = 0"

lemma call_left_ended [simp]:
  "call_left shards c (with_program c' prog) = 0" "call_left shards c (without_program c' e) = 0"
  by (cases c'; simp)+

lemma call_step_decreases:
  "call_step lib shard shards c pc cache = Some (pc', cache') \<Longrightarrow>
     call_left shards c pc' < call_left shards c pc"
  by (induction lib shard shards c pc cache rule: call_step.induct)
    (auto split: option.splits sum.splits if_splits)

lemma call_step_possible: "call_step lib shard shards c pc cache = None \<longleftrightarrow> call_ended pc"
  by (induction lib shard shards c pc cache rule: call_step.induct) (auto split: option.splits sum.splits)

section \<open>A call on its own\<close>

text \<open>A call stepped to its end.\<close>

function run_call ::
  "'p cel_lib \<Rightarrow> (string \<Rightarrow> nat) \<Rightarrow> nat \<Rightarrow> engine_call \<Rightarrow> 'p call_at \<Rightarrow> 'p cache \<Rightarrow> 'p call_at \<times> 'p cache"
where
  "run_call lib shard shards c pc cache =
     (case call_step lib shard shards c pc cache of
        None \<Rightarrow> (pc, cache)
      | Some (pc', cache') \<Rightarrow> run_call lib shard shards c pc' cache')"
  by pat_completeness auto
termination
  by (relation "measure (\<lambda>(lib, shard, shards, c, pc, cache). call_left shards c pc)")
    (auto dest: call_step_decreases)

declare run_call.simps [simp del]

lemma run_call_ended: "call_ended pc \<Longrightarrow> run_call lib shard shards c pc cache = (pc, cache)"
  by (subst run_call.simps) (simp add: call_step_possible [THEN iffD2])

lemma run_call_step:
  "call_step lib shard shards c pc cache = Some (pc', cache') \<Longrightarrow>
     run_call lib shard shards c pc cache = run_call lib shard shards c pc' cache'"
  by (subst run_call.simps) simp

lemma run_call_program:
  "run_call lib shard shards c (with_program c prog) cache = (with_program c prog, cache)"
  "run_call lib shard shards c (without_program c e) cache = (without_program c e, cache)"
  by (cases c; simp add: run_call_ended)+

lemma run_call_lookup:
  assumes "c \<noteq> Clear"
  shows "run_call lib shard shards c Entered cache =
     (case cache (call_expr c) of
        Some prog \<Rightarrow> (with_program c prog, cache)
      | None \<Rightarrow>
          (case compile lib (call_expr c) of
             Inr prog \<Rightarrow> (with_program c prog, cache(call_expr c \<mapsto> prog))
           | Inl e \<Rightarrow> (without_program c e, cache)))"
proof -
  have entered: "call_step lib shard shards c Entered cache =
      (case cache (call_expr c) of Some prog \<Rightarrow> Some (with_program c prog, cache)
       | None \<Rightarrow> Some (NotFound, cache))"
    using assms by (cases c; cases "cache (call_expr c)") simp_all
  show ?thesis
    by (cases "cache (call_expr c)"; cases "compile lib (call_expr c)")
      (simp_all add: entered run_call_step run_call_program)
qed

lemma run_call_sweeping:
  assumes "\<forall>expr. shard expr < k \<longrightarrow> cache expr = None" and "\<forall>expr. shard expr < shards" and "k \<le> shards"
  shows "run_call lib shard shards Clear (Sweeping k) cache = (Swept, clear_cache cache)"
  using assms
proof (induction "shards - k" arbitrary: k cache)
  case 0
  then have "cache = Map.empty" by (auto simp: fun_eq_iff)
  then show ?case using 0 by (simp add: run_call_step run_call_ended clear_cache_def)
next
  case (Suc n)
  have "\<forall>expr. shard expr < Suc k \<longrightarrow> sweep shard k cache expr = None"
    using Suc.prems(1) by (auto simp: sweep_def less_Suc_eq)
  then have "run_call lib shard shards Clear (Sweeping (Suc k)) (sweep shard k cache)
      = (Swept, clear_cache (sweep shard k cache))"
    using Suc by simp
  moreover have "k < shards" using Suc.hyps(2) by simp
  ultimately show ?case by (simp add: run_call_step clear_cache_def)
qed

text \<open>
  Calls that nothing interleaves compute the functions \<^const>\<open>evaluate\<close>,
  \<^const>\<open>validate_expr\<close> and \<^const>\<open>clear_cache\<close>, the cache they leave included.
\<close>

theorem solo_calls_are_sequential:
  "run_call lib shard shards (Evaluate expr) Entered cache
     = (Obtained (fst (get_or_compile lib expr cache)), snd (evaluate lib now expr pod cache))
 \<and> verdict_of lib now pod (fst (get_or_compile lib expr cache)) = fst (evaluate lib now expr pod cache)
 \<and> run_call lib shard shards (Validate expr) Entered cache
     = (Checked (fst (validate_expr lib expr cache)), snd (validate_expr lib expr cache))
 \<and> ((\<forall>e. shard e < shards) \<longrightarrow>
     run_call lib shard shards Clear Entered cache = (Swept, clear_cache cache))"
  using run_call_sweeping [of shard 0 cache shards lib]
  by (auto simp: run_call_lookup run_call_step get_or_compile_def evaluate_def validate_expr_def verdict_of_def
      split: option.split sum.split)

end
