(* ===== verification/Task_Engine.thy ===== *)
theory Task_Engine
  imports Task_System Cel_Concurrency
begin

text \<open>
  The interleaved reconciliations with the evaluator taken apart: where a task of Pod_Tasks or
  Policy_Tasks evaluates or validates a CEL expression in one step, the accesses of the call to the
  cache of programs are here steps of the task, and the calls of all tasks interleave. Nothing
  new can happen by this: up to the contents of the cache, every history is one in which the
  evaluator is asked at once.
\<close>

section \<open>The system\<close>

text \<open>The calls that the tasks have under way, by the tasks' numbers.\<close>

record 'p split_sys =
  system :: "'p tasks_sys"
  pod_calls :: "nat \<Rightarrow> 'p call_at"
  policy_calls :: "nat \<Rightarrow> 'p call_at"

definition cel_expression :: "DepodPolicy \<Rightarrow> string option" where
  "cel_expression policy =
     (if condition_type (spec_when (policy_spec policy)) = CEL
      then expression (spec_when (policy_spec policy)) else None)"

text \<open>The expression with which a task is about to call the evaluator.\<close>

fun pod_call :: "task \<Rightarrow> string option" where
  "pod_call (Evaluating pod policy rest ttl) = cel_expression policy"
| "pod_call t = None"

fun policy_call_expr :: "policy_task \<Rightarrow> string option" where
  "policy_call_expr (PolicyCalled policy) =
     (if validate_spec (policy_spec policy) = Inr () then cel_expression policy else None)"
| "policy_call_expr t = None"

text \<open>
  How the two reconciliations go on with what the evaluator returned; the clock is read when the
  program is run.
\<close>

definition evaluation_returned ::
  "'p World \<Rightarrow> 'p Result \<Rightarrow> Pod \<Rightarrow> DepodPolicy \<Rightarrow> DepodPolicy list \<Rightarrow> u64 option \<Rightarrow> 'p Context \<Rightarrow> task \<times> 'p Context"
where
  "evaluation_returned w r pod policy rest ttl_requeue ctx =
     (case verdict_of (cel w) (now_of w ctx) pod r of
        Inr met \<Rightarrow>
          (if \<not> met then Looping pod rest ttl_requeue
           else if protected_by pod policy then Looping pod rest ttl_requeue
           else if dry_run (spec_then (policy_spec policy)) then Looping pod rest ttl_requeue
           else AskingGlobal pod policy rest ttl_requeue, tick 1 ctx)
      | Inl _ \<Rightarrow> (Looping pod rest ttl_requeue, count_event EvaluationErrors (tick 1 ctx)))"

definition validation_returned :: "unit Result \<Rightarrow> DepodPolicy \<Rightarrow> policy_task" where
  "validation_returned r policy =
     (case r of
        Inl e \<Rightarrow>
          (if failure_unreported ''InvalidCEL'' (cel_message e) (policy_status policy)
           then Reporting policy (BadCel (cel_message e)) else PolicyDone (Inr AwaitChange))
      | Inr _ \<Rightarrow> Refreshing policy)"

abbreviation with_cache :: "'p cache \<Rightarrow> 'p tasks_sys \<Rightarrow> 'p tasks_sys" where
  "with_cache c s \<equiv> s\<lparr>shared := (shared s)\<lparr>evaluator := c\<rparr>\<rparr>"

text \<open>The operator never clears the cache, so the shards do not matter.\<close>

abbreviation lookup_step ::
  "'p World \<Rightarrow> engine_call \<Rightarrow> 'p call_at \<Rightarrow> 'p cache \<Rightarrow> ('p call_at \<times> 'p cache) option" where
  "lookup_step w \<equiv> call_step (cel w) (\<lambda>_. 0) 0"

inductive split_step :: "'p World \<Rightarrow> 'p split_sys \<Rightarrow> 'p split_sys \<Rightarrow> bool" for w :: "'p World" where
  elsewhere:
    "sys_step w e (system s) t \<Longrightarrow>
     (\<forall>i. e = Run i \<longrightarrow> pod_call (tasks (system s) ! i) = None) \<Longrightarrow>
     (\<forall>j. (\<exists>c. e = RunPolicy j c) \<longrightarrow> policy_call_expr (policy_tasks (system s) ! j) = None) \<Longrightarrow>
     split_step w s (s\<lparr>system := t\<rparr>)"
| in_evaluate:
    "i < length (tasks (system s)) \<Longrightarrow> pod_call (tasks (system s) ! i) = Some expr \<Longrightarrow>
     lookup_step w (Evaluate expr) (pod_calls s i) (evaluator (shared (system s))) = Some (pc, cache) \<Longrightarrow>
     split_step w s (s\<lparr>system := with_cache cache (system s), pod_calls := (pod_calls s)(i := pc)\<rparr>)"
| evaluated:
    "i < length (tasks (system s)) \<Longrightarrow> tasks (system s) ! i = Evaluating pod policy rest ttl \<Longrightarrow>
     pod_calls s i = Obtained r \<Longrightarrow>
     evaluation_returned w r pod policy rest ttl (shared (system s)) = (t, ctx) \<Longrightarrow>
     split_step w s (s\<lparr>system := (system s)\<lparr>shared := ctx, tasks := (tasks (system s))[i := t]\<rparr>,
       pod_calls := (pod_calls s)(i := Entered)\<rparr>)"
| in_validate:
    "j < length (policy_tasks (system s)) \<Longrightarrow>
     policy_call_expr (policy_tasks (system s) ! j) = Some expr \<Longrightarrow>
     lookup_step w (Validate expr) (policy_calls s j) (evaluator (shared (system s))) = Some (pc, cache) \<Longrightarrow>
     split_step w s (s\<lparr>system := with_cache cache (system s), policy_calls := (policy_calls s)(j := pc)\<rparr>)"
| validated:
    "j < length (policy_tasks (system s)) \<Longrightarrow> policy_tasks (system s) ! j = PolicyCalled policy \<Longrightarrow>
     policy_calls s j = Checked r \<Longrightarrow>
     split_step w s (s\<lparr>
       system := (system s)\<lparr>policy_tasks := (policy_tasks (system s))[j := validation_returned r policy]\<rparr>,
       policy_calls := (policy_calls s)(j := Entered)\<rparr>)"

inductive_cases split_stepE
  [consumes 1, case_names elsewhere in_evaluate evaluated in_validate validated]: "split_step w s s'"

definition split_start :: "'p World \<Rightarrow> Config \<Rightarrow> 'p split_sys \<Rightarrow> bool" where
  "split_start w config s \<longleftrightarrow>
     sys_start w config (system s) \<and> pod_calls s = (\<lambda>_. Entered) \<and> policy_calls s = (\<lambda>_. Entered)"

section \<open>Steps that do not ask the evaluator\<close>

lemma ask_global_cache:
  "ask_global w (ctx\<lparr>evaluator := c\<rparr>) = map_option (\<lambda>(g, ctx'). (g, ctx'\<lparr>evaluator := c\<rparr>)) (ask_global w ctx)"
  by (simp add: ask_global_def now_of_def tick_def split: option.split)

lemma ask_policy_cache:
  "ask_policy w name limit (ctx\<lparr>evaluator := c\<rparr>)
     = map_option (\<lambda>(g, ctx'). (g, ctx'\<lparr>evaluator := c\<rparr>)) (ask_policy w name limit ctx)"
  by (simp add: ask_policy_def tick_def split: option.split)

lemma count_event_cache: "count_event e (ctx\<lparr>evaluator := c\<rparr>) = (count_event e ctx)\<lparr>evaluator := c\<rparr>"
  by (simp add: count_event_def)

lemma send_cache: "send r (ctx\<lparr>evaluator := c\<rparr>) = (send r ctx)\<lparr>evaluator := c\<rparr>"
  by (simp add: send_def)

lemma tick_cache: "tick n (ctx\<lparr>evaluator := c\<rparr>) = (tick n ctx)\<lparr>evaluator := c\<rparr>"
  by (simp add: tick_def)

lemma now_of_cache: "now_of w (ctx\<lparr>evaluator := c\<rparr>) = now_of w ctx"
  by (simp add: now_of_def)

lemmas cache_commutes = ask_global_cache ask_policy_cache count_event_cache send_cache tick_cache now_of_cache

lemma builtin_condition_cache:
  "builtin_condition w pod policy ttl (ctx\<lparr>evaluator := c\<rparr>)
     = (case builtin_condition w pod policy ttl ctx of (met, ttl', ctx') \<Rightarrow> (met, ttl', ctx'\<lparr>evaluator := c\<rparr>))"
  by (auto simp: builtin_condition_def cache_commutes Let_def split: option.split)

lemma evaluate_step_cache:
  assumes "cel_expression policy = None"
  shows "evaluate_step w pod policy rest ttl (ctx\<lparr>evaluator := c\<rparr>)
     = (case evaluate_step w pod policy rest ttl ctx of (t, ctx') \<Rightarrow> (t, ctx'\<lparr>evaluator := c\<rparr>))"
  using assms
  by (auto simp: evaluate_step_def condition_met_def cel_expression_def cel_condition_def
      builtin_condition_cache count_event_cache Let_def split: ConditionType.split prod.split if_splits)

lemma task_step_cache:
  assumes "pod_call t = None"
  shows "task_step w t (ctx\<lparr>evaluator := c\<rparr>)
     = map_option (\<lambda>(t', ctx'). (t', ctx'\<lparr>evaluator := c\<rparr>)) (task_step w t ctx)"
proof (cases t)
  case (Looping pod ps ttl)
  then show ?thesis by (cases ps) (simp_all add: cache_commutes final_action_def split: option.split)
next
  case (Evaluating pod policy rest ttl)
  then show ?thesis using assms by (simp add: evaluate_step_cache split: prod.split)
qed (simp_all add: cache_commutes split: option.split sum.split prod.split)

lemma update_policy_status_cache:
  "snd (update_policy_status w name ns cond (ctx\<lparr>evaluator := c\<rparr>))
     = (snd (update_policy_status w name ns cond ctx))\<lparr>evaluator := c\<rparr>"
  by (simp add: update_policy_status_def send_cache Let_def split: sum.split)

lemma validation_step_cache:
  assumes "policy_call_expr (PolicyCalled policy) = None"
  shows "validation_step w policy (ctx\<lparr>evaluator := c\<rparr>)
     = (case validation_step w policy ctx of (t, ctx') \<Rightarrow> (t, ctx'\<lparr>evaluator := c\<rparr>))"
  using assms
  by (auto simp: validation_step_def validate_policy_cel_def cel_expression_def
      split: sum.splits option.splits if_splits)

lemma policy_step_cache:
  assumes "policy_call_expr t = None"
  shows "policy_step w g t (ctx\<lparr>evaluator := c\<rparr>)
     = map_option (\<lambda>(t', ctx'). (t', ctx'\<lparr>evaluator := c\<rparr>)) (policy_step w g t ctx)"
proof (cases g)
  case GoOn
  show ?thesis
  proof (cases t)
    case (PolicyCalled policy)
    then show ?thesis using assms GoOn
      by (simp add: validation_step_cache del: policy_call_expr.simps split: prod.split)
  next
    case (Listing policy patch ts)
    then show ?thesis using GoOn by (cases ts) (simp_all add: send_cache Let_def)
  next
    case (Touching policy patch ns pods pending ts)
    then show ?thesis using GoOn by (cases pods) (simp_all add: send_cache Let_def)
  qed (use GoOn in \<open>simp_all add: cache_commutes update_policy_status_cache Let_def split: sum.split\<close>)
next
  case (PatchAnswered k)
  then show ?thesis by (cases t) simp_all
qed

text \<open>What does not ask the evaluator does the same whatever the cache holds, and leaves it alone.\<close>

lemma exec_event_cache:
  assumes "\<forall>i. e = Run i \<longrightarrow> pod_call (tasks s ! i) = None"
    and "\<forall>j. (\<exists>g. e = RunPolicy j g) \<longrightarrow> policy_call_expr (policy_tasks s ! j) = None"
  shows "exec_event w e (with_cache c s) = map_option (with_cache c) (exec_event w e s)"
proof (cases e)
  case (Run i)
  then show ?thesis using assms(1) by (simp add: task_step_cache split: option.split)
next
  case (RunPolicy j g)
  then show ?thesis using assms(2) by (simp add: policy_step_cache split: option.split)
qed simp_all

section \<open>Steps that do\<close>

lemma evaluate_step_returned:
  assumes "cache_coherent (cel w) (evaluator ctx)" and "cel_expression policy = Some expr"
    and "evaluation_returned w (fresh_program (cel w) expr) pod policy rest ttl (ctx\<lparr>evaluator := c\<rparr>) = (t, ctx')"
  obtains c' where "cache_coherent (cel w) c'"
    and "evaluate_step w pod policy rest ttl ctx = (t, ctx'\<lparr>evaluator := c'\<rparr>)"
proof -
  have cel: "condition_type (spec_when (policy_spec policy)) = CEL"
    and expr: "expression (spec_when (policy_spec policy)) = Some expr"
    using assms(2) by (auto simp: cel_expression_def split: if_splits)
  obtain verdict c' where e: "evaluate (cel w) (now_of w ctx) expr pod (evaluator ctx) = (verdict, c')"
    by (cases "evaluate (cel w) (now_of w ctx) expr pod (evaluator ctx)")
  have v: "verdict = verdict_of (cel w) (now_of w ctx) pod (fresh_program (cel w) expr)"
    using evaluate_uncached [OF assms(1), of "now_of w ctx" expr pod] e by (simp add: verdict_of_fresh)
  have "cache_coherent (cel w) c'"
    using cache_coherent_update [OF assms(1), of expr] evaluate_cache [OF assms(1), of "now_of w ctx" expr pod] e
    by simp
  moreover have "evaluate_step w pod policy rest ttl ctx = (t, ctx'\<lparr>evaluator := c'\<rparr>)"
    using assms(3)
    by (cases verdict)
      (auto simp: evaluate_step_def condition_met_def cel cel_condition_def expr e evaluation_returned_def v
        cache_commutes Let_def split: if_splits Error.split)
  ultimately show thesis by (rule that)
qed

lemma validation_step_returned:
  assumes "cache_coherent (cel w) (evaluator ctx)" and "policy_call_expr (PolicyCalled policy) = Some expr"
  obtains c' where "cache_coherent (cel w) c'"
    and "validation_step w policy ctx
      = (validation_returned (map_sum id (\<lambda>_. ()) (fresh_program (cel w) expr)) policy, ctx\<lparr>evaluator := c'\<rparr>)"
proof -
  have ok: "validate_spec (policy_spec policy) = Inr ()"
    and cel: "condition_type (spec_when (policy_spec policy)) = CEL"
    and expr: "expression (spec_when (policy_spec policy)) = Some expr"
    using assms(2) by (auto simp: cel_expression_def split: if_splits)
  obtain r c' where e: "validate_expr (cel w) expr (evaluator ctx) = (r, c')"
    by (cases "validate_expr (cel w) expr (evaluator ctx)")
  have r: "r = map_sum id (\<lambda>_. ()) (fresh_program (cel w) expr)"
    using validate_compile [OF assms(1), of expr] e by (simp add: fresh_program_def split: sum.split)
  have "cache_coherent (cel w) c'"
    using cache_coherent_update [OF assms(1), of expr] validate_cache [OF assms(1), of expr] e by simp
  moreover have "validation_step w policy ctx = (validation_returned r policy, ctx\<lparr>evaluator := c'\<rparr>)"
    by (cases r) (simp_all add: validation_step_def ok validate_policy_cel_def expr cel e validation_returned_def)
  ultimately show thesis using that r by blast
qed

section \<open>The refinement\<close>

text \<open>The calls under way are right for their tasks, and a task that makes none is not in one.\<close>

definition calls_ok ::
  "'p World \<Rightarrow> (string \<Rightarrow> engine_call) \<Rightarrow> ('t \<Rightarrow> string option) \<Rightarrow> 't list \<Rightarrow> (nat \<Rightarrow> 'p call_at) \<Rightarrow> bool" where
  "calls_ok w call expr_of ts calls \<longleftrightarrow>
     (\<forall>i. calls i \<noteq> Entered \<longrightarrow> i < length ts
        \<and> (\<exists>expr. expr_of (ts ! i) = Some expr \<and> call_ok (cel w) (call expr) (calls i)))"

lemma calls_okD:
  assumes "calls_ok w call expr_of ts calls" and "calls i \<noteq> Entered"
  obtains expr where "expr_of (ts ! i) = Some expr" and "call_ok (cel w) (call expr) (calls i)"
  using assms by (auto simp: calls_ok_def)

lemma calls_ok_append: "calls_ok w call expr_of ts calls \<Longrightarrow> calls_ok w call expr_of (ts @ us) calls"
  by (auto simp: calls_ok_def nth_append)

lemma calls_ok_other:
  assumes "calls_ok w call expr_of ts calls" and "expr_of (ts ! i) = None"
  shows "calls_ok w call expr_of (ts[i := t]) calls"
  using assms unfolding calls_ok_def by (metis length_list_update nth_list_update_neq option.distinct(1))

lemma calls_ok_return:
  assumes "calls_ok w call expr_of ts calls"
  shows "calls_ok w call expr_of (ts[i := t]) (calls(i := Entered))"
  using assms by (auto simp: calls_ok_def nth_list_update)

lemma calls_ok_call:
  assumes "calls_ok w call expr_of ts calls" and "i < length ts" and "expr_of (ts ! i) = Some expr"
    and "call_ok (cel w) (call expr) pc"
  shows "calls_ok w call expr_of ts (calls(i := pc))"
  using assms by (auto simp: calls_ok_def)

lemma calls_ok_now:
  assumes "calls_ok w call expr_of ts calls" and "expr_of (ts ! i) = Some expr"
  shows "call_ok (cel w) (call expr) (calls i)"
  using assms by (cases "calls i = Entered") (auto simp: calls_ok_def)

definition split_ok :: "'p World \<Rightarrow> Config \<Rightarrow> 'p split_sys \<Rightarrow> bool" where
  "split_ok w config s \<longleftrightarrow>
     (\<exists>c. cache_coherent (cel w) c \<and> sys_reach w config (with_cache c (system s)))
   \<and> cache_coherent (cel w) (evaluator (shared (system s)))
   \<and> calls_ok w Evaluate pod_call (tasks (system s)) (pod_calls s)
   \<and> calls_ok w Validate policy_call_expr (policy_tasks (system s)) (policy_calls s)"

lemma split_okI:
  assumes "cache_coherent (cel w) c" and "sys_reach w config (with_cache c (system s))"
    and "cache_coherent (cel w) (evaluator (shared (system s)))"
    and "calls_ok w Evaluate pod_call (tasks (system s)) (pod_calls s)"
    and "calls_ok w Validate policy_call_expr (policy_tasks (system s)) (policy_calls s)"
  shows "split_ok w config s"
  using assms by (auto simp: split_ok_def)

lemma split_okE:
  assumes "split_ok w config s"
  obtains c where "cache_coherent (cel w) c" and "sys_reach w config (with_cache c (system s))"
    and "cache_coherent (cel w) (evaluator (shared (system s)))"
    and "calls_ok w Evaluate pod_call (tasks (system s)) (pod_calls s)"
    and "calls_ok w Validate policy_call_expr (policy_tasks (system s)) (policy_calls s)"
  using assms by (auto simp: split_ok_def)

lemma coherent_call:
  assumes "lookup_step w call pc cache = Some (pc', cache')"
    and "cache_coherent (cel w) cache" and "call_ok (cel w) call pc"
  shows "cache_coherent (cel w) cache'" and "call_ok (cel w) call pc'"
  using call_step_ok [OF assms] by blast+

lemma sys_reach_exec: "sys_reach w config s \<Longrightarrow> exec_event w e s = Some t \<Longrightarrow> sys_reach w config t"
  using sys_reach_run [of w "[e]" s t config] by (auto simp: sys_run_exec)

lemma exec_event_same_cache:
  assumes "exec_event w e s = Some t" and "\<forall>i. e = Run i \<longrightarrow> pod_call (tasks s ! i) = None"
    and "\<forall>j. (\<exists>g. e = RunPolicy j g) \<longrightarrow> policy_call_expr (policy_tasks s ! j) = None"
  shows "evaluator (shared t) = evaluator (shared s)"
proof -
  have "t = with_cache (evaluator (shared s)) t"
    using exec_event_cache [OF assms(2,3), of w "evaluator (shared s)"] assms(1) by simp
  then have "evaluator (shared t) = evaluator (shared (with_cache (evaluator (shared s)) t))" by (rule arg_cong)
  then show ?thesis by simp
qed

lemma calls_ok_elsewhere:
  assumes "sys_step w e s t" and "\<forall>i. e = Run i \<longrightarrow> pod_call (tasks s ! i) = None"
    and "\<forall>j. (\<exists>g. e = RunPolicy j g) \<longrightarrow> policy_call_expr (policy_tasks s ! j) = None"
    and "calls_ok w Evaluate pod_call (tasks s) calls" and "calls_ok w Validate policy_call_expr (policy_tasks s) calls'"
  shows "calls_ok w Evaluate pod_call (tasks t) calls" and "calls_ok w Validate policy_call_expr (policy_tasks t) calls'"
  using assms(1)
  by (cases rule: sys_stepE; use assms(2-5) in \<open>simp add: calls_ok_append calls_ok_other\<close>)+

lemma split_ok_elsewhere:
  assumes "split_ok w config s" and "sys_step w e (system s) t"
    and "\<forall>i. e = Run i \<longrightarrow> pod_call (tasks (system s) ! i) = None"
    and "\<forall>j. (\<exists>g. e = RunPolicy j g) \<longrightarrow> policy_call_expr (policy_tasks (system s) ! j) = None"
  shows "split_ok w config (s\<lparr>system := t\<rparr>)"
proof -
  obtain c where c: "cache_coherent (cel w) c" and r: "sys_reach w config (with_cache c (system s))"
    and now: "cache_coherent (cel w) (evaluator (shared (system s)))"
    and calls: "calls_ok w Evaluate pod_call (tasks (system s)) (pod_calls s)"
      "calls_ok w Validate policy_call_expr (policy_tasks (system s)) (policy_calls s)"
    using assms(1) by (rule split_okE)
  have t: "exec_event w e (system s) = Some t" using assms(2) by (simp add: sys_step_exec)
  then have "exec_event w e (with_cache c (system s)) = Some (with_cache c t)"
    using exec_event_cache [OF assms(3,4), of w c] by simp
  then have "sys_reach w config (with_cache c t)" by (rule sys_reach_exec [OF r])
  then show ?thesis
    by (intro split_okI [OF c])
      (simp_all add: exec_event_same_cache [OF t assms(3,4)] now calls_ok_elsewhere [OF assms(2-4) calls])
qed

lemma split_ok_lookup:
  assumes "split_ok w config s" and "i < length (tasks (system s))"
    and "pod_call (tasks (system s) ! i) = Some expr"
    and "lookup_step w (Evaluate expr) (pod_calls s i) (evaluator (shared (system s))) = Some (pc, cache)"
  shows "split_ok w config (s\<lparr>system := with_cache cache (system s), pod_calls := (pod_calls s)(i := pc)\<rparr>)"
proof -
  obtain c where c: "cache_coherent (cel w) c" and r: "sys_reach w config (with_cache c (system s))"
    and now: "cache_coherent (cel w) (evaluator (shared (system s)))"
    and pods: "calls_ok w Evaluate pod_call (tasks (system s)) (pod_calls s)"
    and pols: "calls_ok w Validate policy_call_expr (policy_tasks (system s)) (policy_calls s)"
    using assms(1) by (rule split_okE)
  note call = coherent_call [OF assms(4) now calls_ok_now [OF pods assms(3)]]
  show ?thesis
    by (intro split_okI [OF c]) (simp_all add: r call pols calls_ok_call [OF pods assms(2,3)])
qed

lemma split_ok_check:
  assumes "split_ok w config s" and "j < length (policy_tasks (system s))"
    and "policy_call_expr (policy_tasks (system s) ! j) = Some expr"
    and "lookup_step w (Validate expr) (policy_calls s j) (evaluator (shared (system s))) = Some (pc, cache)"
  shows "split_ok w config (s\<lparr>system := with_cache cache (system s), policy_calls := (policy_calls s)(j := pc)\<rparr>)"
proof -
  obtain c where c: "cache_coherent (cel w) c" and r: "sys_reach w config (with_cache c (system s))"
    and now: "cache_coherent (cel w) (evaluator (shared (system s)))"
    and pods: "calls_ok w Evaluate pod_call (tasks (system s)) (pod_calls s)"
    and pols: "calls_ok w Validate policy_call_expr (policy_tasks (system s)) (policy_calls s)"
    using assms(1) by (rule split_okE)
  note call = coherent_call [OF assms(4) now calls_ok_now [OF pols assms(3)]]
  show ?thesis
    by (intro split_okI [OF c]) (simp_all add: r call pods calls_ok_call [OF pols assms(2,3)])
qed

lemma split_ok_evaluated:
  assumes "split_ok w config s" and "i < length (tasks (system s))"
    and "tasks (system s) ! i = Evaluating pod policy rest ttl" and "pod_calls s i = Obtained res"
    and "evaluation_returned w res pod policy rest ttl (shared (system s)) = (t, ctx)"
  shows "split_ok w config (s\<lparr>system := (system s)\<lparr>shared := ctx, tasks := (tasks (system s))[i := t]\<rparr>,
       pod_calls := (pod_calls s)(i := Entered)\<rparr>)"
proof -
  let ?t = "(system s)\<lparr>shared := ctx, tasks := (tasks (system s))[i := t]\<rparr>"
  obtain c where c: "cache_coherent (cel w) c" and r: "sys_reach w config (with_cache c (system s))"
    and now: "cache_coherent (cel w) (evaluator (shared (system s)))"
    and pods: "calls_ok w Evaluate pod_call (tasks (system s)) (pod_calls s)"
    and pols: "calls_ok w Validate policy_call_expr (policy_tasks (system s)) (policy_calls s)"
    using assms(1) by (rule split_okE)
  obtain expr where e: "cel_expression policy = Some expr" "res = fresh_program (cel w) expr"
    using calls_okD [OF pods, of i] assms(3,4) by auto
  let ?ctx = "(shared (system s))\<lparr>evaluator := c\<rparr>"
  have "cache_coherent (cel w) (evaluator ?ctx)" using c by simp
  moreover have "evaluation_returned w (fresh_program (cel w) expr) pod policy rest ttl
      (?ctx\<lparr>evaluator := evaluator (shared (system s))\<rparr>) = (t, ctx)"
    using assms(5) e(2) by simp
  ultimately obtain c' where c': "cache_coherent (cel w) c'"
      and step: "evaluate_step w pod policy rest ttl ?ctx = (t, ctx\<lparr>evaluator := c'\<rparr>)"
    using e(1) by (metis evaluate_step_returned)
  have "exec_event w (Run i) (with_cache c (system s)) = Some (with_cache c' ?t)"
    using assms(2,3) step by simp
  then have "sys_reach w config (with_cache c' ?t)" by (rule sys_reach_exec [OF r])
  moreover have "evaluator ctx = evaluator (shared (system s))"
    using assms(5) by (auto simp: evaluation_returned_def split: sum.splits)
  ultimately show ?thesis
    by (intro split_okI [OF c']) (simp_all add: now pols calls_ok_return [OF pods])
qed

lemma split_ok_validated:
  assumes "split_ok w config s" and "j < length (policy_tasks (system s))"
    and "policy_tasks (system s) ! j = PolicyCalled policy" and "policy_calls s j = Checked res"
  shows "split_ok w config (s\<lparr>
       system := (system s)\<lparr>policy_tasks := (policy_tasks (system s))[j := validation_returned res policy]\<rparr>,
       policy_calls := (policy_calls s)(j := Entered)\<rparr>)"
proof -
  let ?t = "(system s)\<lparr>policy_tasks := (policy_tasks (system s))[j := validation_returned res policy]\<rparr>"
  obtain c where c: "cache_coherent (cel w) c" and r: "sys_reach w config (with_cache c (system s))"
    and now: "cache_coherent (cel w) (evaluator (shared (system s)))"
    and pods: "calls_ok w Evaluate pod_call (tasks (system s)) (pod_calls s)"
    and pols: "calls_ok w Validate policy_call_expr (policy_tasks (system s)) (policy_calls s)"
    using assms(1) by (rule split_okE)
  obtain expr where e: "policy_call_expr (PolicyCalled policy) = Some expr"
      "res = map_sum id (\<lambda>_. ()) (fresh_program (cel w) expr)"
    using calls_okD [OF pols, of j] assms(3,4) by auto
  let ?ctx = "(shared (system s))\<lparr>evaluator := c\<rparr>"
  have "cache_coherent (cel w) (evaluator ?ctx)" using c by simp
  then obtain c' where c': "cache_coherent (cel w) c'"
      and step: "validation_step w policy ?ctx = (validation_returned res policy, ?ctx\<lparr>evaluator := c'\<rparr>)"
    using e by (metis validation_step_returned)
  have "exec_event w (RunPolicy j GoOn) (with_cache c (system s)) = Some (with_cache c' ?t)"
    using assms(2,3) step by simp
  then have "sys_reach w config (with_cache c' ?t)" by (rule sys_reach_exec [OF r])
  then show ?thesis
    by (intro split_okI [OF c']) (simp_all add: now pods calls_ok_return [OF pols])
qed

lemma split_ok_step:
  assumes "split_ok w config s" and "split_step w s s'"
  shows "split_ok w config s'"
  using assms(2)
proof (cases rule: split_stepE)
  case (elsewhere e t)
  show ?thesis unfolding elsewhere(1) by (rule split_ok_elsewhere [OF assms(1) elsewhere(2-4)])
next
  case (in_evaluate i expr pc cache)
  show ?thesis unfolding in_evaluate(1) by (rule split_ok_lookup [OF assms(1) in_evaluate(2-4)])
next
  case (evaluated i pod policy rest ttl r t ctx)
  show ?thesis unfolding evaluated(1) by (rule split_ok_evaluated [OF assms(1) evaluated(2-5)])
next
  case (in_validate j expr pc cache)
  show ?thesis unfolding in_validate(1) by (rule split_ok_check [OF assms(1) in_validate(2-4)])
next
  case (validated j policy r)
  show ?thesis unfolding validated(1) by (rule split_ok_validated [OF assms(1) validated(2-4)])
qed

interpretation split_run: invariant_system "split_start w config" "split_step w" "split_ok w config"
  for w :: "'p World" and config :: Config
proof
  show "split_ok w config s" if "split_start w config s" for s :: "'p split_sys"
  proof (rule split_okI [of w "evaluator (shared (system s))"])
    have start: "start_context w config = Some (shared (system s))" "tasks (system s) = []"
      using that by (simp_all add: split_start_def sys_start_def)
    show "cache_coherent (cel w) (evaluator (shared (system s)))"
      using start(1) by (auto simp: start_context_def split: option.splits dest!: sym [of _ "shared (system s)"])
    then show "cache_coherent (cel w) (evaluator (shared (system s)))" .
    show "sys_reach w config (with_cache (evaluator (shared (system s))) (system s))"
      using that by (auto simp: split_start_def sys_reach_def intro: reach_init)
  qed (use that in \<open>simp_all add: split_start_def calls_ok_def\<close>)
qed (rule split_ok_step)

definition split_reach :: "'p World \<Rightarrow> Config \<Rightarrow> 'p split_sys \<Rightarrow> bool" where
  "split_reach w config = reach (split_start w config) (split_step w)"

text \<open>
  C32. Taking the calls to the evaluator apart adds nothing to what the operator can do: whatever
  the interleaving of all tasks' lookups, compilations and insertions, the operator is in a state
  that it also reaches with every evaluation and validation done at once, but for the contents of
  the cache of programs, which are compiled forms of their expressions in both. Requests, metrics,
  limiter, policies and the states of all tasks are the same.
\<close>

theorem split_evaluations_refine:
  assumes "split_reach w config s"
  shows "cache_coherent (cel w) (evaluator (shared (system s)))
       \<and> (\<exists>cache. cache_coherent (cel w) cache
            \<and> sys_reach w config ((system s)\<lparr>shared := (shared (system s))\<lparr>evaluator := cache\<rparr>\<rparr>))"
  using split_run.reach_inv [OF assms [unfolded split_reach_def]] by (auto elim: split_okE)

text \<open>
  A call that a task has under way is never blocked, and ends after at most three steps of its
  own, whatever the other calls do to the cache.
\<close>

theorem evaluation_not_blocked:
  assumes "split_reach w config s" and "i < length (tasks (system s))"
    and "pod_call (tasks (system s) ! i) = Some expr"
  shows "(\<exists>r. pod_calls s i = Obtained r) \<or>
     (\<exists>pc cache. split_step w s (s\<lparr>system := with_cache cache (system s), pod_calls := (pod_calls s)(i := pc)\<rparr>)
        \<and> call_left 0 (Evaluate expr) pc < call_left 0 (Evaluate expr) (pod_calls s i))"
proof (cases "lookup_step w (Evaluate expr) (pod_calls s i) (evaluator (shared (system s)))")
  case None
  have pods: "calls_ok w Evaluate pod_call (tasks (system s)) (pod_calls s)"
    using split_run.reach_inv [OF assms(1) [unfolded split_reach_def]] by (rule split_okE)
  have "call_ok (cel w) (Evaluate expr) (pod_calls s i)"
    using calls_ok_now [where expr_of = pod_call, OF pods] assms(3) by blast
  moreover have "call_ended (pod_calls s i)" using None by (simp only: call_step_possible)
  ultimately show ?thesis by (cases "pod_calls s i") auto
next
  case (Some r)
  then obtain pc cache where
    step: "lookup_step w (Evaluate expr) (pod_calls s i) (evaluator (shared (system s))) = Some (pc, cache)"
    by (cases r) auto
  show ?thesis using split_step.in_evaluate [OF assms(2,3) step] call_step_decreases [OF step] by blast
qed

section \<open>A history with two validations at once\<close>

text \<open>Two policies with one expression arrive; both validations miss the cache and compile it.\<close>

datatype split_event = Elsewhere event | InValidate nat | Validated nat

fun split_exec :: "'p World \<Rightarrow> split_event list \<Rightarrow> 'p split_sys \<Rightarrow> 'p split_sys option" where
  "split_exec w [] s = Some s"
| "split_exec w (Elsewhere (PolicyChange policy) # es) s =
     Option.bind (exec_event w (PolicyChange policy) (system s)) (\<lambda>t. split_exec w es (s\<lparr>system := t\<rparr>))"
| "split_exec w (InValidate j # es) s =
     (if j < length (policy_tasks (system s))
      then (case policy_call_expr (policy_tasks (system s) ! j) of
              None \<Rightarrow> None
            | Some expr \<Rightarrow>
                (case lookup_step w (Validate expr) (policy_calls s j) (evaluator (shared (system s))) of
                   None \<Rightarrow> None
                 | Some (pc, cache) \<Rightarrow>
                     split_exec w es (s\<lparr>system := with_cache cache (system s), policy_calls := (policy_calls s)(j := pc)\<rparr>)))
      else None)"
| "split_exec w (Validated j # es) s =
     (if j < length (policy_tasks (system s))
      then (case (policy_tasks (system s) ! j, policy_calls s j) of
              (PolicyCalled policy, Checked r) \<Rightarrow>
                split_exec w es (s\<lparr>
                  system := (system s)\<lparr>policy_tasks := (policy_tasks (system s))[j := validation_returned r policy]\<rparr>,
                  policy_calls := (policy_calls s)(j := Entered)\<rparr>)
            | _ \<Rightarrow> None)
      else None)"
| "split_exec w (Elsewhere _ # es) s = None"

lemma split_exec_reach: "split_exec w es s = Some t \<Longrightarrow> split_reach w config s \<Longrightarrow> split_reach w config t"
  unfolding split_reach_def
proof (induction w es s rule: split_exec.induct)
  case (2 w policy es s)
  have "split_step w s (s\<lparr>system := (system s)\<lparr>policy_tasks := policy_tasks (system s) @ [PolicyCalled policy]\<rparr>\<rparr>)"
    by (rule split_step.elsewhere [OF sys_step.policy_change]) simp_all
  then show ?case using 2 by (auto intro: reach_step)
next
  case (3 w j es s)
  then obtain expr pc cache where j: "j < length (policy_tasks (system s))"
      "policy_call_expr (policy_tasks (system s) ! j) = Some expr"
      "lookup_step w (Validate expr) (policy_calls s j) (evaluator (shared (system s))) = Some (pc, cache)"
    by (auto split: if_splits option.splits)
  show ?case using 3 j reach_step [OF 3(3) split_step.in_validate [OF j]] by simp
next
  case (4 w j es s)
  then obtain policy r where j: "j < length (policy_tasks (system s))"
      "policy_tasks (system s) ! j = PolicyCalled policy" "policy_calls s j = Checked r"
    by (auto split: if_splits policy_task.splits call_at.splits)
  show ?case using 4 j reach_step [OF 4(3) split_step.validated [OF j]] by simp
qed simp_all

theorem split_evaluations_refine_witness:
  "\<exists>s cache. split_reach sample_world sample_config s
     \<and> policy_tasks (system s)
         = [Refreshing (cel_policy ''a'' ''age''), Refreshing (cel_policy ''b'' ''age'')]
     \<and> sys_reach sample_world sample_config
         ((system s)\<lparr>shared := (shared (system s))\<lparr>evaluator := cache\<rparr>\<rparr>)"
proof -
  obtain ctx where ctx: "start_context sample_world sample_config = Some ctx"
    and cache: "evaluator ctx = new_cache"
    by (auto simp: start_context_def sample_config_def sample_world_def new_limiter_def new_bucket_def unix_secs_def
        split: option.splits)
  let ?start = "\<lparr>system = \<lparr>shared = ctx, tasks = [], policy_tasks = []\<rparr>,
      pod_calls = (\<lambda>_. Entered), policy_calls = (\<lambda>_. Entered)\<rparr>"
  let ?run = "split_exec sample_world
      ([Elsewhere (PolicyChange (cel_policy ''a'' ''age'')), Elsewhere (PolicyChange (cel_policy ''b'' ''age''))]
       @ map InValidate [0, 1, 1, 0, 0, 1] @ [Validated 1, Validated 0]) ?start"
  have "split_start sample_world sample_config ?start" by (simp add: split_start_def sys_start_def ctx)
  then have start: "split_reach sample_world sample_config ?start" unfolding split_reach_def by (rule reach_init)
  have "\<not> trim_is_empty ''age''" by code_simp
  then have ok: "validate_spec (policy_spec (cel_policy n ''age'')) = Inr ()" for n
    by (simp add: sample_policy_defs validate_spec_def validate_when_def)
  have e: "cel_expression (cel_policy n ''age'') = Some ''age''" for n
    by (simp add: cel_expression_def cel_policy_def)
  have "map_option (\<lambda>s. policy_tasks (system s)) ?run
      = Some [Refreshing (cel_policy ''a'' ''age''), Refreshing (cel_policy ''b'' ''age'')]"
    by (simp add: cache new_cache_def ok e sample_world_def var_lib_def validation_returned_def)
  then obtain s where s: "?run = Some s"
      "policy_tasks (system s) = [Refreshing (cel_policy ''a'' ''age''), Refreshing (cel_policy ''b'' ''age'')]"
    by auto
  have "split_reach sample_world sample_config s" by (rule split_exec_reach [OF s(1) start])
  then show ?thesis using split_evaluations_refine s(2) by blast
qed

end
