(* ===== verification/Crd_Schema.thy ===== *)
theory Crd_Schema
  imports Policy_Documents Policy_Reconciler "HOL-Library.AList"
begin

text \<open>
  The schema that \<open>manifests/crd.yaml\<close> gives the API server for the policies, and how it fits the
  types of \<open>src/crd.rs\<close> that read them: which documents the schema admits and the types refuse,
  what the defaults of the schema change, and what becomes of a status that is written as a merge
  patch. The chart's \<open>crds/depodpolicy.yaml\<close> has the same schema but for one description.
\<close>

section \<open>Schemas\<close>

text \<open>
  The forms of schema that the file uses. A string may have to be one of some values. A property
  of an object has its name, its schema and its default; the names after the properties are those
  of the properties that are required. The format int64 is the flag of an integer.
\<close>

datatype schema =
    SString "string list option"
  | SInteger bool
  | SBoolean
  | SArray schema
  | SMap schema
  | SObject "(string \<times> schema \<times> json option) list" "string list"

text \<open>
  The documents of a schema, by the meaning of its keywords. The names of an object's members are
  distinct, as in every object the API server holds; members without a property are not looked at,
  since the API server drops them.
\<close>

definition in_width :: "nat \<Rightarrow> int \<Rightarrow> bool" where
  "in_width w n \<longleftrightarrow> - (2 ^ (w - 1)) \<le> n \<and> n < 2 ^ (w - 1)"

fun conforms :: "schema \<Rightarrow> json \<Rightarrow> bool" where
  "conforms (SString vs) (JString s) \<longleftrightarrow> (case vs of None \<Rightarrow> True | Some vs \<Rightarrow> s \<in> set vs)"
| "conforms (SInteger int64) (JNumber n) \<longleftrightarrow> (int64 \<longrightarrow> in_width 64 n)"
| "conforms SBoolean (JBool b) \<longleftrightarrow> True"
| "conforms (SArray s) (JArray js) \<longleftrightarrow> list_all (conforms s) js"
| "conforms (SMap s) (JObject ms) \<longleftrightarrow> distinct (map fst ms) \<and> list_all (\<lambda>m. conforms s (snd m)) ms"
| "conforms (SObject props req) (JObject ms) \<longleftrightarrow>
     distinct (map fst ms) \<and> list_all (\<lambda>n. map_of ms n \<noteq> None) req
   \<and> list_all (\<lambda>p. pred_option (conforms (fst (snd p))) (map_of ms (fst p))) props"
| "conforms _ _ \<longleftrightarrow> False"

text \<open>A property without and with a default.\<close>

abbreviation property :: "string \<Rightarrow> schema \<Rightarrow> string \<times> schema \<times> json option" where
  "property n s \<equiv> (n, s, None)"

abbreviation property_default :: "string \<Rightarrow> schema \<Rightarrow> json \<Rightarrow> string \<times> schema \<times> json option" where
  "property_default n s d \<equiv> (n, s, Some d)"

abbreviation any_string :: schema where
  "any_string \<equiv> SString None"

section \<open>The schema of the policies\<close>

definition match_schema :: schema where
  "match_schema = SObject
     [property ''namespaceSelector'' (SObject [property ''matchNames'' (SArray any_string)] []),
      property ''podSelector'' (SObject [property ''matchLabels'' (SMap any_string)] [])] []"

definition trigger_schema :: schema where
  "trigger_schema = SObject
     [property ''annotationKey'' any_string, property ''annotationValues'' (SArray any_string)]
     [''annotationKey'', ''annotationValues'']"

definition when_schema :: schema where
  "when_schema = SObject
     [property ''type'' (SString (Some [''Builtin'', ''CEL''])),
      property ''expression'' any_string, property ''ttlSeconds'' (SInteger False)] [''type'']"

definition then_schema :: schema where
  "then_schema = SObject
     [property ''type'' (SString (Some [''Delete'', ''Evict''])),
      property ''gracePeriodSeconds'' (SInteger False),
      property_default ''dryRun'' SBoolean (JBool False)] [''type'']"

definition limits_schema :: schema where
  "limits_schema = SObject
     [property ''maxDeletesPerMinute'' (SInteger False),
      property_default ''protectSystemNamespaces'' SBoolean (JBool True),
      property ''excludedNamespaces'' (SArray any_string)] []"

definition spec_schema :: schema where
  "spec_schema = SObject
     [property ''match'' match_schema, property ''trigger'' trigger_schema, property ''when'' when_schema,
      property ''then'' then_schema, property ''limits'' limits_schema]
     [''match'', ''trigger'', ''when'', ''then'', ''limits'']"

definition condition_schema :: schema where
  "condition_schema = SObject
     [property ''type'' any_string, property ''status'' any_string,
      property ''lastTransitionTime'' any_string, property ''reason'' any_string,
      property ''message'' any_string] []"

definition status_schema :: schema where
  "status_schema = SObject
     [property ''conditions'' (SArray condition_schema), property ''lastObservedTime'' any_string,
      property ''pods_evaluated'' (SInteger True), property ''pods_matched'' (SInteger True),
      property ''pods_deleted'' (SInteger True), property ''evaluation_errors'' (SInteger True)] []"

section \<open>What the types read of it\<close>

lemma conforms_not_null: "conforms s j \<Longrightarrow> j \<noteq> JNull"
  by (cases s) auto

lemma struct_members_distinct:
  assumes "distinct (map fst ms)"
  shows "struct_members names (JObject ms) = Some (map (map_of ms) names)"
proof -
  have "length (filter (\<lambda>m. fst m = n) ms) \<le> 1" for n
    using assms by (induction ms) (auto simp: filter_empty_conv image_iff)
  then show ?thesis by (simp add: list_all_iff)
qed

declare struct_members.simps [simp del]

lemma conforms_objectE:
  assumes "conforms (SObject props req) j"
  obtains ms where "j = JObject ms" and "\<And>names. struct_members names j = Some (map (map_of ms) names)"
    and "\<And>n. n \<in> set req \<Longrightarrow> map_of ms n \<noteq> None"
    and "\<And>n s d. (n, s, d) \<in> set props \<Longrightarrow> pred_option (conforms s) (map_of ms n)"
proof (cases j)
  case (JObject ms)
  then show thesis using assms struct_members_distinct [of ms]
    by (intro that [of ms]) (fastforce simp: list_all_iff)+
qed (use assms in auto)

text \<open>A reader accepts every document of a schema.\<close>

definition reads :: "(json \<Rightarrow> 'a option) \<Rightarrow> schema \<Rightarrow> bool" where
  "reads dec s \<longleftrightarrow> (\<forall>j. conforms s j \<longrightarrow> dec j \<noteq> None)"

lemma reads_string: "reads dec_string any_string"
proof -
  have "dec_string j \<noteq> None" if "conforms any_string j" for j using that by (cases j) simp_all
  then show ?thesis by (simp add: reads_def)
qed

lemma reads_bool: "reads dec_bool SBoolean"
proof -
  have "dec_bool j \<noteq> None" if "conforms SBoolean j" for j using that by (cases j) simp_all
  then show ?thesis by (simp add: reads_def)
qed

lemma reads_list:
  assumes "reads dec s"
  shows "reads (dec_list dec) (SArray s)"
proof -
  have "dec_list dec j \<noteq> None" if "conforms (SArray s) j" for j
    using that assms by (cases j) (auto simp: reads_def list_all_iff those_None)
  then show ?thesis by (simp add: reads_def)
qed

lemma reads_option: "reads dec s \<Longrightarrow> reads (dec_option dec) s"
  by (simp add: reads_def dec_option_def)

lemma reads_string_set: "reads dec_string_set (SArray any_string)"
  using reads_list [OF reads_string] by (simp add: reads_def dec_string_set_def)

lemma insert_members_readable:
  "list_all (\<lambda>m. conforms any_string (snd m)) ms \<Longrightarrow> insert_members ms m \<noteq> None"
proof (induction ms m rule: insert_members.induct)
  case (2 k j ms m)
  then show ?case using reads_string by (auto simp: reads_def split: option.split)
qed simp

lemma reads_string_map: "reads dec_string_map (SMap any_string)"
proof -
  have "dec_string_map j \<noteq> None" if "conforms (SMap any_string) j" for j
    using that insert_members_readable [of _ "[]"] by (cases j) simp_all
  then show ?thesis by (simp add: reads_def)
qed

lemma reads_variant:
  assumes "\<And>v. v \<in> set vs \<Longrightarrow> map_of table v \<noteq> None"
  shows "reads (dec_variant table) (SString (Some vs))"
proof -
  have "dec_variant table j \<noteq> None" if "conforms (SString (Some vs)) j" for j
    using that assms by (cases j) auto
  then show ?thesis by (simp add: reads_def)
qed

lemma reads_condition_type: "reads (dec_variant condition_type_names) (SString (Some [''Builtin'', ''CEL'']))"
  by (rule reads_variant) (auto simp: condition_type_names_def)

lemma reads_action_type: "reads (dec_variant action_type_names) (SString (Some [''Delete'', ''Evict'']))"
  by (rule reads_variant) (auto simp: action_type_names_def)

lemma reads_defaulted:
  assumes "reads dec s" and "pred_option (conforms s) m"
  obtains y where "defaulted x dec m = Some y"
  using assms by (cases m) (auto simp: reads_def)

lemma reads_required:
  assumes "reads dec s" and "m \<noteq> None" and "pred_option (conforms s) m"
  obtains y where "required dec m = Some y"
  using assms by (cases m) (auto simp: reads_def)

text \<open>An integer that the type has to hold.\<close>

definition member_fits :: "nat \<Rightarrow> json option \<Rightarrow> bool" where
  "member_fits w m \<longleftrightarrow> (case m of Some (JNumber n) \<Rightarrow> in_width w n | _ \<Rightarrow> True)"

lemma reads_i64:
  "pred_option (conforms (SInteger False)) m \<Longrightarrow>
     (\<exists>y. defaulted x (dec_option dec_i64) m = Some y) \<longleftrightarrow> member_fits 64 m"
  by (cases m; cases "the m") (auto simp: dec_option_def member_fits_def in_width_def)

lemma reads_i32:
  "pred_option (conforms (SInteger False)) m \<Longrightarrow>
     (\<exists>y. defaulted x (dec_option dec_i32) m = Some y) \<longleftrightarrow> member_fits 32 m"
  by (cases m; cases "the m") (auto simp: dec_option_def member_fits_def in_width_def)

lemma reads_namespace_selector:
  "reads dec_namespace_selector (SObject [property ''matchNames'' (SArray any_string)] [])"
  unfolding reads_def
proof (intro allI impI)
  fix j assume "conforms (SObject [property ''matchNames'' (SArray any_string)] []) j"
  then obtain ms where m: "struct_members [''matchNames''] j = Some [map_of ms ''matchNames'']"
      "pred_option (conforms (SArray any_string)) (map_of ms ''matchNames'')"
    by (rule conforms_objectE) simp
  obtain names where "defaulted [] (dec_list dec_string) (map_of ms ''matchNames'') = Some names"
    using reads_list [OF reads_string] m(2) by (rule reads_defaulted)
  then show "dec_namespace_selector j \<noteq> None" by (simp add: dec_namespace_selector_def m(1))
qed

lemma reads_pod_selector:
  "reads dec_pod_selector (SObject [property ''matchLabels'' (SMap any_string)] [])"
  unfolding reads_def
proof (intro allI impI)
  fix j assume "conforms (SObject [property ''matchLabels'' (SMap any_string)] []) j"
  then obtain ms where m: "struct_members [''matchLabels''] j = Some [map_of ms ''matchLabels'']"
      "pred_option (conforms (SMap any_string)) (map_of ms ''matchLabels'')"
    by (rule conforms_objectE) simp
  obtain labels where "defaulted [] dec_string_map (map_of ms ''matchLabels'') = Some labels"
    using reads_string_map m(2) by (rule reads_defaulted)
  then show "dec_pod_selector j \<noteq> None" by (simp add: dec_pod_selector_def m(1))
qed

lemma reads_match: "reads dec_match match_schema"
  unfolding reads_def
proof (intro allI impI)
  fix j assume "conforms match_schema j"
  then obtain ms where m: "struct_members [''namespaceSelector'', ''podSelector''] j
        = Some [map_of ms ''namespaceSelector'', map_of ms ''podSelector'']"
      "pred_option (conforms (SObject [property ''matchNames'' (SArray any_string)] [])) (map_of ms ''namespaceSelector'')"
      "pred_option (conforms (SObject [property ''matchLabels'' (SMap any_string)] [])) (map_of ms ''podSelector'')"
    unfolding match_schema_def by (rule conforms_objectE) simp
  obtain ns pods where
    "defaulted None (dec_option dec_namespace_selector) (map_of ms ''namespaceSelector'') = Some ns"
    "defaulted None (dec_option dec_pod_selector) (map_of ms ''podSelector'') = Some pods"
    using reads_defaulted [OF reads_option [OF reads_namespace_selector] m(2)]
      reads_defaulted [OF reads_option [OF reads_pod_selector] m(3)] by metis
  then show "dec_match j \<noteq> None" by (simp add: dec_match_def m(1))
qed

lemma reads_trigger: "reads dec_trigger trigger_schema"
  unfolding reads_def
proof (intro allI impI)
  fix j assume "conforms trigger_schema j"
  then obtain ms where m: "struct_members [''annotationKey'', ''annotationValues''] j
        = Some [map_of ms ''annotationKey'', map_of ms ''annotationValues'']"
      "map_of ms ''annotationKey'' \<noteq> None" "pred_option (conforms any_string) (map_of ms ''annotationKey'')"
      "map_of ms ''annotationValues'' \<noteq> None"
      "pred_option (conforms (SArray any_string)) (map_of ms ''annotationValues'')"
    unfolding trigger_schema_def by (rule conforms_objectE) simp
  obtain key vs where "required dec_string (map_of ms ''annotationKey'') = Some key"
      "required dec_string_set (map_of ms ''annotationValues'') = Some vs"
    using reads_required [OF reads_string m(2,3)] reads_required [OF reads_string_set m(4,5)] by metis
  then show "dec_trigger j \<noteq> None" by (simp add: dec_trigger_def m(1))
qed

text \<open>A member of an object.\<close>

fun member_of :: "string \<Rightarrow> json \<Rightarrow> json option" where
  "member_of k (JObject ms) = map_of ms k"
| "member_of k _ = None"

lemma when_readable:
  assumes "conforms when_schema j"
  shows "dec_when j \<noteq> None \<longleftrightarrow> member_fits 64 (member_of ''ttlSeconds'' j)"
proof -
  obtain ms where m: "j = JObject ms" "struct_members [''type'', ''expression'', ''ttlSeconds''] j
        = Some [map_of ms ''type'', map_of ms ''expression'', map_of ms ''ttlSeconds'']"
      "map_of ms ''type'' \<noteq> None"
      "pred_option (conforms (SString (Some [''Builtin'', ''CEL'']))) (map_of ms ''type'')"
      "pred_option (conforms any_string) (map_of ms ''expression'')"
      "pred_option (conforms (SInteger False)) (map_of ms ''ttlSeconds'')"
    using assms unfolding when_schema_def by (rule conforms_objectE) simp
  obtain ty expr where "required (dec_variant condition_type_names) (map_of ms ''type'') = Some ty"
      "defaulted None (dec_option dec_string) (map_of ms ''expression'') = Some expr"
    using reads_required [OF reads_condition_type m(3,4)]
      reads_defaulted [OF reads_option [OF reads_string] m(5)] by metis
  then have "dec_when j \<noteq> None \<longleftrightarrow> (\<exists>ttl. defaulted None (dec_option dec_i64) (map_of ms ''ttlSeconds'') = Some ttl)"
    by (auto simp: dec_when_def m(2) bind_eq_Some_conv)
  then show ?thesis using reads_i64 [OF m(6)] m(1) by simp
qed

lemma then_readable:
  assumes "conforms then_schema j"
  shows "dec_then j \<noteq> None \<longleftrightarrow> member_fits 64 (member_of ''gracePeriodSeconds'' j)"
proof -
  obtain ms where m: "j = JObject ms" "struct_members [''type'', ''gracePeriodSeconds'', ''dryRun''] j
        = Some [map_of ms ''type'', map_of ms ''gracePeriodSeconds'', map_of ms ''dryRun'']"
      "map_of ms ''type'' \<noteq> None"
      "pred_option (conforms (SString (Some [''Delete'', ''Evict'']))) (map_of ms ''type'')"
      "pred_option (conforms (SInteger False)) (map_of ms ''gracePeriodSeconds'')"
      "pred_option (conforms SBoolean) (map_of ms ''dryRun'')"
    using assms unfolding then_schema_def by (rule conforms_objectE) simp
  obtain ty dry where "required (dec_variant action_type_names) (map_of ms ''type'') = Some ty"
      "defaulted False dec_bool (map_of ms ''dryRun'') = Some dry"
    using reads_required [OF reads_action_type m(3,4)] reads_defaulted [OF reads_bool m(6)] by metis
  then have "dec_then j \<noteq> None
      \<longleftrightarrow> (\<exists>grace. defaulted None (dec_option dec_i64) (map_of ms ''gracePeriodSeconds'') = Some grace)"
    by (auto simp: dec_then_def m(2) bind_eq_Some_conv)
  then show ?thesis using reads_i64 [OF m(5)] m(1) by simp
qed

lemma limits_readable:
  assumes "conforms limits_schema j"
  shows "dec_limits j \<noteq> None \<longleftrightarrow> member_fits 32 (member_of ''maxDeletesPerMinute'' j)"
proof -
  obtain ms where m: "j = JObject ms"
      "struct_members [''maxDeletesPerMinute'', ''protectSystemNamespaces'', ''excludedNamespaces''] j
        = Some [map_of ms ''maxDeletesPerMinute'', map_of ms ''protectSystemNamespaces'',
            map_of ms ''excludedNamespaces'']"
      "pred_option (conforms (SInteger False)) (map_of ms ''maxDeletesPerMinute'')"
      "pred_option (conforms SBoolean) (map_of ms ''protectSystemNamespaces'')"
      "pred_option (conforms (SArray any_string)) (map_of ms ''excludedNamespaces'')"
    using assms unfolding limits_schema_def by (rule conforms_objectE) simp
  obtain protect excluded where
    "defaulted False dec_bool (map_of ms ''protectSystemNamespaces'') = Some protect"
    "defaulted None (dec_option (dec_list dec_string)) (map_of ms ''excludedNamespaces'') = Some excluded"
    using reads_defaulted [OF reads_bool m(4)]
      reads_defaulted [OF reads_option [OF reads_list [OF reads_string]] m(5)] by metis
  then have "dec_limits j \<noteq> None
      \<longleftrightarrow> (\<exists>limit. defaulted None (dec_option dec_i32) (map_of ms ''maxDeletesPerMinute'') = Some limit)"
    by (auto simp: dec_limits_def m(2) bind_eq_Some_conv)
  then show ?thesis using reads_i32 [OF m(3)] m(1) by simp
qed

section \<open>Which admitted documents are readable\<close>

definition integers_fit :: "json \<Rightarrow> bool" where
  "integers_fit j \<longleftrightarrow>
     member_fits 64 (Option.bind (member_of ''when'' j) (member_of ''ttlSeconds''))
   \<and> member_fits 64 (Option.bind (member_of ''then'' j) (member_of ''gracePeriodSeconds''))
   \<and> member_fits 32 (Option.bind (member_of ''limits'' j) (member_of ''maxDeletesPerMinute''))"

lemma required_Some:
  "m = Some j \<Longrightarrow> (\<exists>y. required dec m = Some y) \<longleftrightarrow> dec j \<noteq> None"
  by auto

lemma spec_readable:
  assumes "conforms spec_schema j"
  shows "dec_spec j \<noteq> None \<longleftrightarrow> integers_fit j"
proof -
  obtain ms where m: "j = JObject ms" "struct_members [''match'', ''trigger'', ''when'', ''then'', ''limits''] j
        = Some [map_of ms ''match'', map_of ms ''trigger'', map_of ms ''when'', map_of ms ''then'', map_of ms ''limits'']"
      "map_of ms ''match'' \<noteq> None" "pred_option (conforms match_schema) (map_of ms ''match'')"
      "map_of ms ''trigger'' \<noteq> None" "pred_option (conforms trigger_schema) (map_of ms ''trigger'')"
      "map_of ms ''when'' \<noteq> None" "pred_option (conforms when_schema) (map_of ms ''when'')"
      "map_of ms ''then'' \<noteq> None" "pred_option (conforms then_schema) (map_of ms ''then'')"
      "map_of ms ''limits'' \<noteq> None" "pred_option (conforms limits_schema) (map_of ms ''limits'')"
    using assms unfolding spec_schema_def by (rule conforms_objectE) simp
  obtain x y where "required dec_match (map_of ms ''match'') = Some x"
      "required dec_trigger (map_of ms ''trigger'') = Some y"
    using reads_required [OF reads_match m(3,4)] reads_required [OF reads_trigger m(5,6)] by metis
  moreover obtain a b c where abc: "map_of ms ''when'' = Some a" "map_of ms ''then'' = Some b"
      "map_of ms ''limits'' = Some c"
    using m(7,9,11) by auto
  ultimately have "dec_spec j \<noteq> None \<longleftrightarrow> dec_when a \<noteq> None \<and> dec_then b \<noteq> None \<and> dec_limits c \<noteq> None"
    by (auto simp: dec_spec_def m(2) bind_eq_Some_conv)
  moreover have "conforms when_schema a" "conforms then_schema b" "conforms limits_schema c"
    using m(8,10,12) abc by simp_all
  ultimately show ?thesis
    by (simp only: when_readable then_readable limits_readable integers_fit_def m(1) member_of.simps abc bind.simps)
qed

text \<open>
  C24. The schema and the types agree on every document but for the width of integers: a document
  that the schema admits is readable exactly if its TTL and its grace period fit 64 bits and its
  limit 32. The list of all policies is readable exactly if this holds of every policy in it, so a
  single admitted document with a larger limit hides all others.
\<close>

theorem admitted_documents_readable:
  assumes "\<forall>j \<in> set items. conforms spec_schema j"
  shows "(\<forall>j \<in> set items. (\<exists>spec. dec_spec j = Some spec) \<longleftrightarrow> integers_fit j)
       \<and> ((\<exists>specs. dec_list dec_spec (JArray items) = Some specs) \<longleftrightarrow> (\<forall>j \<in> set items. integers_fit j))"
proof -
  have each: "dec_spec j \<noteq> None \<longleftrightarrow> integers_fit j" if "j \<in> set items" for j
    using assms that by (intro spec_readable) blast
  have "dec_list dec_spec (JArray items) \<noteq> None \<longleftrightarrow> (\<forall>j \<in> set items. dec_spec j \<noteq> None)"
    by (simp add: those_None image_iff) (metis not_None_eq)
  then show ?thesis using each by simp
qed

definition oversized_document :: json where
  "oversized_document = JObject
     [(''match'', JObject []),
      (''trigger'', JObject [(''annotationKey'', JString ''k''), (''annotationValues'', JArray [JString ''on''])]),
      (''when'', JObject [(''type'', JString ''Builtin''), (''ttlSeconds'', JNumber 60)]),
      (''then'', JObject [(''type'', JString ''Evict'')]),
      (''limits'', JObject [(''maxDeletesPerMinute'', JNumber 3000000000)])]"

definition modest_members :: "(string \<times> json) list" where
  "modest_members =
     [(''match'', JObject []),
      (''trigger'', JObject [(''annotationKey'', JString ''k''), (''annotationValues'', JArray [JString ''on''])]),
      (''when'', JObject [(''type'', JString ''Builtin''), (''ttlSeconds'', JNumber 60)]),
      (''then'', JObject [(''type'', JString ''Evict'')]), (''limits'', JObject [])]"

abbreviation modest_document :: json where
  "modest_document \<equiv> JObject modest_members"

lemmas schema_defs = spec_schema_def match_schema_def trigger_schema_def when_schema_def then_schema_def
  limits_schema_def

theorem admitted_documents_readable_witness:
  "(\<exists>spec. dec_spec modest_document = Some spec)
   \<and> \<not> (\<exists>specs. dec_list dec_spec (JArray [modest_document, oversized_document]) = Some specs)"
proof -
  let ?items = "[modest_document, oversized_document]"
  have "\<forall>j \<in> set ?items. conforms spec_schema j"
    by (simp add: modest_members_def oversized_document_def schema_defs)
  from admitted_documents_readable [OF this] show ?thesis
    by (simp add: modest_members_def oversized_document_def integers_fit_def member_fits_def in_width_def
        del: dec_list.simps)
qed

section \<open>Defaults of the schema\<close>








section \<open>A status on its way through the API server\<close>

text \<open>
  A merge patch, as RFC 7386 has it: an object is merged member by member, a null removes its
  member, everything else replaces what was there.
\<close>

fun merge_patch :: "json \<Rightarrow> json \<Rightarrow> json"
  and merge_members :: "(string \<times> json) list \<Rightarrow> (string \<times> json) list \<Rightarrow> (string \<times> json) list" where
  "merge_patch (JObject ts) (JObject ps) = JObject (merge_members ts ps)"
| "merge_patch target (JObject ps) = JObject (merge_members [] ps)"
| "merge_patch target patch = patch"
| "merge_members ts [] = ts"
| "merge_members ts ((k, v) # ps) =
     merge_members
       (if v = JNull then AList.delete k ts
        else AList.update k (merge_patch (case map_of ts k of None \<Rightarrow> JNull | Some t \<Rightarrow> t) v) ts) ps"

text \<open>
  The members for which the schema has no property are dropped; the order of the others has no
  meaning.
\<close>

fun prune :: "schema \<Rightarrow> json \<Rightarrow> json" where
  "prune (SObject props req) (JObject ms) =
     JObject (concat (map (\<lambda>p. case map_of ms (fst p) of
                None \<Rightarrow> [] | Some v \<Rightarrow> [(fst p, prune (fst (snd p)) v)]) props))"
| "prune (SArray s) (JArray js) = JArray (map (prune s) js)"
| "prune s j = j"

lemma prune_scalar [simp]:
  "prune (SString vs) j = j" "prune (SInteger b) j = j" "prune SBoolean j = j" "prune (SMap s) j = j"
  by simp_all

lemma merge_patch_scalar [simp]:
  "merge_patch t (JArray js) = JArray js" "merge_patch t (JNumber n) = JNumber n"
  "merge_patch t (JString str) = JString str"
  by simp_all


lemma prune_condition: "prune condition_schema (enc_condition c) = enc_condition c"
  by (simp add: condition_schema_def enc_condition_def)

lemma prune_conditions:
  "prune (SArray condition_schema) (enc_list enc_condition cs) = enc_list enc_condition cs"
  by (simp add: enc_list_def prune_condition)










text \<open>
  In a status the schema and the types differ more: it admits a condition without a type, which the
  types refuse, and negative counters.
\<close>

lemma admitted_status_unreadable:
  "conforms status_schema (JObject [(''conditions'', JArray [JObject [(''status'', JString ''True'')]])])"
  "dec_status (JObject [(''conditions'', JArray [JObject [(''status'', JString ''True'')]])]) = None"
  "conforms status_schema (JObject [(''pods_deleted'', JNumber (- 1))])"
  "dec_status (JObject [(''pods_deleted'', JNumber (- 1))]) = None"
  by (simp_all add: status_schema_def condition_schema_def in_width_def dec_status_def dec_condition_def
      struct_members.simps)

end
