(* ===== verification/Deployment.thy ===== *)
theory Deployment
  imports Operator_System Http_Server
begin

text \<open>
  What \<open>manifests/\<close> and the chart of \<open>helm/\<close> give the operator: its environment, from which
  \<open>src/config.rs\<close> reads the configuration, the rules that say which requests the API server
  accepts of it, and the path of its probes.
\<close>

section \<open>The environment\<close>

text \<open>The values of the chart that the deployment's environment is about, with their defaults.\<close>

record chart_values =
  operator_rate_limit :: u64
  operator_pod_patch_concurrency_limit :: usize
  operator_protect_system_namespaces :: bool
  operator_server_port :: u16
  operator_resync_enable :: bool
  operator_resync_interval_seconds :: u64

definition default_values :: chart_values where
  "default_values =
     \<lparr>operator_rate_limit = 20, operator_pod_patch_concurrency_limit = 10,
      operator_protect_system_namespaces = True, operator_server_port = 8080,
      operator_resync_enable = True, operator_resync_interval_seconds = 3600\<rparr>"

text \<open>
  \<open>env:\<close> of \<open>templates/deployment.yaml\<close>. How the template engine writes a number is its
  business, the parameter \<open>quote\<close>; a boolean is written as a word. The name of the pod comes
  from the downward API.
\<close>

definition quote_bool :: "bool \<Rightarrow> string" where
  "quote_bool b = (if b then ''true'' else ''false'')"

definition chart_env :: "(nat \<Rightarrow> string) \<Rightarrow> string \<Rightarrow> string \<Rightarrow> chart_values \<Rightarrow> environment" where
  "chart_env quote rust_log pod_name v =
     [''RUST_LOG'' \<mapsto> rust_log, ''OPERATOR_POD_NAME'' \<mapsto> pod_name,
      ''RESYNC_ENABLE'' \<mapsto> quote_bool (operator_resync_enable v),
      ''RESYNC_INTERVAL_SECONDS'' \<mapsto> quote (unat (operator_resync_interval_seconds v)),
      ''RATE_LIMIT_PER_MINUTE'' \<mapsto> quote (unat (operator_rate_limit v)),
      ''POD_PATCH_CONCURRENCY_LIMIT'' \<mapsto> quote (unat (operator_pod_patch_concurrency_limit v)),
      ''SERVER_PORT'' \<mapsto> quote (unat (operator_server_port v))]"

text \<open>
  Numbers of a chart are floating; the engine writes those below a million in decimal, and larger
  ones in the notation with an exponent.
\<close>

definition quotes_small :: "(nat \<Rightarrow> string) \<Rightarrow> bool" where
  "quotes_small quote \<longleftrightarrow> (\<forall>n < 1000000. quote n = show_nat n)"

definition small_values :: "chart_values \<Rightarrow> bool" where
  "small_values v \<longleftrightarrow> unat (operator_rate_limit v) < 1000000
     \<and> unat (operator_pod_patch_concurrency_limit v) < 1000000
     \<and> unat (operator_resync_interval_seconds v) < 1000000"

lemma quoted_word:
  "quotes_small quote \<Longrightarrow> unat x < 1000000 \<Longrightarrow> quote (unat x) = show_uint x"
  by (simp add: quotes_small_def show_uint_def)

text \<open>\<open>env:\<close> of \<open>manifests/deployment.yaml\<close>.\<close>

definition manifest_env :: "string \<Rightarrow> environment" where
  "manifest_env pod_name =
     [''RUST_LOG'' \<mapsto> ''info'', ''OPERATOR_POD_NAME'' \<mapsto> pod_name, ''RESYNC_ENABLE'' \<mapsto> ''true'',
      ''RESYNC_INTERVAL_SECONDS'' \<mapsto> ''3600'', ''RATE_LIMIT_PER_MINUTE'' \<mapsto> ''20'',
      ''POD_PATCH_CONCURRENCY_LIMIT'' \<mapsto> ''10'', ''SERVER_PORT'' \<mapsto> ''8080'']"

lemma chart_config:
  assumes "quotes_small quote" and "small_values v"
  shows "from_env (chart_env quote rust_log pod_name v) =
     \<lparr>rate_limit_per_minute = operator_rate_limit v,
      pod_patch_concurrency_limit = operator_pod_patch_concurrency_limit v,
      server_port = operator_server_port v, operator_pod_name = pod_name,
      periodic_resync_interval =
        (if operator_resync_enable v then Some (operator_resync_interval_seconds v) else None)\<rparr>"
proof -
  have "unat (operator_server_port v) < 1000000"
    using unsigned_less [of "operator_server_port v", where ?'a = nat] by simp
  then show ?thesis
    using assms(2) by (simp add: from_env_def chart_env_def env_uint_def small_values_def parse_show_uint
        quoted_word [OF assms(1)] quote_bool_def eq_ignore_ascii_case_def to_ascii_lowercase_def)
qed


text \<open>What a template engine may write of larger numbers.\<close>

definition quote_number :: "nat \<Rightarrow> string" where
  "quote_number n = (if n < 1000000 then show_nat n else ''1e+06'')"

lemma quotes_small_number: "quotes_small quote_number"
  by (simp add: quotes_small_def quote_number_def)


text \<open>A rate limit that is written with an exponent is not read: the default takes its place.\<close>

lemma exponent_falls_back:
  assumes "quote (unat (operator_rate_limit v)) = ''1e+06''"
  shows "rate_limit_per_minute (from_env (chart_env quote rust_log pod_name v)) = 20"
proof -
  have "numeral_of ''1e+06'' = None" by (simp add: numeral_of_def to_digit_def)
  then show ?thesis using from_env_numbers [of "chart_env quote rust_log pod_name v"] assms
    by (simp add: chart_env_def)
qed

text \<open>The plain manifest sets what the program takes without it.\<close>

lemma manifest_is_default:
  "from_env (manifest_env pod_name) = from_env [''OPERATOR_POD_NAME'' \<mapsto> pod_name]"
  "from_env (manifest_env pod_name) = from_env (chart_env quote_number ''info'' pod_name default_values)"
proof -
  have n: "numeral_of ''3600'' = Some 3600" "numeral_of ''20'' = Some 20" "numeral_of ''10'' = Some 10"
    "numeral_of ''8080'' = Some 8080" by (simp_all add: numeral_of_def to_digit_def)
  have w: "env_uint (manifest_env pod_name) ''RESYNC_INTERVAL_SECONDS'' = Some (3600 :: u64)"
    "env_uint (manifest_env pod_name) ''RATE_LIMIT_PER_MINUTE'' = Some (20 :: u64)"
    "env_uint (manifest_env pod_name) ''POD_PATCH_CONCURRENCY_LIMIT'' = Some (10 :: usize)"
    "env_uint (manifest_env pod_name) ''SERVER_PORT'' = Some (8080 :: u16)"
    by (simp_all add: env_uint_def manifest_env_def parse_uint_numeral_of n del: parse_uint.simps)
  have names: "manifest_env pod_name ''RESYNC_ENABLE'' = Some ''true''"
    "manifest_env pod_name ''OPERATOR_POD_NAME'' = Some pod_name"
    by (simp_all add: manifest_env_def)
  have manifest: "from_env (manifest_env pod_name) =
     \<lparr>rate_limit_per_minute = 20, pod_patch_concurrency_limit = 10, server_port = 8080,
      operator_pod_name = pod_name, periodic_resync_interval = Some 3600\<rparr>"
    by (simp add: from_env_def w names eq_ignore_ascii_case_def)
  show "from_env (manifest_env pod_name) = from_env [''OPERATOR_POD_NAME'' \<mapsto> pod_name]"
    unfolding manifest by (simp add: from_env_def env_uint_def eq_ignore_ascii_case_def)
  show "from_env (manifest_env pod_name) = from_env (chart_env quote_number ''info'' pod_name default_values)"
    unfolding manifest by (simp add: chart_config quotes_small_number small_values_def default_values_def)
qed

section \<open>What the operator may ask of the API server\<close>

text \<open>A rule of a ClusterRole permits each of its verbs on each of its resources of its groups.\<close>

record rule =
  api_groups :: "string list"
  resources :: "string list"
  verbs :: "string list"

definition cluster_role :: "rule list" where
  "cluster_role =
     [\<lparr>api_groups = [''kube-depod.io''], resources = [''depodpolicies''], verbs = [''get'', ''list'', ''watch'']\<rparr>,
      \<lparr>api_groups = [''kube-depod.io''], resources = [''depodpolicies/status''], verbs = [''patch'']\<rparr>,
      \<lparr>api_groups = [[]], resources = [''pods''],
       verbs = [''get'', ''list'', ''watch'', ''patch'', ''delete'', ''deletecollection'']\<rparr>,
      \<lparr>api_groups = [[]], resources = [''pods/eviction''], verbs = [''create'']\<rparr>,
      \<lparr>api_groups = [[]], resources = [''events''], verbs = [''create'', ''patch'']\<rparr>]"

definition permits :: "rule list \<Rightarrow> string \<times> string \<times> string \<Rightarrow> bool" where
  "permits rules a = (case a of (api_group, resource, verb) \<Rightarrow>
     list_ex (\<lambda>r. api_group \<in> set (api_groups r) \<and> resource \<in> set (resources r) \<and> verb \<in> set (verbs r)) rules)"

text \<open>The group, the resource and the verb of each request of the reconcilers.\<close>

fun request_access :: "Request \<Rightarrow> string \<times> string \<times> string" where
  "request_access (DeletePod ns name grace) = ([], ''pods'', ''delete'')"
| "request_access (EvictPod ns name body) = ([], ''pods/eviction'', ''create'')"
| "request_access (PatchPolicyStatus ns name status) = (''kube-depod.io'', ''depodpolicies/status'', ''patch'')"
| "request_access (ListPods ns labels) = ([], ''pods'', ''list'')"
| "request_access (PatchPod ns name patch) = ([], ''pods'', ''patch'')"

text \<open>The reflector and the two controllers list and watch their resources.\<close>

definition watch_access :: "(string \<times> string \<times> string) list" where
  "watch_access =
     [(''kube-depod.io'', ''depodpolicies'', ''list''), (''kube-depod.io'', ''depodpolicies'', ''watch''),
      ([], ''pods'', ''list''), ([], ''pods'', ''watch'')]"

lemma requests_permitted: "permits cluster_role (request_access r)"
  by (cases r) (simp_all add: permits_def cluster_role_def)

lemma watches_permitted: "list_all (permits cluster_role) watch_access"
  by (simp add: permits_def cluster_role_def watch_access_def)

text \<open>What the role permits and nothing the operator does needs.\<close>

lemma unused_permissions:
  assumes "permits cluster_role a" and "a \<notin> range request_access" and "a \<notin> set watch_access"
  shows "a \<in> {(''kube-depod.io'', ''depodpolicies'', ''get''), ([], ''pods'', ''get''),
    ([], ''pods'', ''deletecollection''), ([], ''events'', ''create''), ([], ''events'', ''patch'')}"
proof -
  have used: "([], ''pods'', ''delete'') \<in> range request_access" "([], ''pods/eviction'', ''create'') \<in> range request_access"
    "(''kube-depod.io'', ''depodpolicies/status'', ''patch'') \<in> range request_access"
    "([], ''pods'', ''patch'') \<in> range request_access"
    using rangeI [of request_access "DeletePod [] [] None"] rangeI [of request_access "EvictPod [] [] []"]
      rangeI [of request_access "PatchPolicyStatus [] [] default_status"] rangeI [of request_access "PatchPod None [] []"]
    by simp_all
  obtain g r v where a: "a = (g, r, v)" by (cases a)
  have "g = ''kube-depod.io'' \<and> r = ''depodpolicies'' \<and> (v = ''get'' \<or> v = ''list'' \<or> v = ''watch'')
      \<or> g = ''kube-depod.io'' \<and> r = ''depodpolicies/status'' \<and> v = ''patch''
      \<or> g = [] \<and> r = ''pods'' \<and> (v = ''get'' \<or> v = ''list'' \<or> v = ''watch'' \<or> v = ''patch'' \<or> v = ''delete''
          \<or> v = ''deletecollection'')
      \<or> g = [] \<and> r = ''pods/eviction'' \<and> v = ''create''
      \<or> g = [] \<and> r = ''events'' \<and> (v = ''create'' \<or> v = ''patch'')"
    using assms(1) unfolding a permits_def cluster_role_def by (simp del: list.inject)
  then show ?thesis
    by (elim disjE conjE; use assms(2,3) used in \<open>simp add: a watch_access_def\<close>)
qed

section \<open>Probes\<close>

text \<open>Both probes ask \<open>/health\<close> on the port the server listens on, which answers as healthy.\<close>

definition probe_path :: string where
  "probe_path = ''/health''"

lemma probe_answered: "map_of (routes state) probe_path = Some (200, ''OK'')"
  by (simp add: routes_def probe_path_def health_handler_def)

end
