(* ===== verification/Shutdown.thy ===== *)
theory Shutdown
  imports Prelude
begin

text \<open>
  The shutdown protocol of \<open>src/main.rs\<close>: the metrics server, the signal task, the broadcast
  channel, the three tasks that are joined and the main task with its timeout, each advancing on
  its own. A broadcast reaches the receivers that exist when it is sent and no later ones. Which
  tasks can end by themselves and which can panic are parameters; the watcher of the reflector
  retries for ever.
\<close>

section \<open>Tasks and their steps\<close>

datatype receiver = Absent | Listening | Notified

datatype handle_state = NotSpawned | Active | Stopped | Panicked

text \<open>The arms of the match on the timeout around \<open>try_join!\<close>.\<close>

datatype join_result = Graceful | JoinError | TimedOut

text \<open>
  Where the main task is: before each of the spawns and subscriptions of lines 52 to 159, then
  waiting for the signal, then joining until a deadline, in seconds, and at last returned.
\<close>

datatype main_pc =
    SpawnServer
  | SpawnSignal
  | SpawnReflector
  | SpawnPolicy
  | SpawnPod
  | SubscribeMain
  | AwaitSignal
  | Joining nat
  | Returned join_result

record shutdown_sys =
  main_pc :: main_pc
  server_task :: handle_state
  signal_task :: handle_state
  reflector :: handle_state
  policy_handle :: handle_state
  pod_handle :: handle_state
  server_rx :: receiver
  policy_rx :: receiver
  pod_rx :: receiver
  main_rx :: receiver
  seconds :: nat

definition shutdown_start :: shutdown_sys where
  "shutdown_start =
     \<lparr>main_pc = SpawnServer, server_task = NotSpawned, signal_task = NotSpawned, reflector = NotSpawned,
      policy_handle = NotSpawned, pod_handle = NotSpawned, server_rx = Absent, policy_rx = Absent,
      pod_rx = Absent, main_rx = Absent, seconds = 0\<rparr>"

text \<open>\<open>shutdown_tx_signal.send(())\<close>, seen by one receiver.\<close>

definition notify :: "receiver \<Rightarrow> receiver" where
  "notify rx = (if rx = Listening then Notified else rx)"

abbreviation graceful_timeout :: nat where
  "graceful_timeout \<equiv> 30"

text \<open>
  A controller is spawned with the receiver it was given, which exists from just before; the
  server subscribes when its task first runs. Each stops when it is notified, when its stream
  of events ends or, the server, when it cannot be bound or fails. \<open>try_join!\<close> returns as soon
  as one of its tasks has panicked.
\<close>

datatype activity = Serving | Reflecting | PolicyEvents | PodEvents

inductive shutdown_step ::
  "(activity \<Rightarrow> bool) \<Rightarrow> (activity \<Rightarrow> bool) \<Rightarrow> shutdown_sys \<Rightarrow> shutdown_sys \<Rightarrow> bool"
  for ends panics where
  spawn_server:
    "main_pc s = SpawnServer \<Longrightarrow>
     shutdown_step ends panics s (s\<lparr>main_pc := SpawnSignal, server_task := Active\<rparr>)"
| spawn_signal:
    "main_pc s = SpawnSignal \<Longrightarrow>
     shutdown_step ends panics s (s\<lparr>main_pc := SpawnReflector, signal_task := Active\<rparr>)"
| spawn_reflector:
    "main_pc s = SpawnReflector \<Longrightarrow>
     shutdown_step ends panics s (s\<lparr>main_pc := SpawnPolicy, reflector := Active\<rparr>)"
| spawn_policy:
    "main_pc s = SpawnPolicy \<Longrightarrow>
     shutdown_step ends panics s (s\<lparr>main_pc := SpawnPod, policy_rx := Listening, policy_handle := Active\<rparr>)"
| spawn_pod:
    "main_pc s = SpawnPod \<Longrightarrow>
     shutdown_step ends panics s (s\<lparr>main_pc := SubscribeMain, pod_rx := Listening, pod_handle := Active\<rparr>)"
| subscribe_main:
    "main_pc s = SubscribeMain \<Longrightarrow>
     shutdown_step ends panics s (s\<lparr>main_pc := AwaitSignal, main_rx := Listening\<rparr>)"
| subscribe_server:
    "server_task s = Active \<Longrightarrow> server_rx s = Absent \<Longrightarrow>
     shutdown_step ends panics s (s\<lparr>server_rx := Listening\<rparr>)"
| signal:
    "signal_task s = Active \<Longrightarrow>
     shutdown_step ends panics s (s\<lparr>signal_task := Stopped, server_rx := notify (server_rx s),
        policy_rx := notify (policy_rx s), pod_rx := notify (pod_rx s), main_rx := notify (main_rx s)\<rparr>)"
| stop_server:
    "server_task s = Active \<Longrightarrow> server_rx s = Notified \<or> server_rx s = Listening \<and> ends Serving \<Longrightarrow>
     shutdown_step ends panics s (s\<lparr>server_task := Stopped\<rparr>)"
| stop_policy:
    "policy_handle s = Active \<Longrightarrow> policy_rx s = Notified \<or> ends PolicyEvents \<Longrightarrow>
     shutdown_step ends panics s (s\<lparr>policy_handle := Stopped\<rparr>)"
| stop_pod:
    "pod_handle s = Active \<Longrightarrow> pod_rx s = Notified \<or> ends PodEvents \<Longrightarrow>
     shutdown_step ends panics s (s\<lparr>pod_handle := Stopped\<rparr>)"
| stop_reflector:
    "reflector s = Active \<Longrightarrow> ends Reflecting \<Longrightarrow>
     shutdown_step ends panics s (s\<lparr>reflector := Stopped\<rparr>)"
| panic_policy:
    "policy_handle s = Active \<Longrightarrow> panics PolicyEvents \<Longrightarrow>
     shutdown_step ends panics s (s\<lparr>policy_handle := Panicked\<rparr>)"
| panic_pod:
    "pod_handle s = Active \<Longrightarrow> panics PodEvents \<Longrightarrow>
     shutdown_step ends panics s (s\<lparr>pod_handle := Panicked\<rparr>)"
| panic_reflector:
    "reflector s = Active \<Longrightarrow> panics Reflecting \<Longrightarrow>
     shutdown_step ends panics s (s\<lparr>reflector := Panicked\<rparr>)"
| begin_join:
    "main_pc s = AwaitSignal \<Longrightarrow> main_rx s = Notified \<Longrightarrow>
     shutdown_step ends panics s (s\<lparr>main_pc := Joining (seconds s + graceful_timeout)\<rparr>)"
| join_all:
    "main_pc s = Joining d \<Longrightarrow> reflector s = Stopped \<Longrightarrow> policy_handle s = Stopped \<Longrightarrow>
     pod_handle s = Stopped \<Longrightarrow> shutdown_step ends panics s (s\<lparr>main_pc := Returned Graceful\<rparr>)"
| join_error:
    "main_pc s = Joining d \<Longrightarrow> reflector s = Panicked \<or> policy_handle s = Panicked \<or> pod_handle s = Panicked \<Longrightarrow>
     shutdown_step ends panics s (s\<lparr>main_pc := Returned JoinError\<rparr>)"
| join_timeout:
    "main_pc s = Joining d \<Longrightarrow> d \<le> seconds s \<Longrightarrow>
     shutdown_step ends panics s (s\<lparr>main_pc := Returned TimedOut\<rparr>)"
| second_passes:
    "shutdown_step ends panics s (s\<lparr>seconds := Suc (seconds s)\<rparr>)"

inductive_cases shutdown_stepE [consumes 1]: "shutdown_step ends panics s t"

abbreviation shutdown_reach ::
  "(activity \<Rightarrow> bool) \<Rightarrow> (activity \<Rightarrow> bool) \<Rightarrow> shutdown_sys \<Rightarrow> bool" where
  "shutdown_reach ends panics \<equiv> reach (\<lambda>s. s = shutdown_start) (shutdown_step ends panics)"

section \<open>No shutdown without a signal\<close>

definition spawned :: "main_pc \<Rightarrow> nat" where
  "spawned pc = (case pc of SpawnServer \<Rightarrow> 0 | SpawnSignal \<Rightarrow> 1 | SpawnReflector \<Rightarrow> 2 | SpawnPolicy \<Rightarrow> 3
     | SpawnPod \<Rightarrow> 4 | SubscribeMain \<Rightarrow> 5 | _ \<Rightarrow> 6)"

text \<open>The main task spawns and subscribes in the order of the source, each once.\<close>

definition spawn_order :: "shutdown_sys \<Rightarrow> bool" where
  "spawn_order s \<longleftrightarrow>
     (server_task s = NotSpawned \<longleftrightarrow> spawned (main_pc s) = 0)
   \<and> (signal_task s = NotSpawned \<longleftrightarrow> spawned (main_pc s) \<le> 1)
   \<and> (reflector s = NotSpawned \<longleftrightarrow> spawned (main_pc s) \<le> 2)
   \<and> (policy_handle s = NotSpawned \<longleftrightarrow> spawned (main_pc s) \<le> 3)
   \<and> (policy_rx s = Absent \<longleftrightarrow> spawned (main_pc s) \<le> 3)
   \<and> (pod_handle s = NotSpawned \<longleftrightarrow> spawned (main_pc s) \<le> 4)
   \<and> (pod_rx s = Absent \<longleftrightarrow> spawned (main_pc s) \<le> 4)
   \<and> (main_rx s = Absent \<longleftrightarrow> spawned (main_pc s) \<le> 5)"

lemma notify_Absent [simp]: "notify rx = Absent \<longleftrightarrow> rx = Absent"
  by (cases rx) (simp_all add: notify_def)

lemma notify_Notified [simp]: "notify rx = Notified \<longleftrightarrow> rx \<noteq> Absent"
  by (cases rx) (simp_all add: notify_def)

lemma spawn_order_step: "shutdown_step ends panics s t \<Longrightarrow> spawn_order s \<Longrightarrow> spawn_order t"
  by (erule shutdown_stepE) (simp_all add: spawn_order_def spawned_def)

text \<open>
  A receiver has been notified only by the signal, the main task leaves its wait only notified,
  a task whose stream does not end stops only notified, and only one that can panic panics.
\<close>

definition signal_ok :: "shutdown_sys \<Rightarrow> bool" where
  "signal_ok s \<longleftrightarrow>
     (signal_task s \<noteq> Stopped \<longrightarrow>
        server_rx s \<noteq> Notified \<and> policy_rx s \<noteq> Notified \<and> pod_rx s \<noteq> Notified \<and> main_rx s \<noteq> Notified)"

definition wait_ok :: "shutdown_sys \<Rightarrow> bool" where
  "wait_ok s \<longleftrightarrow> ((\<exists>d. main_pc s = Joining d) \<or> (\<exists>r. main_pc s = Returned r) \<longrightarrow> main_rx s = Notified)"

definition stops_ok :: "(activity \<Rightarrow> bool) \<Rightarrow> shutdown_sys \<Rightarrow> bool" where
  "stops_ok ends s \<longleftrightarrow>
     (reflector s = Stopped \<longrightarrow> ends Reflecting)
   \<and> (policy_handle s = Stopped \<longrightarrow> policy_rx s = Notified \<or> ends PolicyEvents)
   \<and> (pod_handle s = Stopped \<longrightarrow> pod_rx s = Notified \<or> ends PodEvents)"

definition panics_ok :: "(activity \<Rightarrow> bool) \<Rightarrow> shutdown_sys \<Rightarrow> bool" where
  "panics_ok panics s \<longleftrightarrow>
     (reflector s = Panicked \<longrightarrow> panics Reflecting) \<and> (policy_handle s = Panicked \<longrightarrow> panics PolicyEvents)
   \<and> (pod_handle s = Panicked \<longrightarrow> panics PodEvents)"

definition result_ok :: "shutdown_sys \<Rightarrow> bool" where
  "result_ok s \<longleftrightarrow>
     (main_pc s = Returned Graceful \<longrightarrow>
        reflector s = Stopped \<and> policy_handle s = Stopped \<and> pod_handle s = Stopped)
   \<and> (main_pc s = Returned JoinError \<longrightarrow>
        reflector s = Panicked \<or> policy_handle s = Panicked \<or> pod_handle s = Panicked)"

definition shutdown_ok :: "(activity \<Rightarrow> bool) \<Rightarrow> (activity \<Rightarrow> bool) \<Rightarrow> shutdown_sys \<Rightarrow> bool" where
  "shutdown_ok ends panics s \<longleftrightarrow>
     spawn_order s \<and> signal_ok s \<and> wait_ok s \<and> stops_ok ends s \<and> panics_ok panics s \<and> result_ok s"

lemmas shutdown_ok_defs =
  shutdown_ok_def signal_ok_def wait_ok_def stops_ok_def panics_ok_def result_ok_def

lemma shutdown_ok_start: "shutdown_ok ends panics shutdown_start"
  by (simp add: shutdown_ok_defs shutdown_start_def spawn_order_def spawned_def)

lemma signal_ok_step:
  assumes "shutdown_step ends panics s t" and "signal_ok s" and "spawn_order s"
  shows "signal_ok t"
proof -
  have "main_pc s = SpawnSignal \<Longrightarrow> signal_task s \<noteq> Stopped"
    using assms(3) by (simp add: spawn_order_def spawned_def)
  then show ?thesis using assms(1,2)
    by (cases rule: shutdown_stepE [OF assms(1)]) (auto simp: signal_ok_def)
qed

lemma wait_ok_step: "shutdown_step ends panics s t \<Longrightarrow> wait_ok s \<Longrightarrow> wait_ok t"
  by (erule shutdown_stepE) (auto simp: wait_ok_def)

lemma stops_ok_step: "shutdown_step ends panics s t \<Longrightarrow> stops_ok ends s \<Longrightarrow> stops_ok ends t"
  by (erule shutdown_stepE) (auto simp: stops_ok_def)

lemma panics_ok_step: "shutdown_step ends panics s t \<Longrightarrow> panics_ok panics s \<Longrightarrow> panics_ok panics t"
  by (erule shutdown_stepE) (auto simp: panics_ok_def)

lemma result_ok_step: "shutdown_step ends panics s t \<Longrightarrow> result_ok s \<Longrightarrow> result_ok t"
  by (erule shutdown_stepE) (auto simp: result_ok_def)

lemma shutdown_ok_step:
  assumes "shutdown_step ends panics s t" and "shutdown_ok ends panics s"
  shows "shutdown_ok ends panics t"
  using assms(2) spawn_order_step [OF assms(1)] signal_ok_step [OF assms(1)] wait_ok_step [OF assms(1)]
    stops_ok_step [OF assms(1)] panics_ok_step [OF assms(1)] result_ok_step [OF assms(1)]
  unfolding shutdown_ok_def by blast

text \<open>The deadline is at most the timeout away.\<close>

definition deadline_ok :: "shutdown_sys \<Rightarrow> bool" where
  "deadline_ok s \<longleftrightarrow> (\<forall>d. main_pc s = Joining d \<longrightarrow> d \<le> seconds s + graceful_timeout)"

lemma deadline_ok_step: "shutdown_step ends panics s t \<Longrightarrow> deadline_ok s \<Longrightarrow> deadline_ok t"
  by (erule shutdown_stepE) (auto simp: deadline_ok_def)

interpretation shutdown_protocol:
  invariant_system "\<lambda>s. s = shutdown_start" "shutdown_step ends panics"
    "\<lambda>s. shutdown_ok ends panics s \<and> deadline_ok s"
  for ends panics :: "activity \<Rightarrow> bool"
proof
  show "shutdown_ok ends panics s \<and> deadline_ok s" if "s = shutdown_start" for s
    using that shutdown_ok_start by (simp add: deadline_ok_def shutdown_start_def)
qed (blast intro: shutdown_ok_step deadline_ok_step)

text \<open>
  C39. The process only returns after the signal. It returns gracefully only when all three
  tasks have stopped, and with a join error only when one of them has panicked; nobody notifies
  the reflector, so its stream must have ended by itself for a graceful end. With a watcher that
  never ends and no panic, every shutdown runs into the timeout.
\<close>

theorem shutdown_outcomes:
  assumes "shutdown_reach ends panics s" and "main_pc s = Returned r"
  shows "signal_task s = Stopped
       \<and> (r = Graceful \<longrightarrow> reflector s = Stopped \<and> policy_handle s = Stopped \<and> pod_handle s = Stopped)
       \<and> (r = JoinError \<longrightarrow> panics Reflecting \<or> panics PolicyEvents \<or> panics PodEvents)
       \<and> (\<not> ends Reflecting \<and> (\<forall>a. \<not> panics a) \<longrightarrow> r = TimedOut)"
  using shutdown_protocol.reach_inv [OF assms(1)] assms(2)
  by (cases r) (auto simp: shutdown_ok_defs)

text \<open>A task whose handle is ready is not spawned again.\<close>

abbreviation gone :: "handle_state \<Rightarrow> bool" where
  "gone h \<equiv> h = Stopped \<or> h = Panicked"

lemma handle_stays:
  assumes "shutdown_step ends panics s t" and "spawn_order s"
  shows "gone (pod_handle s) \<Longrightarrow> pod_handle t = pod_handle s"
    and "gone (policy_handle s) \<Longrightarrow> policy_handle t = policy_handle s"
  using assms by (cases rule: shutdown_stepE; auto simp: spawn_order_def spawned_def)+

section \<open>Sample runs\<close>

lemma reach_shutdown_step:
  "shutdown_reach ends panics s \<Longrightarrow> shutdown_step ends panics s t \<Longrightarrow> t = u \<Longrightarrow> shutdown_reach ends panics u"
  by (auto intro: reach_step)

definition all_spawned :: shutdown_sys where
  "all_spawned =
     \<lparr>main_pc = SubscribeMain, server_task = Active, signal_task = Active, reflector = Active,
      policy_handle = Active, pod_handle = Active, server_rx = Absent, policy_rx = Listening,
      pod_rx = Listening, main_rx = Absent, seconds = 0\<rparr>"

lemma reach_all_spawned: "shutdown_reach ends panics all_spawned"
proof -
  let ?s0 = "shutdown_start\<lparr>main_pc := SpawnSignal, server_task := Active\<rparr>"
  let ?s1 = "?s0\<lparr>main_pc := SpawnReflector, signal_task := Active\<rparr>"
  let ?s2 = "?s1\<lparr>main_pc := SpawnPolicy, reflector := Active\<rparr>"
  let ?s3 = "?s2\<lparr>main_pc := SpawnPod, policy_rx := Listening, policy_handle := Active\<rparr>"
  have "shutdown_reach ends panics ?s0"
    by (rule reach_shutdown_step [OF reach_start spawn_server]) (simp_all add: shutdown_start_def)
  then have "shutdown_reach ends panics ?s1"
    by (rule reach_shutdown_step [OF _ spawn_signal]) simp_all
  then have "shutdown_reach ends panics ?s2"
    by (rule reach_shutdown_step [OF _ spawn_reflector]) simp_all
  then have "shutdown_reach ends panics ?s3"
    by (rule reach_shutdown_step [OF _ spawn_policy]) simp_all
  then show ?thesis
    by (rule reach_shutdown_step [OF _ spawn_pod]) (simp_all add: all_spawned_def shutdown_start_def)
qed

lemma reach_seconds: "shutdown_reach ends panics s \<Longrightarrow> shutdown_reach ends panics (s\<lparr>seconds := seconds s + n\<rparr>)"
proof (induction n)
  case (Suc n)
  have "shutdown_reach ends panics (s\<lparr>seconds := seconds s + n\<rparr>)" by (rule Suc.IH [OF Suc.prems])
  then show ?case by (rule reach_shutdown_step [OF _ second_passes]) simp
qed simp

text \<open>The signal comes when all tasks listen, and thirty seconds later the main task gives up.\<close>

definition all_notified :: shutdown_sys where
  "all_notified = all_spawned\<lparr>main_pc := AwaitSignal, signal_task := Stopped, policy_rx := Notified,
     pod_rx := Notified, main_rx := Notified\<rparr>"

lemma reach_all_notified: "shutdown_reach ends panics all_notified"
proof -
  let ?s1 = "all_spawned\<lparr>main_pc := AwaitSignal, main_rx := Listening\<rparr>"
  have "shutdown_reach ends panics ?s1"
    by (rule reach_shutdown_step [OF reach_all_spawned subscribe_main]) (simp_all add: all_spawned_def)
  then show ?thesis
    by (rule reach_shutdown_step [OF _ signal]) (simp_all add: all_notified_def all_spawned_def notify_def)
qed

lemma reach_timed_out: "\<exists>s. shutdown_reach ends panics s \<and> main_pc s = Returned TimedOut"
proof -
  let ?s = "all_notified\<lparr>main_pc := Joining 30\<rparr>"
  have "shutdown_reach ends panics ?s"
    by (rule reach_shutdown_step [OF reach_all_notified begin_join]) (simp_all add: all_notified_def all_spawned_def)
  then have "shutdown_reach ends panics (?s\<lparr>seconds := seconds ?s + 30\<rparr>)" by (rule reach_seconds)
  then have "shutdown_reach ends panics (?s\<lparr>seconds := seconds ?s + 30, main_pc := Returned TimedOut\<rparr>)"
    by (rule reach_shutdown_step [OF _ join_timeout [where d = 30]]) (simp_all add: all_notified_def all_spawned_def)
  then show ?thesis by (intro exI conjI) (assumption, simp)
qed

theorem shutdown_outcomes_witness:
  "\<exists>s :: shutdown_sys. main_pc s = Returned TimedOut \<and> signal_task s = Stopped"
proof -
  obtain s where s: "shutdown_reach (\<lambda>_. False) (\<lambda>_. False) s" "main_pc s = Returned TimedOut"
    using reach_timed_out by blast
  then show ?thesis using shutdown_outcomes [OF s] by blast
qed

section \<open>A signal that comes too early\<close>

lemma signal_lost_step:
  "shutdown_step ends panics s t \<Longrightarrow> spawn_order s \<Longrightarrow> signal_task s = Stopped \<Longrightarrow> main_rx s \<noteq> Notified \<Longrightarrow>
     signal_task t = Stopped \<and> main_rx t \<noteq> Notified"
  by (erule shutdown_stepE) (auto simp: spawn_order_def spawned_def)

lemma signal_lost_steps:
  assumes "(shutdown_step ends panics)\<^sup>*\<^sup>* s t" and "spawn_order s" and "signal_task s = Stopped"
    and "main_rx s \<noteq> Notified"
  shows "spawn_order t \<and> signal_task t = Stopped \<and> main_rx t \<noteq> Notified"
  using assms
proof (induction rule: rtranclp_induct)
  case (step t u)
  then show ?case using signal_lost_step spawn_order_step by blast
qed simp

text \<open>
  C40. The signal is handled once. If it comes after the handler was spawned but before the main
  task has subscribed to the channel, the main task never learns of it: whatever happens later,
  it never begins the shutdown and never finishes. Such a moment is reachable.
\<close>

theorem early_signal_is_lost:
  "(\<exists>s. shutdown_reach ends panics s \<and> signal_task s = Stopped \<and> main_rx s = Absent)
   \<and> (\<forall>s t. shutdown_reach ends panics s \<and> signal_task s = Stopped \<and> main_rx s \<noteq> Notified
         \<and> (shutdown_step ends panics)\<^sup>*\<^sup>* s t
       \<longrightarrow> (\<forall>d. main_pc t \<noteq> Joining d) \<and> (\<forall>r. main_pc t \<noteq> Returned r))"
proof (intro conjI allI impI)
  have "shutdown_reach ends panics (all_spawned\<lparr>signal_task := Stopped, policy_rx := Notified, pod_rx := Notified\<rparr>)"
    by (rule reach_shutdown_step [OF reach_all_spawned signal]) (simp_all add: all_spawned_def notify_def)
  then show "\<exists>s. shutdown_reach ends panics s \<and> signal_task s = Stopped \<and> main_rx s = Absent"
    by (intro exI conjI) (assumption, simp_all add: all_spawned_def)
next
  fix s t
  assume s: "shutdown_reach ends panics s \<and> signal_task s = Stopped \<and> main_rx s \<noteq> Notified
      \<and> (shutdown_step ends panics)\<^sup>*\<^sup>* s t"
  have "spawn_order s" using shutdown_protocol.reach_inv s by (auto simp: shutdown_ok_defs)
  then have "main_rx t \<noteq> Notified" using signal_lost_steps s by blast
  moreover have "shutdown_reach ends panics t" using s by (auto intro: reach_steps)
  then have "shutdown_ok ends panics t" using shutdown_protocol.reach_inv by blast
  ultimately show "main_pc t \<noteq> Joining d" and "main_pc t \<noteq> Returned r" for d r
    by (auto simp: shutdown_ok_defs)
qed

theorem early_signal_is_lost_witness:
  "\<exists>s. shutdown_reach (\<lambda>_. False) (\<lambda>_. False) s \<and> signal_task s = Stopped \<and> (\<forall>r. main_pc s \<noteq> Returned r)"
proof -
  obtain s where "shutdown_reach (\<lambda>_. False) (\<lambda>_. False) s" "signal_task s = Stopped" "main_rx s = Absent"
    using early_signal_is_lost [of "\<lambda>_. False" "\<lambda>_. False"] by blast
  then show ?thesis using early_signal_is_lost [of "\<lambda>_. False" "\<lambda>_. False"] by fastforce
qed

end
