(* ===== verification/Operator_Main.thy ===== *)
theory Operator_Main
  imports Task_Safety Shutdown Http_Server
begin

text \<open>
  The process of \<open>src/main.rs\<close> as a whole: the interleaved reconciliations, and beside them the
  shutdown protocol, whose tasks the controllers run in. As the controller runtime and tokio
  document it, the reconciliations of a controller whose task ends are aborted, which takes
  effect where they next wait, and a panic of a reconciliation is one of its controller's task.
  What is cut off between the return of the main task and the exit of the process is left open.
\<close>

section \<open>The process\<close>

text \<open>
  \<open>halted\<close> are the reconciliations of pods, by number, that the end of their controller has
  stopped for good.
\<close>

record 'p process =
  work :: "'p tasks_sys"
  control :: shutdown_sys
  halted :: "nat set"

text \<open>A reconciliation of a pod only ever waits for the API server.\<close>

fun is_waiting :: "task \<Rightarrow> bool" where
  "is_waiting (Awaiting h r pod ps ttl) = True"
| "is_waiting t = False"

text \<open>
  Reconciliations begin only while the controller is active; those of pods that the end of the
  controller finds at work go on until they wait. Those of policies have no bound here.
\<close>

fun can_happen :: "event \<Rightarrow> 'p process \<Rightarrow> bool" where
  "can_happen (Spawn pod) s \<longleftrightarrow> pod_handle (control s) = Active"
| "can_happen (Run i) s \<longleftrightarrow> pod_handle (control s) = Active \<or> i \<notin> halted s"
| "can_happen (PolicyChange policy) s \<longleftrightarrow> policy_handle (control s) = Active"
| "can_happen (RunPolicy j p) s \<longleftrightarrow> True"
| "can_happen (StoreSync store) s \<longleftrightarrow> reflector (control s) = Active"

fun halts :: "event \<Rightarrow> 'p process \<Rightarrow> 'p tasks_sys \<Rightarrow> nat set" where
  "halts (Run i) s t = (if pod_handle (control s) \<noteq> Active \<and> is_waiting (tasks t ! i) then {i} else {})"
| "halts e s t = {}"

inductive process_step :: "'p World \<Rightarrow> (activity \<Rightarrow> bool) \<Rightarrow> 'p process \<Rightarrow> 'p process \<Rightarrow> bool"
  for w :: "'p World" and ends where
  control_step:
    "shutdown_step ends (\<lambda>_. False) (control s) c \<Longrightarrow> process_step w ends s (s\<lparr>control := c\<rparr>)"
| work_step:
    "can_happen e s \<Longrightarrow> sys_step w e (work s) t \<Longrightarrow>
     process_step w ends s (s\<lparr>work := t, halted := halted s \<union> halts e s t\<rparr>)"
| reconcile_panic:
    "pod_handle (control s) = Active \<Longrightarrow>
     i < length (tasks (work s)) \<Longrightarrow> task_step w (tasks (work s) ! i) (shared (work s)) = None \<Longrightarrow>
     process_step w ends s (s\<lparr>control := (control s)\<lparr>pod_handle := Panicked\<rparr>\<rparr>)"

inductive_cases process_stepE [consumes 1, case_names control_step work_step reconcile_panic]:
  "process_step w ends s t"

definition process_start :: "'p World \<Rightarrow> Config \<Rightarrow> 'p process \<Rightarrow> bool" where
  "process_start w config s \<longleftrightarrow>
     sys_start w config (work s) \<and> control s = shutdown_start \<and> halted s = {}"

definition process_reach :: "'p World \<Rightarrow> Config \<Rightarrow> (activity \<Rightarrow> bool) \<Rightarrow> 'p process \<Rightarrow> bool" where
  "process_reach w config ends = reach (process_start w config) (process_step w ends)"

section \<open>Its two halves\<close>

text \<open>Only reconciliations of pods panic.\<close>

abbreviation pod_panics :: "activity \<Rightarrow> bool" where
  "pod_panics \<equiv> (\<lambda>a. a = PodEvents)"

lemma shutdown_step_panics:
  "shutdown_step ends (\<lambda>_. False) c c' \<Longrightarrow> shutdown_step ends panics c c'"
  by (induction rule: shutdown_step.induct) (auto intro: shutdown_step.intros)

lemma process_step_control:
  assumes "process_step w ends s t"
  shows "control t = control s \<or> shutdown_step ends pod_panics (control s) (control t)"
  using assms
proof (cases rule: process_stepE)
  case (control_step c)
  then show ?thesis using shutdown_step_panics by auto
qed (auto intro: panic_pod)

interpretation process: invariant_system "process_start w config" "process_step w ends"
    "\<lambda>s. sys_reach w config (work s) \<and> shutdown_reach ends pod_panics (control s)"
  for w :: "'p World" and config :: Config and ends
proof
  fix s :: "'p process"
  assume "process_start w config s"
  then show "sys_reach w config (work s) \<and> shutdown_reach ends pod_panics (control s)"
    by (auto simp: process_start_def sys_reach_def intro: reach_init)
next
  fix s t :: "'p process"
  assume s: "sys_reach w config (work s) \<and> shutdown_reach ends pod_panics (control s)"
    and step: "process_step w ends s t"
  have "shutdown_reach ends pod_panics (control t)"
    using process_step_control [OF step] s by (auto intro: reach_step)
  moreover have "sys_reach w config (work t)"
    using step s by (cases rule: process_stepE) (auto simp: sys_reach_def intro: reach_step)
  ultimately show "sys_reach w config (work t) \<and> shutdown_reach ends pod_panics (control t)" by blast
qed

lemma process_parts:
  assumes "process_reach w config ends s"
  shows "sys_reach w config (work s)" and "shutdown_ok ends pod_panics (control s)"
    and "deadline_ok (control s)"
  using process.reach_inv assms shutdown_protocol.reach_inv unfolding process_reach_def by blast+

lemma process_reach_steps:
  "process_reach w config ends s \<Longrightarrow> (process_step w ends)\<^sup>*\<^sup>* s t \<Longrightarrow> process_reach w config ends t"
  unfolding process_reach_def by (auto intro: reach_steps)

section \<open>A controller that is gone\<close>

text \<open>The reconciliations of pods that may still do something once their controller is gone.\<close>

definition at_large :: "'p process \<Rightarrow> nat set" where
  "at_large s = {i. i < length (tasks (work s)) \<and> \<not> is_finished (tasks (work s) ! i) \<and> i \<notin> halted s}"

lemma finite_at_large [simp]: "finite (at_large s)"
  by (simp add: at_large_def)







section \<open>The end of the process\<close>


lemma seconds_pass:
  "(process_step w ends)\<^sup>*\<^sup>* s (s\<lparr>control := (control s)\<lparr>seconds := seconds (control s) + n\<rparr>\<rparr>)"
proof (induction n)
  case (Suc n)
  let ?t = "s\<lparr>control := (control s)\<lparr>seconds := seconds (control s) + n\<rparr>\<rparr>"
  have "process_step w ends ?t (?t\<lparr>control := (control ?t)\<lparr>seconds := Suc (seconds (control ?t))\<rparr>\<rparr>)"
    by (rule control_step) (rule second_passes)
  then show ?case using Suc.IH by (auto intro: rtranclp.rtrancl_into_rtrancl)
qed simp

lemma join_ends:
  assumes "main_pc (control s) = Joining d" and "d \<le> seconds (control s) + n"
  shows "\<exists>t. (process_step w ends)\<^sup>*\<^sup>* s t \<and> main_pc (control t) = Returned TimedOut
     \<and> work t = work s \<and> seconds (control t) = seconds (control s) + n"
proof -
  let ?t = "s\<lparr>control := (control s)\<lparr>seconds := seconds (control s) + n\<rparr>\<rparr>"
  have "process_step w ends ?t (?t\<lparr>control := (control ?t)\<lparr>main_pc := Returned TimedOut\<rparr>\<rparr>)"
    by (rule control_step) (rule join_timeout [where d = d], use assms in simp_all)
  with seconds_pass have "(process_step w ends)\<^sup>*\<^sup>* s (?t\<lparr>control := (control ?t)\<lparr>main_pc := Returned TimedOut\<rparr>\<rparr>)"
    by (rule rtranclp.rtrancl_into_rtrancl)
  then show ?thesis by (intro exI conjI) (assumption, simp_all)
qed

text \<open>
  C38. A shutdown that the main task has learnt of ends: whatever state the reconciliations, the
  reflector and the server are in, and without another step of theirs, the process can return
  and no more than thirty seconds have to pass until it does.
\<close>

theorem notified_process_returns:
  assumes "process_reach w config ends s" and "main_rx (control s) = Notified"
  shows "\<exists>t r. (process_step w ends)\<^sup>*\<^sup>* s t \<and> main_pc (control t) = Returned r
           \<and> work t = work s \<and> seconds (control t) \<le> seconds (control s) + 30"
proof -
  have ok: "shutdown_ok ends pod_panics (control s)" by (rule process_parts(2) [OF assms(1)])
  then have "6 \<le> spawned (main_pc (control s))" using assms(2) by (auto simp: shutdown_ok_defs spawn_order_def)
  then consider "main_pc (control s) = AwaitSignal" | d where "main_pc (control s) = Joining d"
    | r where "main_pc (control s) = Returned r"
    by (cases "main_pc (control s)") (simp_all add: spawned_def)
  then show ?thesis
  proof cases
    case 1
    let ?t = "s\<lparr>control := (control s)\<lparr>main_pc := Joining (seconds (control s) + 30)\<rparr>\<rparr>"
    have "process_step w ends s ?t" by (rule control_step) (rule begin_join [OF 1 assms(2)])
    moreover obtain t where "(process_step w ends)\<^sup>*\<^sup>* ?t t" "main_pc (control t) = Returned TimedOut"
        "work t = work ?t" "seconds (control t) = seconds (control ?t) + 30"
      using join_ends [of ?t "seconds (control s) + 30" 30 w ends] by auto
    ultimately show ?thesis
      by (intro exI [of _ t] exI [of _ TimedOut]) (auto intro: converse_rtranclp_into_rtranclp)
  next
    case (2 d)
    have "d \<le> seconds (control s) + 30" using process_parts(3) [OF assms(1)] 2 by (simp add: deadline_ok_def)
    then show ?thesis using join_ends [OF 2, of 30 w ends] by fastforce
  next
    case (3 r)
    then show ?thesis by (intro exI [of _ s] exI [of _ r]) simp
  qed
qed

section \<open>Sample processes\<close>

lemma process_reach_control:
  assumes "shutdown_reach ends (\<lambda>_. False) c" and "sys_start w config s0"
  shows "process_reach w config ends \<lparr>work = s0, control = c, halted = {}\<rparr>"
  using assms(1)
proof (induction rule: reach.induct)
  case (reach_init c)
  have "process_start w config \<lparr>work = s0, control = c, halted = {}\<rparr>"
    using reach_init.hyps assms(2) by (simp add: process_start_def)
  then show ?case unfolding process_reach_def by (rule reach.reach_init)
next
  case (reach_step c c')
  have "process_step w ends \<lparr>work = s0, control = c, halted = {}\<rparr> \<lparr>work = s0, control = c', halted = {}\<rparr>"
    using process_step.control_step [of ends "\<lparr>work = s0, control = c, halted = {}\<rparr>" c' w]
      reach_step.hyps(2) by simp
  then show ?case using reach_step.IH unfolding process_reach_def by (blast intro: reach.reach_step)
qed







lemma notified_processE:
  obtains s where "process_reach sample_world sample_config (\<lambda>_. False) s" and "control s = all_notified"
proof -
  obtain ctx where ctx: "start_context sample_world sample_config = Some ctx"
    using sample_interleaving_requests by (auto simp: sample_interleaving_def split: option.splits)
  have "process_reach sample_world sample_config (\<lambda>_. False)
      \<lparr>work = \<lparr>shared = ctx, tasks = [], policy_tasks = []\<rparr>, control = all_notified, halted = {}\<rparr>"
    by (rule process_reach_control [OF reach_all_notified]) (simp add: sys_start_def ctx)
  then show thesis by (rule that) simp
qed

theorem notified_process_returns_witness:
  "\<exists>t r. process_reach sample_world sample_config (\<lambda>_. False) t \<and> main_pc (control t) = Returned r
     \<and> seconds (control t) \<le> 30"
proof (rule notified_processE)
  fix s
  assume s: "process_reach sample_world sample_config (\<lambda>_. False) s" and c: "control s = all_notified"
  have "main_rx (control s) = Notified" and "seconds (control s) = 0"
    by (simp_all add: c all_notified_def all_spawned_def)
  then show ?thesis using notified_process_returns [OF s] process_reach_steps [OF s] by fastforce
qed


end
