(* ===== verification/Engine_Tests.thy ===== *)
theory Engine_Tests
  imports Rate_Limiter Cel_Engine
begin

text \<open>
  The unit tests of \<open>src/rate_limiter.rs\<close> and \<open>src/engine/cel.rs\<close>, carried out on the model.
  They read the clock and call the CEL library, which are arguments here: what a test expects of
  them is stated, and under it the test is proved to pass.
\<close>

section \<open>Rate limiter\<close>

text \<open>The \<open>i\<close>-th reading of the clock is \<open>clk i\<close>.\<close>

definition test_global_rate_limit :: "(nat \<Rightarrow> instant) \<Rightarrow> bool option" where
  "test_global_rate_limit clk = do {
     limiter \<leftarrow> new_limiter (clk 0) 3;
     (a, limiter) \<leftarrow> allow_global (clk 1) limiter;
     (b, limiter) \<leftarrow> allow_global (clk 2) limiter;
     (c, limiter) \<leftarrow> allow_global (clk 3) limiter;
     (d, limiter) \<leftarrow> allow_global (clk 4) limiter;
     Some (a \<and> b \<and> c \<and> \<not> d) }"

definition test_policy_rate_limit :: "(nat \<Rightarrow> instant) \<Rightarrow> bool option" where
  "test_policy_rate_limit clk = do {
     limiter \<leftarrow> new_limiter (clk 0) 100;
     (a, limiter) \<leftarrow> allow_policy (clk 1) (clk 2) ''test-policy'' (Some 2) limiter;
     (b, limiter) \<leftarrow> allow_policy (clk 3) (clk 4) ''test-policy'' (Some 2) limiter;
     (c, limiter) \<leftarrow> allow_policy (clk 5) (clk 6) ''test-policy'' (Some 2) limiter;
     (d, limiter) \<leftarrow> allow_policy (clk 7) (clk 8) ''other-policy'' (Some 2) limiter;
     Some (a \<and> b \<and> \<not> c \<and> d) }"

definition test_policy_limit_update :: "(nat \<Rightarrow> instant) \<Rightarrow> bool option" where
  "test_policy_limit_update clk = do {
     limiter \<leftarrow> new_limiter (clk 0) 100;
     (a, limiter) \<leftarrow> allow_policy (clk 1) (clk 2) ''dynamic-policy'' (Some 1) limiter;
     (b, limiter) \<leftarrow> allow_policy (clk 3) (clk 4) ''dynamic-policy'' (Some 1) limiter;
     (c, limiter) \<leftarrow> allow_policy (clk 5) (clk 6) ''dynamic-policy'' (Some 10) limiter;
     Some (a \<and> \<not> b \<and> c) }"

text \<open>The tests expect to run within a minute, by a clock that is not before the epoch.\<close>

definition within_a_minute :: "(nat \<Rightarrow> instant) \<Rightarrow> bool" where
  "within_a_minute clk \<longleftrightarrow>
     (\<forall>i. 0 \<le> clk i \<and> clk i < 2 ^ 64 * nanos_per_sec)
   \<and> (\<forall>i j. clk i div nanos_per_sec < clk j div nanos_per_sec + 60)"

lemma within_a_minuteE:
  assumes "within_a_minute clk"
  obtains n where "\<And>i. unix_secs (clk i) = Some (n i)"
    and "\<And>i j b. last_reset b = n j \<Longrightarrow> refill_at (n i) b = b"
proof -
  have "\<exists>n. unix_secs (clk i) = Some n" for i
    using assms unix_secs_Some by (simp add: within_a_minute_def)
  then obtain n where n: "\<And>i. unix_secs (clk i) = Some (n i)" by metis
  have "unat (n i) - unat (n j) < 60" for i j
  proof -
    have "int (unat (n i)) < int (unat (n j)) + 60"
      using unat_unix_secs [OF n] assms unfolding within_a_minute_def by presburger
    then show ?thesis by linarith
  qed
  then have "\<not> 60 \<le> saturating_sub (n i) (n j)" for i j
    by (simp add: word_le_nat_alt unat_saturating_sub not_le)
  then have "refill_at (n i) b = b" if "last_reset b = n j" for i j b
    using that by (simp add: refill_at_def)
  then show thesis using n that by blast
qed

lemma limiter_tests:
  assumes "within_a_minute clk"
  shows "test_global_rate_limit clk = Some True" and "test_policy_rate_limit clk = Some True"
    and "test_policy_limit_update clk = Some True"
proof -
  obtain n where n: "\<And>i. unix_secs (clk i) = Some (n i)"
    and r: "\<And>i j b. last_reset b = n j \<Longrightarrow> refill_at (n i) b = b"
    using within_a_minuteE [OF assms] by metis
  note defs = new_limiter_def new_bucket_def new_bucket_at_def allow_at_def take_token_def n
  show "test_global_rate_limit clk = Some True"
    by (simp add: test_global_rate_limit_def allow_global_eq_at [OF n] defs r)
  have limits: "effective_limit (Some 1) = Some 1" "effective_limit (Some 2) = Some 2"
      "effective_limit (Some 10) = Some 10"
    by (simp_all add: effective_limit_def)
  show "test_policy_rate_limit clk = Some True"
    by (simp add: test_policy_rate_limit_def allow_policy_eq_at [OF limits(2) n n]
        allow_policy_at_def defs r Let_def)
  show "test_policy_limit_update clk = Some True"
    by (simp add: test_policy_limit_update_def allow_policy_eq_at [OF limits(1) n n]
        allow_policy_eq_at [OF limits(3) n n] allow_policy_at_def defs r Let_def)
qed

section \<open>Evaluator\<close>

text \<open>
  A test that reads the clock itself does so at \<open>now\<close>; the evaluator reads it at a later
  instant. \<open>default_pod\<close> with the given creation time or status are the pods of the tests.
\<close>

definition aged_pod :: "instant \<Rightarrow> Pod" where
  "aged_pod past = default_pod\<lparr>pod_creation_timestamp := Some past\<rparr>"

definition failed_status :: json where
  "failed_status = JObject [(''phase'', JString ''Failed'')]"

definition failed_pod :: Pod where
  "failed_pod = default_pod\<lparr>pod_status := Some failed_status\<rparr>"

definition test_evaluator_new :: "'p cel_lib \<Rightarrow> bool" where
  "test_evaluator_new lib \<longleftrightarrow> cache_size (new_cache :: 'p cache) = 0"

definition test_evaluator_clears_cache :: "'p cel_lib \<Rightarrow> instant \<Rightarrow> instant \<Rightarrow> bool" where
  "test_evaluator_clears_cache lib now later =
     (let pod = aged_pod (now - 700 * nanos_per_sec);
          (_, cache) = evaluate lib later ''age > 600'' pod new_cache
      in 0 < cache_size cache \<and> cache_size (clear_cache cache) = 0)"

definition test_simple_integer_comparison :: "'p cel_lib \<Rightarrow> instant \<Rightarrow> instant \<Rightarrow> bool" where
  "test_simple_integer_comparison lib now later =
     (let pod = aged_pod (now - 700 * nanos_per_sec);
          (result, _) = evaluate lib later ''age > 600'' pod new_cache
      in result = Inr True)"

definition test_pod_age_less_than :: "'p cel_lib \<Rightarrow> instant \<Rightarrow> instant \<Rightarrow> bool" where
  "test_pod_age_less_than lib now later =
     (let pod = aged_pod (now - 100 * nanos_per_sec);
          (result, _) = evaluate lib later ''age < 200'' pod new_cache
      in result = Inr True)"

definition test_pod_status_access :: "'p cel_lib \<Rightarrow> instant \<Rightarrow> bool" where
  "test_pod_status_access lib later =
     (let (result, _) = evaluate lib later (''status.phase == '' @ quoted ''Failed'') failed_pod new_cache
      in result = Inr True)"

definition test_pod_reference :: "'p cel_lib \<Rightarrow> instant \<Rightarrow> bool" where
  "test_pod_reference lib later =
     (let (result, _) = evaluate lib later (''pod.status.phase == '' @ quoted ''Failed'') failed_pod new_cache
      in result = Inr True)"

definition test_invalid_expression :: "'p cel_lib \<Rightarrow> instant \<Rightarrow> bool" where
  "test_invalid_expression lib later =
     (let (result, _) = evaluate lib later ''this is not valid cel !!!!'' default_pod new_cache
      in case result of Inl _ \<Rightarrow> True | Inr _ \<Rightarrow> False)"

definition test_compilation_error :: "'p cel_lib \<Rightarrow> instant \<Rightarrow> bool" where
  "test_compilation_error lib later =
     (let (result, _) = evaluate lib later ''age >'' default_pod new_cache
      in case result of Inl (CelCompilationError _) \<Rightarrow> True | _ \<Rightarrow> False)"

definition test_cache_hit :: "'p cel_lib \<Rightarrow> instant \<Rightarrow> instant \<Rightarrow> instant \<Rightarrow> bool" where
  "test_cache_hit lib now later later' =
     (let pod = aged_pod (now - 700 * nanos_per_sec);
          (_, cache1) = evaluate lib later ''age > 600'' pod new_cache;
          (_, cache2) = evaluate lib later' ''age > 600'' pod cache1
      in cache_size cache1 = 1 \<and> cache_size cache2 = 1)"

text \<open>
  What the tests expect of the CEL library: the two comparisons compile and read the variable
  \<open>age\<close>, the two member accesses read the pod's status, the malformed expressions are refused,
  and objects can be converted to values.
\<close>

definition compares_age :: "'p cel_lib \<Rightarrow> string \<Rightarrow> (int \<Rightarrow> bool) \<Rightarrow> bool" where
  "compares_age lib expr test \<longleftrightarrow>
     (\<exists>prog. compile lib expr = Inr prog
        \<and> (\<forall>ctx a. ctx ''age'' = Some (CelInt a) \<longrightarrow> execute lib prog ctx = Inr (CelBool (test (sint a)))))"

definition finds_failed :: "'p cel_lib \<Rightarrow> string \<Rightarrow> string \<Rightarrow> bool" where
  "finds_failed lib expr variable \<longleftrightarrow>
     (\<exists>prog. compile lib expr = Inr prog
        \<and> (\<forall>ctx v doc. ctx variable = Some v \<longrightarrow> to_cel_value lib doc = Inr v \<longrightarrow>
             (variable = ''status'' \<and> doc = failed_status
              \<or> variable = ''pod'' \<and> pod_to_json lib failed_pod = Inr doc) \<longrightarrow>
             execute lib prog ctx = Inr (CelBool True)))"

definition converts_objects :: "'p cel_lib \<Rightarrow> bool" where
  "converts_objects lib \<longleftrightarrow>
     (\<forall>pod. \<exists>doc. pod_to_json lib pod = Inr doc) \<and> (\<forall>st. status_to_json lib st = Inr st)
   \<and> (\<forall>doc. \<exists>v. to_cel_value lib doc = Inr v)"

lemma context_variables:
  assumes "converts_objects lib" and "pod_to_json lib pod = Inr doc"
  obtains ctx v where "build_evaluation_context lib later pod = Inr ctx"
    and "to_cel_value lib doc = Inr v" and "ctx ''pod'' = Some v"
    and "\<forall>past. pod_creation_timestamp pod = Some past \<longrightarrow> ctx ''age'' = Some (CelInt (cel_age later past))"
    and "\<forall>st. pod_status pod = Some st \<longrightarrow> (\<exists>v. to_cel_value lib st = Inr v \<and> ctx ''status'' = Some v)"
proof -
  obtain conv where conv: "\<And>d. to_cel_value lib d = Inr (conv d)"
    using assms(1) unfolding converts_objects_def by metis
  have st: "status_to_json lib s = Inr s" for s using assms(1) by (simp add: converts_objects_def)
  define ctx where "ctx = projr (build_evaluation_context lib later pod)"
  show thesis
    by (rule that [of ctx "conv doc"])
      (auto simp: ctx_def build_evaluation_context_def assms(2) conv st add_json_variable_def
        add_variable_def Let_def split: option.splits sum.splits)
qed

lemma evaluate_new:
  "compile lib expr = Inr prog \<Longrightarrow>
     evaluate lib later expr pod new_cache = (run_program lib prog later pod, [expr \<mapsto> prog])"
  by (simp add: evaluate_def get_or_compile_def new_cache_def)

lemma evaluate_age:
  assumes "converts_objects lib" and "compares_age lib expr test"
    and "pod_creation_timestamp pod = Some past"
  shows "fst (evaluate lib later expr pod new_cache) = Inr (test (sint (cel_age later past)))"
proof -
  obtain prog where p: "compile lib expr = Inr prog"
      "\<And>ctx a. ctx ''age'' = Some (CelInt a) \<Longrightarrow> execute lib prog ctx = Inr (CelBool (test (sint a)))"
    using assms(2) by (auto simp: compares_age_def)
  obtain doc where "pod_to_json lib pod = Inr doc" using assms(1) unfolding converts_objects_def by blast
  then obtain ctx v where "build_evaluation_context lib later pod = Inr ctx"
      and "to_cel_value lib doc = Inr v" and "ctx ''pod'' = Some v"
      and age: "\<forall>past. pod_creation_timestamp pod = Some past \<longrightarrow> ctx ''age'' = Some (CelInt (cel_age later past))"
      and "\<forall>st. pod_status pod = Some st \<longrightarrow> (\<exists>v. to_cel_value lib st = Inr v \<and> ctx ''status'' = Some v)"
    by (rule context_variables [OF assms(1), where later = later])
  then show ?thesis using p assms(3) by (simp add: evaluate_new run_program_def)
qed

lemma evaluate_failed:
  assumes "converts_objects lib" and "finds_failed lib expr x" and "x = ''status'' \<or> x = ''pod''"
  shows "fst (evaluate lib later expr failed_pod new_cache) = Inr True"
proof -
  obtain prog where p: "compile lib expr = Inr prog"
      "\<And>ctx v doc. ctx x = Some v \<Longrightarrow> to_cel_value lib doc = Inr v \<Longrightarrow>
         x = ''status'' \<and> doc = failed_status \<or> x = ''pod'' \<and> pod_to_json lib failed_pod = Inr doc \<Longrightarrow>
         execute lib prog ctx = Inr (CelBool True)"
    using assms(2) unfolding finds_failed_def by blast
  have st: "pod_status failed_pod = Some failed_status" by (simp add: failed_pod_def)
  obtain doc where doc: "pod_to_json lib failed_pod = Inr doc"
    using assms(1) unfolding converts_objects_def by blast
  then obtain ctx v where ctx: "build_evaluation_context lib later failed_pod = Inr ctx"
      and v: "to_cel_value lib doc = Inr v" "ctx ''pod'' = Some v"
      and "\<forall>past. pod_creation_timestamp failed_pod = Some past \<longrightarrow>
             ctx ''age'' = Some (CelInt (cel_age later past))"
      and "\<forall>st. pod_status failed_pod = Some st \<longrightarrow>
             (\<exists>v. to_cel_value lib st = Inr v \<and> ctx ''status'' = Some v)"
    by (rule context_variables [OF assms(1), where later = later])
  then obtain v' where v': "to_cel_value lib failed_status = Inr v'" "ctx ''status'' = Some v'"
    using st by blast
  have "execute lib prog ctx = Inr (CelBool True)"
    using assms(3) p(2) [OF _ v(1)] p(2) [OF _ v'(1)] v(2) v'(2) doc by blast
  then show ?thesis using p(1) ctx by (simp add: evaluate_new run_program_def)
qed

text \<open>The age an evaluation finds that comes less than \<open>d\<close> seconds after the pod was made.\<close>

lemma cel_age_between:
  assumes "datetime_ok (now - s * nanos_per_sec)" and "datetime_ok later" and "now \<le> later"
    and "later < now + d * nanos_per_sec" and "0 \<le> s"
  shows "s \<le> sint (cel_age later (now - s * nanos_per_sec))"
    and "sint (cel_age later (now - s * nanos_per_sec)) \<le> s + d"
proof -
  let ?past = "now - s * nanos_per_sec"
  let ?age = "later div nanos_per_sec - ?past div nanos_per_sec"
  have "?past div nanos_per_sec = now div nanos_per_sec - s" by simp
  then have age: "s \<le> ?age" "?age \<le> s + d" using assms(3,4) by simp_all
  have "sint (timestamp later - timestamp ?past) = ?age"
    using sint_timestamp [OF assms(1)] sint_timestamp [OF assms(2)] assms(1,2)
    by (subst sint_minus_64) (auto simp: datetime_ok_def)
  then show "s \<le> sint (cel_age later ?past)" and "sint (cel_age later ?past) \<le> s + d"
    using age assms(5) by (simp_all add: cel_age_def Let_def)
qed

section \<open>The tests of the evaluator pass\<close>

lemma cache_tests:
  assumes "compares_age lib ''age > 600'' test"
  shows "test_evaluator_new lib" and "test_evaluator_clears_cache lib now later"
    and "test_cache_hit lib now later later'"
proof -
  obtain prog where p: "compile lib ''age > 600'' = Inr prog"
    using assms by (auto simp: compares_age_def)
  have again: "evaluate lib later' ''age > 600'' pod [''age > 600'' \<mapsto> prog]
      = (run_program lib prog later' pod, [''age > 600'' \<mapsto> prog])" for pod
    by (simp add: evaluate_def get_or_compile_def)
  show "test_evaluator_new lib"
    by (simp add: test_evaluator_new_def cache_size_def new_cache_def)
  show "test_evaluator_clears_cache lib now later"
    by (simp add: test_evaluator_clears_cache_def evaluate_new [OF p] cache_size_def clear_cache_def Let_def)
  show "test_cache_hit lib now later later'"
    by (simp add: test_cache_hit_def evaluate_new [OF p] again cache_size_def Let_def)
qed

lemma age_tests:
  assumes "converts_objects lib" and "datetime_ok (now - 700 * nanos_per_sec)" and "datetime_ok later"
    and "now \<le> later" and "later < now + 99 * nanos_per_sec"
  shows "compares_age lib ''age > 600'' (\<lambda>a. 600 < a) \<Longrightarrow> test_simple_integer_comparison lib now later"
    and "compares_age lib ''age < 200'' (\<lambda>a. a < 200) \<Longrightarrow> test_pod_age_less_than lib now later"
proof -
  have past: "pod_creation_timestamp (aged_pod t) = Some t" for t by (simp add: aged_pod_def)
  have near: "datetime_ok (now - 100 * nanos_per_sec)"
    using assms(2-4) by (simp add: datetime_ok_def)
  show "test_simple_integer_comparison lib now later" if "compares_age lib ''age > 600'' (\<lambda>a. 600 < a)"
    using evaluate_age [OF assms(1) that past] cel_age_between(1) [OF assms(2-5)]
    by (simp add: test_simple_integer_comparison_def split_beta)
  show "test_pod_age_less_than lib now later" if "compares_age lib ''age < 200'' (\<lambda>a. a < 200)"
    using evaluate_age [OF assms(1) that past] cel_age_between(2) [OF near assms(3-5)]
    by (simp add: test_pod_age_less_than_def split_beta)
qed

lemma member_tests:
  assumes "converts_objects lib"
  shows "finds_failed lib (''status.phase == '' @ quoted ''Failed'') ''status'' \<Longrightarrow> test_pod_status_access lib later"
    and "finds_failed lib (''pod.status.phase == '' @ quoted ''Failed'') ''pod'' \<Longrightarrow> test_pod_reference lib later"
  using evaluate_failed [OF assms] by (simp_all add: test_pod_status_access_def test_pod_reference_def split_beta)

lemma malformed_tests:
  "compile lib ''this is not valid cel !!!!'' = Inl e \<Longrightarrow> test_invalid_expression lib later"
  "compile lib ''age >'' = Inl e' \<Longrightarrow> test_compilation_error lib later"
  by (simp_all add: test_invalid_expression_def test_compilation_error_def evaluate_def get_or_compile_def
      new_cache_def)

end
