(* ===== verification/Unit_Tests.thy ===== *)
theory Unit_Tests
  imports Status_Updater Http_Server Policy_Matching Config_Env
begin

text \<open>
  The unit tests of the sources, carried out on the model: each \<open>#[test]\<close> is the definition of
  the same name, a conjunction of its assertions on the values it builds, and each is proved to
  hold. They tie the definitions of the model to what the authors of the code expect of it. The
  tests of the rate limiter and of the evaluator, which depend on the clock and on the CEL library,
  are in \<open>Engine_Tests\<close>.
\<close>

text \<open>\<open>str::contains\<close>.\<close>

fun starts_with :: "string \<Rightarrow> string \<Rightarrow> bool" where
  "starts_with s [] = True"
| "starts_with [] (p # ps) = False"
| "starts_with (c # cs) (p # ps) \<longleftrightarrow> c = p \<and> starts_with cs ps"

fun contains_text :: "string \<Rightarrow> string \<Rightarrow> bool" where
  "contains_text [] p \<longleftrightarrow> p = []"
| "contains_text (c # cs) p \<longleftrightarrow> starts_with (c # cs) p \<or> contains_text cs p"

lemma starts_with_prefix: "starts_with s p \<longleftrightarrow> (\<exists>rest. s = p @ rest)"
  by (induction s p rule: starts_with.induct) auto

lemma contains_text_iff: "contains_text s p \<longleftrightarrow> (\<exists>pre rest. s = pre @ p @ rest)"
proof (induction s p rule: contains_text.induct)
  case (2 c cs p)
  show ?case
  proof
    assume "contains_text (c # cs) p"
    then show "\<exists>pre rest. c # cs = pre @ p @ rest"
      using 2 starts_with_prefix by (metis append_Cons append_Nil contains_text.simps(2))
  next
    assume "\<exists>pre rest. c # cs = pre @ p @ rest"
    then obtain pre rest where e: "c # cs = pre @ p @ rest" by blast
    show "contains_text (c # cs) p"
    proof (cases pre)
      case Nil
      then have "starts_with (c # cs) p" using e starts_with_prefix by auto
      then show ?thesis by simp
    next
      case (Cons d pre')
      then show ?thesis using e 2 by auto
    qed
  qed
qed simp

section \<open>Validation of specs\<close>

text \<open>The tests of \<open>src/lib.rs\<close>.\<close>

definition test_policy_validation_builtin_valid :: bool where
  "test_policy_validation_builtin_valid =
     (let spec =
        \<lparr>spec_match = \<lparr>namespace_selector = None, pod_selector = None\<rparr>,
         spec_trigger = \<lparr>annotation_key = ''kube-depod/policy'', annotation_values = {''ttl-10m''}\<rparr>,
         spec_when = \<lparr>condition_type = Builtin, expression = None, ttl_seconds = Some 600\<rparr>,
         spec_then = \<lparr>action_type = Delete, grace_period_seconds = Some 30, dry_run = False\<rparr>,
         spec_limits = \<lparr>max_deletes_per_minute = Some 20, protect_system_namespaces = True,
           excluded_namespaces = None\<rparr>\<rparr>
      in validate_spec spec = Inr ())"

definition test_policy_validation_cel_valid :: bool where
  "test_policy_validation_cel_valid =
     (let spec =
        \<lparr>spec_match = \<lparr>namespace_selector = None, pod_selector = None\<rparr>,
         spec_trigger = \<lparr>annotation_key = ''kube-depod/policy'', annotation_values = {''auto-cleanup''}\<rparr>,
         spec_when = \<lparr>condition_type = CEL, expression = Some (''status.phase == '' @ quoted ''Succeeded''), ttl_seconds = None\<rparr>,
         spec_then = \<lparr>action_type = Delete, grace_period_seconds = Some 30, dry_run = False\<rparr>,
         spec_limits = \<lparr>max_deletes_per_minute = Some 20, protect_system_namespaces = True,
           excluded_namespaces = None\<rparr>\<rparr>
      in validate_spec spec = Inr ())"

definition test_policy_validation_cel_missing_expression :: bool where
  "test_policy_validation_cel_missing_expression =
     (let spec =
        \<lparr>spec_match = \<lparr>namespace_selector = None, pod_selector = None\<rparr>,
         spec_trigger = \<lparr>annotation_key = ''kube-depod/policy'', annotation_values = {''auto-cleanup''}\<rparr>,
         spec_when = \<lparr>condition_type = CEL, expression = None, ttl_seconds = None\<rparr>,
         spec_then = \<lparr>action_type = Delete, grace_period_seconds = None, dry_run = False\<rparr>,
         spec_limits = \<lparr>max_deletes_per_minute = None, protect_system_namespaces = True,
           excluded_namespaces = None\<rparr>\<rparr>
      in case validate_spec spec of
           Inl err \<Rightarrow> contains_text (error_to_string err) ''when.expression required''
         | Inr _ \<Rightarrow> False)"

definition test_policy_validation_cel_with_ttl_seconds_fails :: bool where
  "test_policy_validation_cel_with_ttl_seconds_fails =
     (let spec =
        \<lparr>spec_match = \<lparr>namespace_selector = None, pod_selector = None\<rparr>,
         spec_trigger = \<lparr>annotation_key = ''kube-depod/policy'', annotation_values = {''auto-cleanup''}\<rparr>,
         spec_when = \<lparr>condition_type = CEL, expression = Some (''status.phase == '' @ quoted ''Succeeded''), ttl_seconds = Some 600\<rparr>,
         spec_then = \<lparr>action_type = Delete, grace_period_seconds = None, dry_run = False\<rparr>,
         spec_limits = \<lparr>max_deletes_per_minute = None, protect_system_namespaces = True,
           excluded_namespaces = None\<rparr>\<rparr>
      in case validate_spec spec of
           Inl err \<Rightarrow> contains_text (error_to_string err) ''when.ttlSeconds must not be set for CEL type''
         | Inr _ \<Rightarrow> False)"

definition test_policy_validation_builtin_missing_ttl_seconds :: bool where
  "test_policy_validation_builtin_missing_ttl_seconds =
     (let spec =
        \<lparr>spec_match = \<lparr>namespace_selector = None, pod_selector = None\<rparr>,
         spec_trigger = \<lparr>annotation_key = ''kube-depod/policy'', annotation_values = {''ttl-10m''}\<rparr>,
         spec_when = \<lparr>condition_type = Builtin, expression = None, ttl_seconds = None\<rparr>,
         spec_then = \<lparr>action_type = Delete, grace_period_seconds = None, dry_run = False\<rparr>,
         spec_limits = \<lparr>max_deletes_per_minute = None, protect_system_namespaces = True,
           excluded_namespaces = None\<rparr>\<rparr>
      in case validate_spec spec of
           Inl err \<Rightarrow> contains_text (error_to_string err) ''when.ttlSeconds required''
         | Inr _ \<Rightarrow> False)"

definition test_policy_validation_builtin_with_expression_fails :: bool where
  "test_policy_validation_builtin_with_expression_fails =
     (let spec =
        \<lparr>spec_match = \<lparr>namespace_selector = None, pod_selector = None\<rparr>,
         spec_trigger = \<lparr>annotation_key = ''kube-depod/policy'', annotation_values = {''ttl-10m''}\<rparr>,
         spec_when = \<lparr>condition_type = Builtin, expression = Some (''status.phase == '' @ quoted ''Failed''), ttl_seconds = Some 600\<rparr>,
         spec_then = \<lparr>action_type = Delete, grace_period_seconds = None, dry_run = False\<rparr>,
         spec_limits = \<lparr>max_deletes_per_minute = None, protect_system_namespaces = True,
           excluded_namespaces = None\<rparr>\<rparr>
      in case validate_spec spec of
           Inl err \<Rightarrow> contains_text (error_to_string err) ''when.expression must not be set for Builtin type''
         | Inr _ \<Rightarrow> False)"

definition test_policy_validation_invalid_ttl_value :: bool where
  "test_policy_validation_invalid_ttl_value =
     (let spec =
        \<lparr>spec_match = \<lparr>namespace_selector = None, pod_selector = None\<rparr>,
         spec_trigger = \<lparr>annotation_key = ''kube-depod/policy'', annotation_values = {''ttl-10m''}\<rparr>,
         spec_when = \<lparr>condition_type = Builtin, expression = None, ttl_seconds = Some 0\<rparr>,
         spec_then = \<lparr>action_type = Delete, grace_period_seconds = None, dry_run = False\<rparr>,
         spec_limits = \<lparr>max_deletes_per_minute = None, protect_system_namespaces = True,
           excluded_namespaces = None\<rparr>\<rparr>
      in case validate_spec spec of
           Inl err \<Rightarrow> contains_text (error_to_string err) ''when.ttlSeconds must be a positive integer''
         | Inr _ \<Rightarrow> False)"

text \<open>Each of the texts expected of an error is the beginning of the rule's message.\<close>

lemma validation_tests:
  "test_policy_validation_builtin_valid" "test_policy_validation_cel_valid"
  "test_policy_validation_cel_missing_expression" "test_policy_validation_cel_with_ttl_seconds_fails"
  "test_policy_validation_builtin_missing_ttl_seconds"
  "test_policy_validation_builtin_with_expression_fails" "test_policy_validation_invalid_ttl_value"
  by code_simp+

section \<open>Status updates\<close>

text \<open>
  The tests of \<open>src/status_updater.rs\<close>; \<open>t\<close>, \<open>u\<close> are the texts of the instants at which the
  updates are made.
\<close>

definition test_record_policy_match :: "string \<Rightarrow> bool" where
  "test_record_policy_match t =
     (let status = record_policy_match t default_status
      in pods_evaluated status = 1 \<and> pods_matched status = 1 \<and> last_observed_time status \<noteq> None)"

definition test_record_pod_deleted :: "string \<Rightarrow> bool" where
  "test_record_pod_deleted t =
     (let status = record_pod_deleted t default_status
      in pods_deleted status = 1 \<and> last_observed_time status \<noteq> None)"

definition test_update_condition_replaces_existing :: "string \<Rightarrow> string \<Rightarrow> bool" where
  "test_update_condition_replaces_existing t u =
     (let cond1 = invalid_cel t ''error 1'';
          status1 = update_condition cond1 default_status;
          cond2 = invalid_cel u ''error 2'';
          status2 = update_condition cond2 status1
      in length (conditions status1) = 1 \<and> length (conditions status2) = 1
       \<and> cond_message (conditions status2 ! 0) = Some ''error 2'')"

definition test_initialize :: "string \<Rightarrow> bool" where
  "test_initialize t =
     (let status = initialize t (default_status\<lparr>pods_evaluated := 5\<rparr>)
      in length (conditions status) = 1 \<and> cond_condition_type (conditions status ! 0) = ''Ready''
       \<and> last_observed_time status \<noteq> None)"

definition test_reset_counters :: bool where
  "test_reset_counters =
     (let status = reset_counters (default_status\<lparr>pods_evaluated := 10, pods_matched := 5,
            pods_deleted := 3, evaluation_errors := 2\<rparr>)
      in pods_evaluated status = 0 \<and> pods_matched status = 0 \<and> pods_deleted status = 0
       \<and> evaluation_errors status = 0)"

definition test_validate_and_update_when_valid_cel :: "string \<Rightarrow> bool" where
  "test_validate_and_update_when_valid_cel t =
     (let when = \<lparr>condition_type = CEL, expression = Some (''status.phase == '' @ quoted ''Succeeded''), ttl_seconds = None\<rparr>;
          (result, status) = validate_and_update_when t when default_status
      in result = Inr () \<and> length (conditions status) = 1
       \<and> cond_condition_type (conditions status ! 0) = ''Ready'')"

definition test_validate_and_update_when_invalid_cel :: "string \<Rightarrow> bool" where
  "test_validate_and_update_when_invalid_cel t =
     (let when = \<lparr>condition_type = CEL, expression = None, ttl_seconds = None\<rparr>;
          (result, status) = validate_and_update_when t when default_status
      in result \<noteq> Inr () \<and> length (conditions status) = 1
       \<and> cond_condition_type (conditions status ! 0) = ''InvalidSpec''
       \<and> (case cond_message (conditions status ! 0) of
            None \<Rightarrow> False | Some m \<Rightarrow> contains_text m ''expression required''))"

definition test_validate_and_update_when_valid_builtin :: "string \<Rightarrow> bool" where
  "test_validate_and_update_when_valid_builtin t =
     (let when = \<lparr>condition_type = Builtin, expression = None, ttl_seconds = Some 600\<rparr>;
          (result, status) = validate_and_update_when t when default_status
      in result = Inr () \<and> length (conditions status) = 1
       \<and> cond_condition_type (conditions status ! 0) = ''Ready'')"

definition test_validate_and_update_when_invalid_builtin :: "string \<Rightarrow> bool" where
  "test_validate_and_update_when_invalid_builtin t =
     (let when = \<lparr>condition_type = Builtin, expression = None, ttl_seconds = Some (- 1)\<rparr>;
          (result, status) = validate_and_update_when t when default_status
      in result \<noteq> Inr () \<and> length (conditions status) = 1
       \<and> cond_condition_type (conditions status ! 0) = ''InvalidSpec''
       \<and> (case cond_message (conditions status ! 0) of
            None \<Rightarrow> False | Some m \<Rightarrow> contains_text m ''must be a positive integer''))"

lemma status_tests:
  "test_record_policy_match t" "test_record_pod_deleted t" "test_update_condition_replaces_existing t u"
  "test_initialize t" "test_reset_counters"
  "test_validate_and_update_when_valid_cel t" "test_validate_and_update_when_invalid_cel t"
  "test_validate_and_update_when_valid_builtin t" "test_validate_and_update_when_invalid_builtin t"
  by code_simp+

section \<open>Metrics and endpoint\<close>

text \<open>The tests of \<open>src/metrics.rs\<close> and \<open>src/server.rs\<close>.\<close>

definition test_metrics_creation :: bool where
  "test_metrics_creation =
     (let metrics = new_metrics
      in get_pods_evaluated metrics = 0 \<and> get_pods_deleted metrics = 0)"

definition test_metrics_increment :: bool where
  "test_metrics_increment =
     (let metrics = increment_pods_deleted (increment_pods_evaluated (increment_pods_evaluated new_metrics))
      in get_pods_evaluated metrics = 2 \<and> get_pods_deleted metrics = 1)"

definition test_prometheus_format :: bool where
  "test_prometheus_format =
     (let output = prometheus_format
        (increment_policy_matches (increment_pods_deleted (increment_pods_evaluated new_metrics)))
      in contains_text output ''kube_depod_pods_evaluated_total'' \<and> contains_text output ''1'')"

definition test_health_endpoint :: bool where
  "test_health_endpoint =
     (let (status, body) = health_handler in status = status_ok \<and> body = ''OK'')"

definition test_metrics_endpoint :: bool where
  "test_metrics_endpoint =
     (let state = \<lparr>metrics = increment_pods_deleted (increment_pods_evaluated new_metrics)\<rparr>;
          (status, body) = metrics_handler state
      in status = status_ok \<and> contains_text body ''kube_depod_pods_evaluated_total''
       \<and> contains_text body ''1'')"

lemma endpoint_tests:
  "test_metrics_creation" "test_metrics_increment" "test_prometheus_format"
  "test_health_endpoint" "test_metrics_endpoint"
  by code_simp+

section \<open>Configuration\<close>

text \<open>The test of \<open>src/config.rs\<close>, which only builds a configuration and reads it.\<close>

definition test_config_default_values :: bool where
  "test_config_default_values =
     (let config = \<lparr>rate_limit_per_minute = 20, pod_patch_concurrency_limit = 10, server_port = 8080,
            operator_pod_name = ''test-operator'', periodic_resync_interval = Some 3600\<rparr>
      in rate_limit_per_minute config = 20 \<and> pod_patch_concurrency_limit config = 10
       \<and> server_port config = 8080 \<and> operator_pod_name config = ''test-operator''
       \<and> periodic_resync_interval config \<noteq> None)"

section \<open>Decisions\<close>

text \<open>The tests of \<open>src/controller.rs\<close>.\<close>

definition create_test_policy ::
  "NamespaceSelector option \<Rightarrow> PodSelector option \<Rightarrow> string \<Rightarrow> string set \<Rightarrow> DepodPolicy" where
  "create_test_policy ns_sel pod_sel key values =
     \<lparr>policy_name_any = ''test-policy'', policy_namespace = None,
      policy_spec =
        \<lparr>spec_match = \<lparr>namespace_selector = ns_sel, pod_selector = pod_sel\<rparr>,
         spec_trigger = \<lparr>annotation_key = key, annotation_values = values\<rparr>,
         spec_when = \<lparr>condition_type = Builtin, expression = None, ttl_seconds = Some 60\<rparr>,
         spec_then = \<lparr>action_type = Delete, grace_period_seconds = None, dry_run = False\<rparr>,
         spec_limits = \<lparr>max_deletes_per_minute = None, protect_system_namespaces = True,
           excluded_namespaces = None\<rparr>\<rparr>,
      policy_status = None\<rparr>"

definition test_matches_policy_namespace :: bool where
  "test_matches_policy_namespace =
     (let policy = create_test_policy (Some \<lparr>match_names = [''allowed-ns'']\<rparr>) None ''test-key'' {};
          pod = default_pod\<lparr>pod_namespace := Some ''allowed-ns''\<rparr>;
          pod' = pod\<lparr>pod_namespace := Some ''other-ns''\<rparr>;
          policy' = create_test_policy (Some \<lparr>match_names = []\<rparr>) None ''test-key'' {}
      in matches_policy pod policy \<and> \<not> matches_policy pod' policy \<and> matches_policy pod' policy')"

definition test_matches_policy_labels :: bool where
  "test_matches_policy_labels =
     (let policy = create_test_policy None (Some \<lparr>match_labels = [(''app'', ''test'')]\<rparr>) ''test-key'' {};
          pod = default_pod\<lparr>pod_labels := [''app'' \<mapsto> ''test'']\<rparr>;
          pod' = default_pod\<lparr>pod_labels := [''app'' \<mapsto> ''other'']\<rparr>
      in matches_policy pod policy \<and> \<not> matches_policy pod' policy)"

definition test_check_trigger :: bool where
  "test_check_trigger =
     (let key = ''kube-depod/test''; values = {''true'', ''yes''};
          pod1 = default_pod\<lparr>pod_annotations := Some [key \<mapsto> ''true'']\<rparr>;
          pod2 = default_pod\<lparr>pod_annotations := Some [key \<mapsto> ''no'']\<rparr>;
          pod3 = default_pod\<lparr>pod_annotations := None\<rparr>
      in check_trigger pod1 key values \<and> \<not> check_trigger pod2 key values
       \<and> \<not> check_trigger pod3 key values)"

definition test_get_policy_namespace :: bool where
  "test_get_policy_namespace =
     (let selecting = (\<lambda>names. create_test_policy (Some \<lparr>match_names = names\<rparr>) None ''key'' {});
          policy1 = (selecting [''selector-ns''])\<lparr>policy_namespace := Some ''meta-ns''\<rparr>;
          policy2 = selecting [''selector-ns'']; policy3 = selecting [''ns1'', ''ns2''];
          policy4 = selecting []; policy5 = create_test_policy None None ''key'' {}
      in get_policy_namespace policy1 = ''meta-ns'' \<and> get_policy_namespace policy2 = ''selector-ns''
       \<and> get_policy_namespace policy3 = ''default'' \<and> get_policy_namespace policy4 = ''default''
       \<and> get_policy_namespace policy5 = ''default'')"

lemma decision_tests:
  "test_config_default_values" "test_matches_policy_namespace" "test_matches_policy_labels"
  "test_check_trigger" "test_get_policy_namespace"
  by code_simp+

end
