(* ===== verification/Integration_Tests.thy ===== *)
theory Integration_Tests
  imports Engine_Tests Unit_Tests Policy_Safety
begin

text \<open>
  The integration tests of \<open>tests/\<close> that need no cluster, carried out on the model: the metrics
  beside the limiter, the increments of ten threads, the regression test for the loop of
  status reports, and the tests of the evaluator that are about its cache, its errors and the
  variable \<open>age\<close>; the other ones evaluate expressions over the documents of a pod, which is the
  CEL library's work. What a test expects of the clock, the API server or the library is stated with it.
\<close>

section \<open>Metrics and rate limiter\<close>

definition test_metrics_with_rate_limiter :: "(nat \<Rightarrow> instant) \<Rightarrow> bool option" where
  "test_metrics_with_rate_limiter clk = do {
     let metrics = increment_pods_evaluated (increment_pods_evaluated new_metrics);
     rate_limiter \<leftarrow> new_limiter (clk 0) 3;
     (a, rate_limiter) \<leftarrow> allow_global (clk 1) rate_limiter;
     (b, rate_limiter) \<leftarrow> allow_global (clk 2) rate_limiter;
     (c, rate_limiter) \<leftarrow> allow_global (clk 3) rate_limiter;
     (d, rate_limiter) \<leftarrow> allow_global (clk 4) rate_limiter;
     let metrics1 = increment_rate_limited metrics;
     let metrics2 = increment_policy_matches (increment_policy_matches metrics1);
     let metrics3 = increment_pods_deleted metrics2;
     let metrics4 = increment_evaluation_errors metrics3;
     let prometheus_output = prometheus_format metrics4;
     Some (get_pods_evaluated metrics = 2 \<and> a \<and> b \<and> c \<and> \<not> d
         \<and> get_rate_limited metrics1 = 1 \<and> get_policy_matches metrics2 = 2
         \<and> get_pods_deleted metrics3 = 1 \<and> get_evaluation_errors metrics4 = 1
         \<and> contains_text prometheus_output ''kube_depod_pods_evaluated_total {} 2''
         \<and> contains_text prometheus_output ''kube_depod_pods_deleted_total {} 1''
         \<and> contains_text prometheus_output ''kube_depod_policy_matches_total {} 2''
         \<and> contains_text prometheus_output ''kube_depod_evaluation_errors_total {} 1''
         \<and> contains_text prometheus_output ''kube_depod_rate_limited_total {} 1'') }"

definition test_rate_limiter_recovery :: "(nat \<Rightarrow> instant) \<Rightarrow> bool option" where
  "test_rate_limiter_recovery clk = do {
     rate_limiter \<leftarrow> new_limiter (clk 0) 2;
     (a, rate_limiter) \<leftarrow> allow_global (clk 1) rate_limiter;
     (b, rate_limiter) \<leftarrow> allow_global (clk 2) rate_limiter;
     (c, rate_limiter) \<leftarrow> allow_global (clk 3) rate_limiter;
     Some (a \<and> b \<and> \<not> c \<and> limiter_get_tokens rate_limiter = 0 \<and> get_max_per_minute rate_limiter = 2) }"

lemma contains_text_self: "contains_text (p @ rest) p"
  unfolding contains_text_iff by (metis append_Nil)

lemma contains_text_skip: "contains_text s p \<Longrightarrow> contains_text (pre @ s) p"
  unfolding contains_text_iff by (metis append.assoc)

lemma contains_sample:
  "show_uint v = shown \<Longrightarrow> contains_text (metric_block (metric_name c) help v rest) (metric_name c @ '' {} '' @ shown)"
proof -
  assume "show_uint v = shown"
  then have "metric_block (metric_name c) help v rest
      = ((''# HELP '' @ metric_name c @ '' '' @ help) @ CHR 0x0A # ''# TYPE '' @ metric_name c @ '' counter'' @ [CHR 0x0A])
        @ (metric_name c @ '' {} '' @ shown) @ CHR 0x0A # rest"
    by (simp add: metric_block_def)
  then show ?thesis using contains_text_iff by blast
qed

lemma contains_later_sample:
  assumes "contains_text rest p"
  shows "contains_text (metric_block name help v (CHR 0x0A # rest)) p"
proof -
  have "metric_block name help v (CHR 0x0A # rest)
      = (metric_block name help v [] @ [CHR 0x0A]) @ rest"
    by (simp add: metric_block_def)
  then show ?thesis using contains_text_skip [OF assms] by metis
qed

text \<open>The output shows each counter on the line of its metric.\<close>

lemma prometheus_shows: "contains_text (prometheus_format m) (metric_name c @ '' {} '' @ show_uint (get_metric c m))"
  unfolding prometheus_format_blocks
  by (cases c; simp only: get_metric.simps) (intro contains_later_sample contains_sample refl)+

lemma sample_output:
  "get_metric c m = v \<Longrightarrow> show_uint v = shown \<Longrightarrow>
     contains_text (prometheus_format m) (metric_name c @ '' {} '' @ shown)"
  using prometheus_shows [of m c] by simp

lemma metrics_limiter_tests:
  assumes "within_a_minute clk"
  shows "test_metrics_with_rate_limiter clk = Some True" and "test_rate_limiter_recovery clk = Some True"
proof -
  obtain n where n: "\<And>i. unix_secs (clk i) = Some (n i)"
    and r: "\<And>i j b. last_reset b = n j \<Longrightarrow> refill_at (n i) b = b"
    using within_a_minuteE [OF assms] by metis
  note defs = new_limiter_def new_bucket_def new_bucket_at_def allow_at_def take_token_def n
  have shown: "show_uint (1 :: u64) = ''1''" "show_uint (2 :: u64) = ''2''" by code_simp+
  show "test_metrics_with_rate_limiter clk = Some True"
    using sample_output [of PodsEvaluated _ _ "''2''"] sample_output [of PodsDeleted _ _ "''1''"]
      sample_output [of PolicyMatches _ _ "''2''"] sample_output [of EvaluationErrors _ _ "''1''"]
      sample_output [of RateLimited _ _ "''1''"] shown
    by (simp add: test_metrics_with_rate_limiter_def allow_global_eq_at [OF n] defs r Let_def
        increment_defs getter_defs new_metrics_def del: contains_text.simps)
  show "test_rate_limiter_recovery clk = Some True"
    by (simp add: test_rate_limiter_recovery_def allow_global_eq_at [OF n] defs r
        limiter_get_tokens_def get_tokens_def get_max_per_minute_def)
qed

text \<open>
  The ten threads of the test make five increments each, in any interleaving of the threads;
  each increment is atomic.
\<close>

fun interleavings :: "'a list list \<Rightarrow> 'a list set" where
  "interleavings [] = {[]}"
| "interleavings (xs # xss) = \<Union> (shuffles xs ` interleavings xss)"

definition incrementing_thread :: "Metric list" where
  "incrementing_thread = [PodsEvaluated, PolicyMatches, PodsDeleted, EvaluationErrors, RateLimited]"

definition test_concurrent_metrics_increment :: "Metric list \<Rightarrow> bool" where
  "test_concurrent_metrics_increment schedule =
     (let metrics = fold increment schedule new_metrics
      in get_pods_evaluated metrics = 10 \<and> get_policy_matches metrics = 10
       \<and> get_pods_deleted metrics = 10 \<and> get_evaluation_errors metrics = 10
       \<and> get_rate_limited metrics = 10)"

lemma count_interleavings:
  "zs \<in> interleavings xss \<Longrightarrow> count_list zs x = (\<Sum>xs\<leftarrow>xss. count_list xs x)"
proof (induction xss arbitrary: zs)
  case (Cons xs xss)
  then obtain ys where ys: "ys \<in> interleavings xss" "zs \<in> shuffles xs ys" by auto
  have "count_list zs x = count (mset zs) x" for zs by (induction zs) auto
  then have "count_list zs x = count_list xs x + count_list ys x"
    using mset_shuffles [OF ys(2)] by simp
  then show ?case using Cons.IH [OF ys(1)] by simp
qed simp

lemma concurrent_increments_test:
  assumes "schedule \<in> interleavings (replicate 10 incrementing_thread)"
  shows "test_concurrent_metrics_increment schedule"
proof -
  have "count_list schedule c = 10" for c
    using count_interleavings [OF assms, of c]
    by (cases c) (simp_all add: incrementing_thread_def numeral_eq_Suc)
  then have "get_metric c (fold increment schedule new_metrics) = get_metric c new_metrics + 10" for c
    by (simp add: metric_counters.read_fold sum_list_indicator)
  from this [of PodsEvaluated] this [of PolicyMatches] this [of PodsDeleted] this [of EvaluationErrors]
    this [of RateLimited]
  show ?thesis by (simp add: test_concurrent_metrics_increment_def getter_defs new_metrics_def Let_def)
qed

section \<open>The loop of status reports\<close>

definition invalid_cel_policy :: "PolicyCondition list option \<Rightarrow> DepodPolicy" where
  "invalid_cel_policy reported =
     \<lparr>policy_name_any = ''invalid-cel-policy'', policy_namespace = Some ''default'',
      policy_spec =
        \<lparr>spec_match = \<lparr>namespace_selector = None, pod_selector = None\<rparr>,
         spec_trigger = \<lparr>annotation_key = ''test/trigger'', annotation_values = {''true''}\<rparr>,
         spec_when = \<lparr>condition_type = CEL, expression = Some ''this is invalid syntax !!!'', ttl_seconds = None\<rparr>,
         spec_then = \<lparr>action_type = Delete, grace_period_seconds = Some 0, dry_run = False\<rparr>,
         spec_limits = \<lparr>max_deletes_per_minute = None, protect_system_namespaces = True,
           excluded_namespaces = None\<rparr>\<rparr>,
      policy_status = map_option (\<lambda>cs. default_status\<lparr>conditions := cs\<rparr>) reported\<rparr>"

text \<open>
  The first run has to write the verdict to the status of the policy. The second is on the
  policy with the condition that the test builds from the error of \<open>cel::Program::compile\<close>,
  and may not send anything. Both run on the context given, the second after the first.
\<close>

definition test_infinite_loop_regression_mock :: "'p World \<Rightarrow> 'p Context \<Rightarrow> bool" where
  "test_infinite_loop_regression_mock w ctx =
     (let (_, ctx1) = reconcile_policy w (invalid_cel_policy None) ctx;
          err_msg = (case compile (cel w) ''this is invalid syntax !!!'' of
             Inl e \<Rightarrow> ''CEL compilation failed: CEL compilation error: '' @ e | Inr _ \<Rightarrow> []);
          condition = \<lparr>cond_condition_type = ''InvalidCEL'', cond_status = ''True'',
             cond_last_transition_time = Some ''2024-01-01T00:00:00Z'', cond_reason = None,
             cond_message = Some err_msg\<rparr>;
          (_, ctx2) = reconcile_policy w (invalid_cel_policy (Some [condition])) ctx1
      in (case drop (length (client ctx)) (client ctx1) of
            [PatchPolicyStatus ns name status] \<Rightarrow>
              ns = ''default'' \<and> name = ''invalid-cel-policy''
            \<and> list_ex (\<lambda>c. contains_text (cond_condition_type c) ''InvalidCEL'') (conditions status)
            \<and> list_ex (\<lambda>c. case cond_message c of Some m \<Rightarrow> contains_text m ''CEL compilation failed'' | None \<Rightarrow> False)
                (conditions status)
          | _ \<Rightarrow> False)
       \<and> client ctx2 = client ctx1)"

lemma invalid_cel_policy_fields:
  "policy_name_any (invalid_cel_policy r) = ''invalid-cel-policy''"
  "get_policy_namespace (invalid_cel_policy r) = ''default''"
  "validate_spec (policy_spec (invalid_cel_policy r)) = Inr ()"
  "expression (spec_when (policy_spec (invalid_cel_policy r))) = Some ''this is invalid syntax !!!''"
  "condition_type (spec_when (policy_spec (invalid_cel_policy r))) = CEL"
  "policy_status (invalid_cel_policy r) = map_option (\<lambda>cs. default_status\<lparr>conditions := cs\<rparr>) r"
  by (simp_all add: invalid_cel_policy_def get_policy_namespace_def) code_simp

lemma reconcile_invalid_cel:
  assumes "compile (cel w) ''this is invalid syntax !!!'' = Inl e" and "evaluator ctx = new_cache"
  shows "reconcile_policy w (invalid_cel_policy r) ctx =
    (Inr AwaitChange, report w (invalid_cel_policy r)
       (failure_unreported ''InvalidCEL'' (cel_message (CelCompilationError e)) (policy_status (invalid_cel_policy r)))
       (\<lambda>t. invalid_cel t (cel_message (CelCompilationError e))) ctx)"
proof -
  have "validate_policy_cel w (invalid_cel_policy r) ctx = (Inl (CelCompilationError e), ctx)"
    using assms by (simp add: validate_policy_cel_def invalid_cel_policy_fields validate_expr_def
        get_or_compile_def new_cache_def)
  then show ?thesis by (simp add: reconcile_policy_def invalid_cel_policy_fields)
qed

lemma infinite_loop_regression_test:
  assumes "compile (cel w) ''this is invalid syntax !!!'' = Inl e" and "evaluator ctx = new_cache"
  shows "test_infinite_loop_regression_mock w ctx"
proof -
  let ?m = "cel_message (CelCompilationError e)"
  have m: "''CEL compilation failed: CEL compilation error: '' @ e = ?m" by (simp add: cel_message_def)
  have msg: "contains_text ?m ''CEL compilation failed''"
    unfolding cel_message_def using contains_text_self [of "''CEL compilation failed''"] by simp
  define ctx1 where "ctx1 = snd (reconcile_policy w (invalid_cel_policy None) ctx)"
  have first: "client ctx1 = client ctx @ [PatchPolicyStatus ''default'' ''invalid-cel-policy''
      (default_status\<lparr>conditions := [invalid_cel (to_rfc3339 w (now_of w ctx)) ?m]\<rparr>)]"
    and cache: "evaluator ctx1 = new_cache"
    using assms by (simp_all add: ctx1_def reconcile_invalid_cel report_request invalid_cel_policy_fields
        failure_unreported_def)
  let ?c = "\<lparr>cond_condition_type = ''InvalidCEL'', cond_status = ''True'',
      cond_last_transition_time = Some ''2024-01-01T00:00:00Z'', cond_reason = None, cond_message = Some ?m\<rparr>"
  have "client (snd (reconcile_policy w (invalid_cel_policy (Some [?c])) ctx1)) = client ctx1"
    using assms(1) cache by (simp add: reconcile_invalid_cel report_request invalid_cel_policy_fields
        failure_unreported_def)
  then show ?thesis
    unfolding test_infinite_loop_regression_mock_def Let_def split_beta assms(1) sum.case m ctx1_def [symmetric]
    using first msg by (simp add: invalid_cel_def)
qed

section \<open>Evaluator\<close>

text \<open>\<open>create_pod_with_age\<close>, at the instant \<open>now\<close>, with an empty status.\<close>

definition create_pod_with_age :: "instant \<Rightarrow> string \<Rightarrow> string \<Rightarrow> int \<Rightarrow> Pod" where
  "create_pod_with_age now namespace name age_seconds =
     default_pod\<lparr>pod_name_any := name, pod_namespace := Some namespace,
       pod_creation_timestamp := Some (now - age_seconds * nanos_per_sec), pod_status := Some (JObject [])\<rparr>"

definition test_cel_pod_age_threshold :: "'p cel_lib \<Rightarrow> instant \<Rightarrow> instant \<Rightarrow> bool" where
  "test_cel_pod_age_threshold lib now later =
     (let old_pod = create_pod_with_age now ''default'' ''old-pod'' (1800 + 100);
          (result, evaluator) = evaluate lib later ''age > 1800'' old_pod new_cache;
          young_pod = create_pod_with_age now ''default'' ''young-pod'' 600;
          (result', _) = evaluate lib later ''age > 1800'' young_pod evaluator
      in result = Inr True \<and> result' = Inr False)"

definition test_cel_expression_caching :: "'p cel_lib \<Rightarrow> instant \<Rightarrow> Pod \<Rightarrow> bool" where
  "test_cel_expression_caching lib later pod =
     (let expr = ''status.containerStatuses.exists(c, c.restartCount > 3)'';
          (result1, evaluator1) = evaluate lib later expr pod new_cache;
          (result2, evaluator2) = evaluate lib later expr pod evaluator1;
          (result3, evaluator3) = evaluate lib later (''status.phase == '' @ quoted ''Running'') pod evaluator2
      in (\<forall>e. result1 \<noteq> Inl e) \<and> cache_size evaluator1 = 1
       \<and> (\<forall>e. result2 \<noteq> Inl e) \<and> cache_size evaluator2 = 1
       \<and> (\<forall>e. result3 \<noteq> Inl e) \<and> cache_size evaluator3 = 2)"

definition test_cel_invalid_expression_error :: "'p cel_lib \<Rightarrow> instant \<Rightarrow> Pod \<Rightarrow> bool" where
  "test_cel_invalid_expression_error lib later pod =
     (let (result, _) = evaluate lib later ''this is not valid cel syntax !!!'' pod new_cache
      in case result of Inl _ \<Rightarrow> True | Inr _ \<Rightarrow> False)"

definition test_cel_syntax_error_compilation :: "'p cel_lib \<Rightarrow> instant \<Rightarrow> Pod \<Rightarrow> bool" where
  "test_cel_syntax_error_compilation lib later pod =
     (let (result, _) = evaluate lib later ''status.phase =='' pod new_cache
      in case result of Inl _ \<Rightarrow> True | Inr _ \<Rightarrow> False)"

lemma evaluator_error_tests:
  "compile lib ''this is not valid cel syntax !!!'' = Inl e \<Longrightarrow> test_cel_invalid_expression_error lib later pod"
  "compile lib ''status.phase =='' = Inl e' \<Longrightarrow> test_cel_syntax_error_compilation lib later pod"
  by (simp_all add: test_cel_invalid_expression_error_def test_cel_syntax_error_compilation_def
      evaluate_def get_or_compile_def new_cache_def)

lemma expression_caching_test:
  assumes "compile lib ''status.containerStatuses.exists(c, c.restartCount > 3)'' = Inr prog"
    and "compile lib (''status.phase == '' @ quoted ''Running'') = Inr prog'"
    and "run_program lib prog later pod = Inr b" and "run_program lib prog' later pod = Inr b'"
  shows "test_cel_expression_caching lib later pod"
  using assms
  by (simp add: test_cel_expression_caching_def evaluate_def get_or_compile_def new_cache_def cache_size_def Let_def)

lemma age_threshold_test:
  assumes "converts_objects lib" and "compares_age lib ''age > 1800'' (\<lambda>a. 1800 < a)"
    and "datetime_ok (now - 1900 * nanos_per_sec)" and "datetime_ok later"
    and "now \<le> later" and "later < now + 1000 * nanos_per_sec"
  shows "test_cel_pod_age_threshold lib now later"
proof -
  have near: "datetime_ok (now - 600 * nanos_per_sec)" using assms(3-5) by (simp add: datetime_ok_def)
  obtain prog where p: "compile lib ''age > 1800'' = Inr prog" using assms(2) by (auto simp: compares_age_def)
  have cached: "fst (evaluate lib later ''age > 1800'' pod [''age > 1800'' \<mapsto> prog])
      = fst (evaluate lib later ''age > 1800'' pod new_cache)" for pod
    using p by (simp add: evaluate_def get_or_compile_def new_cache_def)
  have old: "fst (evaluate lib later ''age > 1800'' (create_pod_with_age now ''default'' ''old-pod'' 1900) new_cache) = Inr True"
    using evaluate_age [OF assms(1,2), of "create_pod_with_age now ''default'' ''old-pod'' 1900"]
      cel_age_between(1) [OF assms(3-6)] by (simp add: create_pod_with_age_def)
  have young: "fst (evaluate lib later ''age > 1800'' (create_pod_with_age now ''default'' ''young-pod'' 600) new_cache) = Inr False"
    using evaluate_age [OF assms(1,2), of "create_pod_with_age now ''default'' ''young-pod'' 600"]
      cel_age_between(2) [OF near assms(4-6)] by (simp add: create_pod_with_age_def)
  show ?thesis
    using old young cached evaluate_new [OF p]
    by (simp add: test_cel_pod_age_threshold_def split_beta Let_def)
qed

end
