(* ===== verification/Spec2Isabelle.thy ===== *)
theory Spec2Isabelle
  imports Task_Atomic Task_Patches Task_Metrics Policy_Limits Policy_Events Policy_Documents
    Atomic_Limits Task_Engine Crd_Schema Deployment Operator_Main Integration_Tests
begin

text \<open>
  A model of the kube-depod operator (the Rust sources under \<open>src/\<close>), which deletes or evicts
  pods that carry a trigger annotation once a condition of a policy holds: their age exceeds a
  TTL, or a CEL expression is true of them.

  The program's parts, in the order in which they use each other, with the theory of each:

    \<^item> \<open>error.rs\<close>: the error type and its texts (Errors). Rust's strings and number parsing
      are in Rust_Strings, machine integers and clocks in Prelude.
    \<^item> \<open>crd.rs\<close>: the policy resource, the status conditions and the validation (Crd). A pod is
      what the k8s-openapi accessors return of it (Kube_Objects). The JSON form that the serde
      attributes give the resource is in Crd_Json, on the reading and writing of JSON in
      Json_Codec, and what becomes of a policy read from a document in Policy_Documents. The
      schema that \<open>manifests/crd.yaml\<close> gives the API server for the same documents is in
      Crd_Schema.
    \<^item> \<open>status_updater.rs\<close>: operations on a policy's status (Status_Updater), an instance of a
      store with one entry per key, and of event counters.
    \<^item> \<open>metrics.rs\<close> and \<open>server.rs\<close>: the counters with the text a scrape gets
      (Event_Counters, Metrics_Registry), the handlers, the routes and \<open>start_server\<close> from the
      bind to the shutdown (Http_Server).
    \<^item> \<open>rate_limiter.rs\<close>: the token bucket and its contract (Token_Bucket), the limiter with a
      bucket for the operator and one per policy name (Rate_Limiter), \<open>allow\<close> as the
      interleaving of its atomic steps (Bucket_Concurrency), and the calls for policies by many
      threads, on buckets shared by reference (Limiter_Concurrency).
    \<^item> \<open>engine/cel.rs\<close>: the cache of compiled expressions and the variables of a pod
      (Cel_Engine), and its calls by many threads, access by access (Cel_Concurrency).
      \<open>Program\<close>, the values of cel and the conversions of serde_json are the
      parameter \<open>cel_lib\<close>.
    \<^item> \<open>config.rs\<close>: the configuration from the environment (Config_Env), and the environment that
      the chart in \<open>helm/\<close> and the plain \<open>manifests/\<close> give it, with the rules for the operator's
      requests and its probes (Deployment).
    \<^item> \<open>controller.rs\<close>: the decisions (Policy_Matching), \<open>reconcile_pod\<close> (Pod_Reconciler,
      with its properties in Pod_Safety and Pod_Timing) and \<open>reconcile_policy\<close>
      (Policy_Reconciler, with its properties in Policy_Safety), on the shared \<open>Context\<close> of
      \<open>lib.rs\<close> (Operator_Context). The two reconciliations as tasks that can be interrupted
      between their steps are in Pod_Tasks and Policy_Tasks, the latter with its concurrent patches.
    \<^item> \<open>main.rs\<close>: the start and the steps of the whole operator (Operator_System), the operator
      with its tasks interleaved (Task_System; the invariant in Task_Safety, the limit of each
      policy in Policy_Limits, the metrics in Task_Metrics, the limit of pending patches in
      Task_Patches, the tasks with the atomic steps of their calls to the limiter in Atomic_Limits
      and with those of their calls to the evaluator in Task_Engine, the histories without
      interleaving in Task_Atomic), the cache of policies over
      time (Policy_Events), the shutdown protocol (Shutdown), and the process in which the tasks
      run under it (Operator_Main).
    \<^item> The unit tests of the sources and the integration tests that need neither a cluster nor the
      macros of CEL, as definitions that hold of the model: Unit_Tests, Engine_Tests and
      Integration_Tests.

  How the model corresponds to the code. Structs are records and enums datatypes with the
  source's names, prefixed where two structs share a field name. A method on \<open>&mut self\<close> or on
  interior mutability takes the state last and returns it updated. A \<open>Result\<close> is a sum with
  the error on the left; a panic is \<^term>\<open>None\<close> (only readings of the system clock before the
  epoch can cause one). Unsigned integers are words; the signed ones are words read by
  \<^term>\<open>sint\<close>, and their arithmetic wraps as in the release profile. A \<open>HashMap\<close> or
  \<open>DashMap\<close> is a map, a \<open>BTreeSet\<close> a set, a \<open>BTreeMap\<close> that is iterated the list of its
  entries. The context's \<open>client\<close> is the sequence of requests sent so far.

  What is outside is the record \<open>World\<close>: the API server's answers (functions of all requests
  so far), the clock (the value of each reading, in order), and the CEL, JSON and time
  formatting libraries, and when a concurrent stream has room for another future. Nothing is
  assumed of them, except where a theorem says so: that the clock is not before the epoch, that instants are within the range of chrono's dates, or that
  no reading exceeds a given second, that the API server merges and prunes a patch or fills in
  defaults as documented, that a template writes small numbers in decimal, or that a stream has room when nothing is pending and none
  beyond a limit other than zero, as its documentation says. Where the model reads the clock and a branch of the code
  does not, the reading is passed over; a clock may give any values, so this loses nothing.

  What the lemmas show.

    \<^item> Validation, status and configuration: which rule a rejected spec broke, one condition per
      type, which values a variable can set, and that every configuration can be set.
    \<^item> JSON: the locale \<open>json_codec\<close> states that a reader undoes its writer and what it yields;
      every type of the resource is an instance, composed from those of its fields. Against the
      schema: the types read every document it admits but for the width of integers, the protection
      of system namespaces is a default of the schema and not of the types, and a report survives
      the merge and the pruning of the API server.
    \<^item> Token buckets: the locale \<open>token_source\<close> states what a bucket promises, and the bounds on
      the grants of a time span are proved in it once; a bucket and the bucket of a policy are
      its instances. The interleaved steps refine to the sequential function when a call runs
      alone, and over-grant when the refills race. With calls for a policy by many threads the
      grants of each bucket stay bounded and no call is blocked, but each of the calls that find no
      bucket makes one of its own.
    \<^item> Expression engine: the locale \<open>expression_engine\<close> states that the cache is invisible; with
      many threads each call still gives what compiling afresh gives, and a solo call is the
      sequential function.
    \<^item> Pod reconciliation: \<open>apply_policyE\<close> lists the ways one policy can end, and
      \<open>apply_policies_induct\<close> is the induction over the loop. On them rest that each request
      is authorised, at most one succeeds, dry runs and protected namespaces send nothing, and
      when the pod is looked at again.
    \<^item> Policy reconciliation: \<open>policy_verdict\<close> is its specification; the cache, the report and
      the touched pods are functions of it, and a report that was applied is not repeated.
    \<^item> The operator: the locale \<open>invariant_system\<close> turns an invariant of the steps into one of
      every history: each removal ever sent was authorised by a valid policy, and their number
      is bounded by the configured rate for every started minute. Both facts hold for every
      interleaving of tasks too, with a refill of the bucket in the place of the minute also where the
      limiter is not asked at once, as does the limit of a policy, and a scrape of the metrics tells
      how many pods were deleted but for those not counted yet; a task that nothing interrupts is \<open>reconcile_pod\<close> or
      \<open>reconcile_policy\<close>, whatever the order in which its patches are answered, so the histories
      without interleaving are among the others, and the interleaved accesses to the evaluator's
      cache add none.
    \<^item> Events over time: the cache is the valid policies of one state of the store, only good
      policies refresh it, the older of two overlapping refreshes can win; and the loop in which
      a written status causes the next reconciliation ends.
    \<^item> Shutdown: in what ways the process can end, and a signal that is lost; when the pod
      controller is gone nothing new begins, each reconciliation under way removes at most one pod
      more, a controller that has panicked goes unnoticed, and a shutdown ends in time whatever
      the tasks do.

  The loops of the code are structural recursion over the list of policies, namespaces or pods,
  and need no fuel; the compare-and-exchange loop of a bucket is a rule of its step relation. A
  task is run to its end by recursion on \<open>steps_left\<close>, six steps per policy still to come and
  those of the state it is in; a policy's task ends because the targets still to be listed
  decrease, and the pods and pending patches of each; the loop of status updates is a partial
  function, which is shown to return after at most two rounds.

  What is not modelled: log output; the watchers, queues and retries of the kube runtime, of
  which the operator's steps keep only that any pod or policy may be reconciled at any time, and
  the process that a controller aborts its reconciliations and panics with them; the
  sockets of axum; the reordering of relaxed atomic accesses across cells; the texts of serde's errors and
  numbers with a fraction; the CRD schema that schemars derives; the integration test that needs
  a cluster and the tests of CEL's macros; of the deployment, names, labels, resources and
  scheduling. The reconciliations of policies have no bound of their own under the shutdown, since
  how many patches one poll of \<open>for_each_concurrent\<close> sends is up to the futures crate.
\<close>

end
